(* ===== verification/Prelude.thy ===== *)
theory Prelude
  imports Main "HOL-Library.Word"
begin

text \<open>
  What every theory of the development shares.

  \<^item> Machine integers: a Rust \<open>u8\<close>, \<open>u16\<close>, \<open>u32\<close>, \<open>u64\<close> is a word of that width, so
    that casts truncate and arithmetic wraps as the release build does. A \<open>usize\<close> that counts
    bytes of a buffer is a \<open>nat\<close> (the target is 64-bit: \<open>as usize\<close> on a \<open>u64\<close> loses nothing).
  \<^item> Byte buffers: \<open>Vec<u8>\<close>, \<open>&[u8]\<close>, \<open>Bytes\<close> and fixed arrays are byte lists.
  \<^item> Failures: \<open>Result\<close> is a sum with the error on the left. A Rust panic (an index or a slice out
    of range, a capacity overflow) is a value of its own, \<open>Panic\<close>, next to the errors the code
    returns, so that the absence of panics is a theorem and not a convention.
  \<^item> Sequencing: \<open>andthen\<close> is the \<open>?\<close> operator on results, \<open>seqA\<close> is sequencing of statements that
    change a state and may return early: on an error the state reached so far is kept, as it is
    behind a \<open>&mut\<close> reference.
\<close>

unbundle bit_operations_syntax

type_synonym u8 = "8 word"
type_synonym u16 = "16 word"
type_synonym u32 = "32 word"
type_synonym u64 = "64 word"
type_synonym bytes = "u8 list"

named_theorems step_simps \<open>evaluation of results, actions and slices\<close>
named_theorems result_dest \<open>inversion of a successful or failed sequence\<close>

section \<open>Results and panics\<close>

datatype 'e fail = Panic | Err 'e

type_synonym ('a, 'e) result = "'e fail + 'a"

abbreviation Ok :: "'a \<Rightarrow> ('a, 'e) result" where
  "Ok x \<equiv> Inr x"

abbreviation Error :: "'e \<Rightarrow> ('a, 'e) result" where
  "Error e \<equiv> Inl (Err e)"

abbreviation Panics :: "('a, 'e) result" where
  "Panics \<equiv> Inl Panic"

text \<open>\<open>andthen r k\<close>: the \<open>?\<close> operator followed by the rest of the function.\<close>

definition andthen :: "('a, 'e) result \<Rightarrow> ('a \<Rightarrow> ('b, 'e) result) \<Rightarrow> ('b, 'e) result" where
  "andthen r k = (case r of Inl e \<Rightarrow> Inl e | Inr x \<Rightarrow> k x)"

text \<open>\<open>map_err f r\<close>: \<open>Result::map_err\<close>, and the \<open>From\<close> conversion inside \<open>?\<close>.\<close>

definition map_err :: "('e \<Rightarrow> 'f) \<Rightarrow> ('a, 'e) result \<Rightarrow> ('a, 'f) result" where
  "map_err f r = (case r of Inl Panic \<Rightarrow> Inl Panic | Inl (Err e) \<Rightarrow> Inl (Err (f e)) | Inr x \<Rightarrow> Inr x)"

definition ok_or :: "'e \<Rightarrow> 'a option \<Rightarrow> ('a, 'e) result" where
  "ok_or e v = (case v of None \<Rightarrow> Error e | Some x \<Rightarrow> Ok x)"

definition is_ok :: "('a, 'e) result \<Rightarrow> bool" where
  "is_ok r = (case r of Inl e \<Rightarrow> False | Inr x \<Rightarrow> True)"

lemma andthen_Inl [simp, step_simps]: "andthen (Inl e) k = Inl e"
  by (simp add: andthen_def)

lemma andthen_Inr [simp, step_simps]: "andthen (Inr x) k = k x"
  by (simp add: andthen_def)

lemma map_err_Panic [simp, step_simps]: "map_err f (Inl Panic) = Inl Panic"
  by (simp add: map_err_def)

lemma map_err_Err [simp, step_simps]: "map_err f (Inl (Err e)) = Inl (Err (f e))"
  by (simp add: map_err_def)

lemma map_err_Inr [simp, step_simps]: "map_err f (Inr x) = Inr x"
  by (simp add: map_err_def)

lemma ok_or_None [simp, step_simps]: "ok_or e None = Error e"
  by (simp add: ok_or_def)

lemma ok_or_Some [simp, step_simps]: "ok_or e (Some x) = Ok x"
  by (simp add: ok_or_def)

lemma is_ok_Inl [simp, step_simps]: "is_ok (Inl e) = False"
  by (simp add: is_ok_def)

lemma is_ok_Inr [simp, step_simps]: "is_ok (Inr x) = True"
  by (simp add: is_ok_def)

lemma is_ok_iff: "is_ok r \<longleftrightarrow> (\<exists>x. r = Inr x)"
  by (cases r) simp_all

lemma andthen_eq_Inr [result_dest]: "andthen r k = Inr y \<longleftrightarrow> (\<exists>x. r = Inr x \<and> k x = Inr y)"
  by (cases r) simp_all

lemma andthen_eq_Inl [result_dest]:
  "andthen r k = Inl e \<longleftrightarrow> r = Inl e \<or> (\<exists>x. r = Inr x \<and> k x = Inl e)"
  by (cases r) auto

lemma map_err_eq_Inr [result_dest]: "map_err f r = Inr x \<longleftrightarrow> r = Inr x"
  by (auto simp: map_err_def split: sum.splits fail.splits)

lemma map_err_eq_Panic [result_dest]: "map_err f r = Inl Panic \<longleftrightarrow> r = Inl Panic"
  by (auto simp: map_err_def split: sum.splits fail.splits)

lemma map_err_eq_Err [result_dest]:
  "map_err f r = Inl (Err e) \<longleftrightarrow> (\<exists>e'. r = Inl (Err e') \<and> e = f e')"
  by (auto simp: map_err_def split: sum.splits fail.splits)

lemma ok_or_eq_Inr [result_dest]: "ok_or e v = Inr x \<longleftrightarrow> v = Some x"
  by (auto simp: ok_or_def split: option.splits)

lemma ok_or_eq_Inl [result_dest]: "ok_or e v = Inl d \<longleftrightarrow> v = None \<and> d = Err e"
  by (auto simp: ok_or_def split: option.splits)

lemma map_err_andthen: "map_err f (andthen r k) = andthen (map_err f r) (\<lambda>x. map_err f (k x))"
  by (auto simp: andthen_def map_err_def split: sum.splits fail.splits)

lemma andthen_cong [fundef_cong]:
  "r = r' \<Longrightarrow> (\<And>x. r' = Inr x \<Longrightarrow> k x = k' x) \<Longrightarrow> andthen r k = andthen r' k'"
  by (cases r') simp_all

section \<open>Actions on a state\<close>

text \<open>
  A method with \<open>&mut self\<close> (or a function with a \<open>&mut\<close> argument) that returns a \<open>Result\<close>.
\<close>

type_synonym ('s, 'a, 'e) act = "'s \<Rightarrow> ('a, 'e) result \<times> 's"

definition seqA :: "('s, 'a, 'e) act \<Rightarrow> ('a \<Rightarrow> ('s, 'b, 'e) act) \<Rightarrow> ('s, 'b, 'e) act" where
  "seqA m k s = (case m s of (r, s') \<Rightarrow> (case r of Inl e \<Rightarrow> (Inl e, s') | Inr x \<Rightarrow> k x s'))"

definition returnA :: "'a \<Rightarrow> ('s, 'a, 'e) act" where
  "returnA x s = (Inr x, s)"

text \<open>A result that does not touch the state, lifted.\<close>

definition liftA :: "('a, 'e) result \<Rightarrow> ('s, 'a, 'e) act" where
  "liftA r s = (r, s)"

lemma seqA_Inl [step_simps]: "m s = (Inl e, s') \<Longrightarrow> seqA m k s = (Inl e, s')"
  by (simp add: seqA_def)

lemma seqA_Inr [step_simps]: "m s = (Inr x, s') \<Longrightarrow> seqA m k s = k x s'"
  by (simp add: seqA_def)

lemma returnA_apply [simp, step_simps]: "returnA x s = (Inr x, s)"
  by (simp add: returnA_def)

lemma liftA_apply [simp, step_simps]: "liftA r s = (r, s)"
  by (simp add: liftA_def)

lemma seqA_eq_Inr [result_dest]:
  "seqA m k s = (Inr y, t) \<longleftrightarrow> (\<exists>x s'. m s = (Inr x, s') \<and> k x s' = (Inr y, t))"
  by (auto simp: seqA_def split: prod.splits sum.splits)

lemma seqA_eq_Inl [result_dest]:
  "seqA m k s = (Inl e, t) \<longleftrightarrow>
     m s = (Inl e, t) \<or> (\<exists>x s'. m s = (Inr x, s') \<and> k x s' = (Inl e, t))"
  by (auto simp: seqA_def split: prod.splits sum.splits)

section \<open>Indexing and slicing\<close>

text \<open>
  \<open>xs[i]\<close>, \<open>&xs[a..b]\<close>, \<open>&xs[a..]\<close> and \<open>xs[a..a + ys.len()].copy_from_slice(ys)\<close>: each panics
  where Rust panics.
\<close>

definition index_at :: "'a list \<Rightarrow> nat \<Rightarrow> ('a, 'e) result" where
  "index_at xs i = (if i < length xs then Ok (xs ! i) else Panics)"

definition slice :: "'a list \<Rightarrow> nat \<Rightarrow> nat \<Rightarrow> ('a list, 'e) result" where
  "slice xs a b = (if a \<le> b \<and> b \<le> length xs then Ok (take (b - a) (drop a xs)) else Panics)"

definition slice_from :: "'a list \<Rightarrow> nat \<Rightarrow> ('a list, 'e) result" where
  "slice_from xs a = (if a \<le> length xs then Ok (drop a xs) else Panics)"

definition store_at :: "'a list \<Rightarrow> nat \<Rightarrow> 'a \<Rightarrow> ('a list, 'e) result" where
  "store_at xs i y = (if i < length xs then Ok (xs[i := y]) else Panics)"

definition store_slice :: "'a list \<Rightarrow> nat \<Rightarrow> 'a list \<Rightarrow> ('a list, 'e) result" where
  "store_slice xs a ys =
     (if a + length ys \<le> length xs
      then Ok (take a xs @ ys @ drop (a + length ys) xs) else Panics)"

text \<open>\<open>Vec::resize\<close>: truncate or extend with a value.\<close>

definition resize :: "nat \<Rightarrow> 'a \<Rightarrow> 'a list \<Rightarrow> 'a list" where
  "resize n y xs = take n xs @ replicate (n - length xs) y"

text \<open>
  \<open>Vec::with_capacity(n)\<close> for elements of \<open>width\<close> bytes: it panics when the allocation would be
  larger than \<open>isize::MAX\<close> bytes. (That the allocator may also run out of memory is not modelled.)
\<close>

definition isize_max :: nat where
  "isize_max = 2 ^ 63 - 1"

definition with_capacity :: "nat \<Rightarrow> nat \<Rightarrow> (unit, 'e) result" where
  "with_capacity width n = (if n * width \<le> isize_max then Ok () else Panics)"

lemma index_at_ok [step_simps]: "i < length xs \<Longrightarrow> index_at xs i = Ok (xs ! i)"
  by (simp add: index_at_def)

lemma slice_ok [step_simps]:
  "a \<le> b \<Longrightarrow> b \<le> length xs \<Longrightarrow> slice xs a b = Ok (take (b - a) (drop a xs))"
  by (simp add: slice_def)

lemma slice_from_ok [step_simps]: "a \<le> length xs \<Longrightarrow> slice_from xs a = Ok (drop a xs)"
  by (simp add: slice_from_def)

lemma store_slice_ok [step_simps]:
  "a + length ys \<le> length xs \<Longrightarrow>
     store_slice xs a ys = Ok (take a xs @ ys @ drop (a + length ys) xs)"
  by (simp add: store_slice_def)

lemma slice_append_mid:
  "length p = a \<Longrightarrow> a + length q = b \<Longrightarrow> slice (p @ q @ r) a b = Ok q"
  by (auto simp: slice_def)

lemma slice_mid: "length p = a \<Longrightarrow> length q = n \<Longrightarrow> slice (p @ q @ r) a (a + n) = Ok q"
  by (simp add: slice_append_mid)

lemma length_resize [simp]: "length (resize n y xs) = n"
  by (simp add: resize_def)

lemma resize_id: "length xs = n \<Longrightarrow> resize n y xs = xs"
  by (simp add: resize_def)

section \<open>What a computation may return\<close>

text \<open>
  \<open>outcome E Q r\<close>: \<open>r\<close> is not a panic, an error it returns satisfies \<open>E\<close> and a value it returns
  satisfies \<open>Q\<close>. The rules of the collection \<open>wp\<close> push it through a function from its last
  statement to its first, leaving the conditions on the arguments.
\<close>

named_theorems wp \<open>outcome of the constructs a function is made of\<close>

definition outcome :: "('e \<Rightarrow> bool) \<Rightarrow> ('a \<Rightarrow> bool) \<Rightarrow> ('a, 'e) result \<Rightarrow> bool" where
  "outcome E Q r = (case r of Inl Panic \<Rightarrow> False | Inl (Err e) \<Rightarrow> E e | Inr x \<Rightarrow> Q x)"

lemma outcome_basic [wp]:
  "outcome E Q (Inr x) = Q x" "outcome E Q (Inl (Err e)) = E e" "outcome E Q (Inl Panic) = False"
  by (simp_all add: outcome_def)

lemma outcome_andthen [wp]: "outcome E Q (andthen r k) = outcome E (\<lambda>x. outcome E Q (k x)) r"
  by (auto simp: outcome_def andthen_def split: sum.split fail.split)

lemma outcome_if [wp]: "outcome E Q (if c then r else s) = (if c then outcome E Q r else outcome E Q s)"
  by simp

lemma outcome_map_err [wp]: "outcome E Q (map_err f r) = outcome (\<lambda>e. E (f e)) Q r"
  by (auto simp: outcome_def map_err_def split: sum.split fail.split)

lemma outcome_ok_or [wp]: "outcome E Q (ok_or e v) = (case v of None \<Rightarrow> E e | Some x \<Rightarrow> Q x)"
  by (simp add: outcome_def ok_or_def split: option.split)

lemma outcome_index_at [wp]: "outcome E Q (index_at xs i) = (i < length xs \<and> Q (xs ! i))"
  by (simp add: outcome_def index_at_def)

lemma outcome_slice [wp]:
  "outcome E Q (slice xs a b) = (a \<le> b \<and> b \<le> length xs \<and> Q (take (b - a) (drop a xs)))"
  by (auto simp: outcome_def slice_def)

lemma outcome_slice_from [wp]: "outcome E Q (slice_from xs a) = (a \<le> length xs \<and> Q (drop a xs))"
  by (simp add: outcome_def slice_from_def)

lemma outcome_store_slice [wp]:
  "outcome E Q (store_slice xs a ys) =
     (a + length ys \<le> length xs \<and> Q (take a xs @ ys @ drop (a + length ys) xs))"
  by (simp add: outcome_def store_slice_def)

lemma outcome_mono:
  "outcome E Q r \<Longrightarrow> (\<And>e. E e \<Longrightarrow> E' e) \<Longrightarrow> (\<And>x. r = Inr x \<Longrightarrow> Q x \<Longrightarrow> Q' x) \<Longrightarrow> outcome E' Q' r"
  by (auto simp: outcome_def split: sum.splits fail.splits)

lemma outcome_okD: "outcome E Q r \<Longrightarrow> r = Inr x \<Longrightarrow> Q x"
  by (simp add: outcome_def)

lemma outcome_errD: "outcome E Q r \<Longrightarrow> r = Inl (Err e) \<Longrightarrow> E e"
  by (simp add: outcome_def)

lemma outcome_no_panic: "outcome E Q r \<Longrightarrow> r \<noteq> Inl Panic"
  by (auto simp: outcome_def)

section \<open>Big-endian integers of the standard library\<close>

definition be32 :: "u8 \<Rightarrow> u8 \<Rightarrow> u8 \<Rightarrow> u8 \<Rightarrow> u32" where
  "be32 b0 b1 b2 b3 =
     push_bit 24 (ucast b0) OR push_bit 16 (ucast b1) OR push_bit 8 (ucast b2) OR ucast b3"

definition be16 :: "u8 \<Rightarrow> u8 \<Rightarrow> u16" where
  "be16 b0 b1 = push_bit 8 (ucast b0) OR ucast b1"

definition to_be32 :: "u32 \<Rightarrow> bytes" where
  "to_be32 w = [ucast (drop_bit 24 w), ucast (drop_bit 16 w), ucast (drop_bit 8 w), ucast w]"

section \<open>Words\<close>

lemma not_bit_above: "v < 2 ^ k \<Longrightarrow> k \<le> n \<Longrightarrow> \<not> bit v n" for v :: "'a::len word"
  by (metis bit_take_bit_iff less_mask_eq not_le take_bit_eq_mask)

lemma bit_int_255: "bit (255 :: int) n \<longleftrightarrow> n < 8"
proof -
  have "(255 :: int) = mask 8" by (simp add: mask_eq_exp_minus_1)
  then show ?thesis by (simp only: bit_mask_iff) auto
qed

lemma bit_int_63: "bit (63 :: int) n \<longleftrightarrow> n < 6"
proof -
  have "(63 :: int) = mask 6" by (simp add: mask_eq_exp_minus_1)
  then show ?thesis by (simp only: bit_mask_iff) auto
qed

lemma bit_int_3: "bit (3 :: int) n \<longleftrightarrow> n < 2"
proof -
  have "(3 :: int) = mask 2" by (simp add: mask_eq_exp_minus_1)
  then show ?thesis by (simp only: bit_mask_iff) auto
qed

text \<open>One byte of a word, and putting a word together from its bytes, from the low end.\<close>

lemma byte_of_u64: "ucast (ucast (w AND 255 :: u64) :: u8) = take_bit 8 w"
  by (rule bit_word_eqI) (auto simp: bit_simps bit_int_255)

lemma byte_of_word: "ucast (ucast (w :: 'a::len word) :: u8) = (take_bit 8 w :: 'a word)"
  by (rule bit_word_eqI) (auto simp: bit_simps)

lemma join_byte:
  "push_bit k (take_bit 8 (drop_bit k v)) OR take_bit k v = take_bit (k + 8) (v :: 'a::len word)"
  by (rule bit_word_eqI) (auto simp: bit_simps)

lemma take_bit_small: "v < 2 ^ k \<Longrightarrow> take_bit k v = v" for v :: "'a::len word"
  by (rule bit_word_eqI) (use not_bit_above in \<open>force simp: bit_simps not_le [symmetric]\<close>)

lemma unat_pow2: "k < LENGTH('a::len) \<Longrightarrow> unat (2 ^ k :: 'a word) = 2 ^ k"
proof -
  assume k: "k < LENGTH('a)"
  have "unat (2 ^ k :: 'a word) = unat (word_of_nat (2 ^ k) :: 'a word)" by simp
  also have "\<dots> = 2 ^ k"
    by (simp only: unsigned_of_nat of_nat_id) (rule take_bit_nat_eq_self, simp add: k)
  finally show ?thesis .
qed

lemma less_by_bits:
  fixes v :: "'a::len word"
  assumes "\<And>n. k \<le> n \<Longrightarrow> \<not> bit v n" and "k < LENGTH('a)"
  shows "v < 2 ^ k"
proof -
  have "take_bit k v = v"
    using assms(1) by (intro bit_word_eqI) (force simp: bit_simps not_le [symmetric])
  then have "unat v = take_bit k (unat v)"
    by (metis unsigned_take_bit_eq)
  also have "\<dots> < 2 ^ k"
    by (rule take_bit_nat_less_exp)
  also have "2 ^ k = unat (2 ^ k :: 'a word)"
    using assms(2) by (simp add: unat_pow2)
  finally show ?thesis
    by (simp add: word_less_nat_alt)
qed

lemma word_cases4: "w < 4 \<Longrightarrow> w = 0 \<or> w = 1 \<or> w = 2 \<or> w = 3" for w :: u8
proof -
  assume "w < 4"
  then have "unat w < 4" by (simp add: word_less_nat_alt)
  then have "unat w = 0 \<or> unat w = 1 \<or> unat w = 2 \<or> unat w = 3" by arith
  then show ?thesis by (simp add: word_unat_eq_iff)
qed

lemma low_bits_2: "x AND 3 \<in> {0, 1, 2, 3}" for x :: u8
proof -
  have "x AND 3 < 2 ^ 2" by (rule less_by_bits) (auto simp: bit_simps bit_int_3)
  then show ?thesis using word_cases4 [of "x AND 3"] by auto
qed

lemma be32_to_be32: "to_be32 w = [b0, b1, b2, b3] \<Longrightarrow> be32 b0 b1 b2 b3 = w"
proof -
  assume "to_be32 w = [b0, b1, b2, b3]"
  then have b: "b0 = ucast (drop_bit 24 w)" "b1 = ucast (drop_bit 16 w)"
      "b2 = ucast (drop_bit 8 w)" "b3 = ucast w"
    by (simp_all add: to_be32_def)
  have "push_bit 24 (take_bit 8 (drop_bit 24 w)) OR push_bit 16 (take_bit 8 (drop_bit 16 w)) OR
      push_bit 8 (take_bit 8 (drop_bit 8 w)) OR take_bit 8 w = take_bit 32 w"
    by (simp only: join_byte arith_simps)
  also have "take_bit 32 w = w"
    by (rule take_bit_word_eq_self) simp
  finally show ?thesis
    by (simp only: b be32_def byte_of_word)
qed

lemma length_to_be32 [simp]: "length (to_be32 w) = 4"
  by (simp add: to_be32_def)

end
