(* ===== verification/VarInt.thy ===== *)
theory VarInt
  imports Prelude
begin

text \<open>
  \<open>src/varint.rs\<close>: QUIC variable-length integers. \<open>encode\<close> and \<open>decode\<close> are the two functions
  of the file, over a mutable slice and a slice; \<open>put_varint\<close> appends to a growing buffer. The
  reference for all of them is \<open>varint_bytes\<close>, the bytes of the shortest encoding: \<open>encode\<close> writes
  exactly these bytes, \<open>decode\<close> reads them back and leaves the rest alone.
\<close>

type_synonym varint = u64

datatype varint_error =
    BufferTooShort nat nat
  | ValueTooLarge u64

definition VARINT_MAX :: varint where
  "VARINT_MAX = push_bit 62 1 - 1"

definition encoded_len :: "varint \<Rightarrow> nat" where
  "encoded_len v =
     (if v \<le> 63 then 1
      else if v \<le> 16383 then 2
      else if v \<le> 1073741823 then 4
      else 8)"

definition encode :: "varint \<Rightarrow> (bytes, nat, varint_error) act" where
  "encode v buf =
     (if v > VARINT_MAX then (Error (ValueTooLarge v), buf)
      else
        let len = encoded_len v in
        if length buf < len then (Error (BufferTooShort len (length buf)), buf)
        else if len = 1 then (Ok len, buf[0 := ucast v])
        else if len = 2 then
          (Ok len, buf[0 := 0x40 OR ucast (drop_bit 8 v), 1 := ucast (v AND 0xff)])
        else if len = 4 then
          (Ok len, buf[0 := 0x80 OR ucast (drop_bit 24 v),
                       1 := ucast (drop_bit 16 v AND 0xff),
                       2 := ucast (drop_bit 8 v AND 0xff),
                       3 := ucast (v AND 0xff)])
        else if len = 8 then
          (Ok len, buf[0 := 0xc0 OR ucast (drop_bit 56 v),
                       1 := ucast (drop_bit 48 v AND 0xff),
                       2 := ucast (drop_bit 40 v AND 0xff),
                       3 := ucast (drop_bit 32 v AND 0xff),
                       4 := ucast (drop_bit 24 v AND 0xff),
                       5 := ucast (drop_bit 16 v AND 0xff),
                       6 := ucast (drop_bit 8 v AND 0xff),
                       7 := ucast (v AND 0xff)])
        else (Panics, buf))"

definition decode :: "bytes \<Rightarrow> (varint \<times> nat, varint_error) result" where
  "decode buf =
     (if buf = [] then Error (BufferTooShort 1 0)
      else
        let first = buf ! 0; tag = drop_bit 6 first in
        if tag = 0 then Ok (ucast first, 1)
        else if tag = 1 then
          (if length buf < 2 then Error (BufferTooShort 2 (length buf))
           else Ok (push_bit 8 (ucast first AND 0x3f) OR ucast (buf ! 1), 2))
        else if tag = 2 then
          (if length buf < 4 then Error (BufferTooShort 4 (length buf))
           else Ok (push_bit 24 (ucast first AND 0x3f) OR push_bit 16 (ucast (buf ! 1)) OR
                    push_bit 8 (ucast (buf ! 2)) OR ucast (buf ! 3), 4))
        else if tag = 3 then
          (if length buf < 8 then Error (BufferTooShort 8 (length buf))
           else Ok (push_bit 56 (ucast first AND 0x3f) OR push_bit 48 (ucast (buf ! 1)) OR
                    push_bit 40 (ucast (buf ! 2)) OR push_bit 32 (ucast (buf ! 3)) OR
                    push_bit 24 (ucast (buf ! 4)) OR push_bit 16 (ucast (buf ! 5)) OR
                    push_bit 8 (ucast (buf ! 6)) OR ucast (buf ! 7), 8))
        else Panics)"

text \<open>\<open>put_varint\<close> encodes into eight zero bytes of scratch space and appends the used part.\<close>

definition put_varint :: "varint \<Rightarrow> (bytes, unit, varint_error) act" where
  "put_varint v buf =
     (if v > VARINT_MAX then (Error (ValueTooLarge v), buf)
      else
        let len = encoded_len v in
        (case encode v (replicate 8 0) of
           (Inl e, tmp) \<Rightarrow> (Inl e, buf)
         | (Inr n, tmp) \<Rightarrow>
             (case slice tmp 0 len of Inl e \<Rightarrow> (Inl e, buf) | Inr s \<Rightarrow> (Ok (), buf @ s))))"

section \<open>The reference encoding\<close>

definition varint_bytes :: "varint \<Rightarrow> bytes" where
  "varint_bytes v =
     (if v \<le> 63 then [ucast v]
      else if v \<le> 16383 then [0x40 OR ucast (drop_bit 8 v), ucast (v AND 0xff)]
      else if v \<le> 1073741823 then
        [0x80 OR ucast (drop_bit 24 v), ucast (drop_bit 16 v AND 0xff),
         ucast (drop_bit 8 v AND 0xff), ucast (v AND 0xff)]
      else
        [0xc0 OR ucast (drop_bit 56 v), ucast (drop_bit 48 v AND 0xff),
         ucast (drop_bit 40 v AND 0xff), ucast (drop_bit 32 v AND 0xff),
         ucast (drop_bit 24 v AND 0xff), ucast (drop_bit 16 v AND 0xff),
         ucast (drop_bit 8 v AND 0xff), ucast (v AND 0xff)])"

lemma VARINT_MAX_eq: "VARINT_MAX = 4611686018427387903"
  by (simp add: VARINT_MAX_def)

lemma VARINT_MAX_less: "v \<le> VARINT_MAX \<longleftrightarrow> v < 2 ^ 62"
  by (auto simp: VARINT_MAX_eq word_le_nat_alt word_less_nat_alt)

lemma VARINT_MAX_unat: "v \<le> VARINT_MAX \<longleftrightarrow> unat v < 2 ^ 62"
  by (simp add: VARINT_MAX_less word_less_nat_alt)

lemma length_varint_bytes [simp]: "length (varint_bytes v) = encoded_len v"
  by (simp add: varint_bytes_def encoded_len_def)

lemma encoded_len_pos [simp]: "0 < encoded_len v"
  by (simp add: encoded_len_def)

lemma encoded_len_le_8: "encoded_len v \<le> 8"
  by (simp add: encoded_len_def)

lemma encoded_len_cases: "encoded_len v \<in> {1, 2, 4, 8}"
  by (simp add: encoded_len_def)

lemma varint_bytes_not_Nil [simp]: "varint_bytes v \<noteq> []"
  by (simp add: varint_bytes_def)

lemma long_list_1: "1 \<le> length xs \<Longrightarrow> \<exists>a r. xs = a # r"
  by (cases xs) auto

lemma long_list_2: "2 \<le> length xs \<Longrightarrow> \<exists>a b r. xs = a # b # r"
  by (auto simp: numeral_eq_Suc Suc_le_length_iff)

lemma long_list_4: "4 \<le> length xs \<Longrightarrow> \<exists>a b c d r. xs = a # b # c # d # r"
  by (auto simp: numeral_eq_Suc Suc_le_length_iff)

lemma long_list_8:
  "8 \<le> length xs \<Longrightarrow> \<exists>a b c d e f g h r. xs = a # b # c # d # e # f # g # h # r"
  by (auto simp: numeral_eq_Suc Suc_le_length_iff)

text \<open>\<open>encode\<close> writes exactly the reference bytes over the front of the buffer.\<close>

lemma encode_eq:
  assumes "v \<le> VARINT_MAX" and "encoded_len v \<le> length buf"
  shows "encode v buf = (Ok (encoded_len v), varint_bytes v @ drop (encoded_len v) buf)"
proof -
  have not_large: "\<not> v > VARINT_MAX" using assms(1) by simp
  consider "v \<le> 63" | "\<not> v \<le> 63" "v \<le> 16383"
    | "\<not> v \<le> 63" "\<not> v \<le> 16383" "v \<le> 1073741823"
    | "\<not> v \<le> 63" "\<not> v \<le> 16383" "\<not> v \<le> 1073741823"
    by blast
  then show ?thesis
  proof cases
    case 1
    with assms(2) have "1 \<le> length buf" by (simp add: encoded_len_def)
    from long_list_1 [OF this] 1 not_large show ?thesis
      by (auto simp: encode_def encoded_len_def varint_bytes_def)
  next
    case 2
    with assms(2) have "2 \<le> length buf" by (simp add: encoded_len_def)
    from long_list_2 [OF this] 2 not_large show ?thesis
      by (auto simp: encode_def encoded_len_def varint_bytes_def)
  next
    case 3
    with assms(2) have "4 \<le> length buf" by (simp add: encoded_len_def)
    from long_list_4 [OF this] 3 not_large show ?thesis
      by (auto simp: encode_def encoded_len_def varint_bytes_def)
  next
    case 4
    with assms(2) have "8 \<le> length buf" by (simp add: encoded_len_def)
    from long_list_8 [OF this] 4 not_large show ?thesis
      by (auto simp: encode_def encoded_len_def varint_bytes_def)
  qed
qed

lemma encode_too_large: "VARINT_MAX < v \<Longrightarrow> encode v buf = (Error (ValueTooLarge v), buf)"
  by (simp add: encode_def)

lemma encode_too_short:
  "v \<le> VARINT_MAX \<Longrightarrow> length buf < encoded_len v \<Longrightarrow>
     encode v buf = (Error (BufferTooShort (encoded_len v) (length buf)), buf)"
  by (simp add: encode_def Let_def)

lemma put_varint_ok: "v \<le> VARINT_MAX \<Longrightarrow> put_varint v buf = (Ok (), buf @ varint_bytes v)"
  using encoded_len_le_8 [of v]
  by (simp add: put_varint_def Let_def encode_eq slice_def)

lemma put_varint_too_large: "VARINT_MAX < v \<Longrightarrow> put_varint v buf = (Error (ValueTooLarge v), buf)"
  by (simp add: put_varint_def)

section \<open>Decoding the reference encoding\<close>

lemma tag_of_top:
  fixes t :: u8
  assumes "w < 64"
  shows "drop_bit 6 (t OR w) = drop_bit 6 t"
proof (rule bit_word_eqI)
  fix n
  have "\<not> bit w (6 + n)"
    using assms by (intro not_bit_above [where k = 6]) simp_all
  then show "bit (drop_bit 6 (t OR w)) n = bit (drop_bit 6 t) n"
    by (simp add: bit_simps)
qed

lemma top_byte_small:
  fixes v :: u64
  assumes "v < 2 ^ (k + 6)"
  shows "(ucast (drop_bit k v) :: u8) < 64"
proof -
  have "\<not> bit (ucast (drop_bit k v) :: u8) n" if "6 \<le> n" for n
    using that not_bit_above [OF assms] by (simp add: bit_simps)
  then have "(ucast (drop_bit k v) :: u8) < 2 ^ 6"
    by (rule less_by_bits) simp_all
  then show ?thesis by simp
qed

lemma join_top:
  fixes v :: u64
  assumes v: "v < 2 ^ (k + 6)" and t: "take_bit 6 t = (0 :: u8)"
  shows "push_bit k (ucast (t OR ucast (drop_bit k v)) AND 63) OR take_bit k v = v"
proof (rule bit_word_eqI)
  fix n
  have t': "\<not> bit t m" if "m < 6" for m
    using t that by (metis bit_0_eq bit_take_bit_iff bot_apply bot_bool_def)
  have v': "bit v n \<Longrightarrow> n < k + 6 \<and> n < 64"
    using not_bit_above [OF v] bit_imp_le_length [of v n] by (auto simp: not_le [symmetric])
  show "bit (push_bit k (ucast (t OR ucast (drop_bit k v)) AND 63) OR take_bit k v) n = bit v n"
    using t' v' by (auto simp: bit_simps bit_int_63)
qed

lemma take_bit_tags:
  "take_bit 6 (0x40 :: u8) = 0" "take_bit 6 (0x80 :: u8) = 0" "take_bit 6 (0xc0 :: u8) = 0"
  by simp_all

lemma small_ucast: "v \<le> 63 \<Longrightarrow> ucast (ucast v :: u8) = (v :: u64)"
proof -
  assume "v \<le> 63"
  then have "v < 2 ^ 8" by (simp add: word_le_nat_alt word_less_nat_alt)
  then show ?thesis by (simp only: byte_of_word take_bit_small)
qed

text \<open>\<open>decode\<close> on a buffer that is long enough, by the tag of its first byte.\<close>

lemma decode_1: "drop_bit 6 b0 = 0 \<Longrightarrow> decode (b0 # r) = Ok (ucast b0, 1)"
  by (simp add: decode_def)

lemma decode_2:
  "drop_bit 6 b0 = 1 \<Longrightarrow>
     decode (b0 # b1 # r) = Ok (push_bit 8 (ucast b0 AND 0x3f) OR ucast b1, 2)"
  by (simp add: decode_def)

lemma decode_4:
  "drop_bit 6 b0 = 2 \<Longrightarrow>
     decode (b0 # b1 # b2 # b3 # r) =
       Ok (push_bit 24 (ucast b0 AND 0x3f) OR push_bit 16 (ucast b1) OR
           push_bit 8 (ucast b2) OR ucast b3, 4)"
  by (simp add: decode_def)

lemma decode_8:
  "drop_bit 6 b0 = 3 \<Longrightarrow>
     decode (b0 # b1 # b2 # b3 # b4 # b5 # b6 # b7 # r) =
       Ok (push_bit 56 (ucast b0 AND 0x3f) OR push_bit 48 (ucast b1) OR
           push_bit 40 (ucast b2) OR push_bit 32 (ucast b3) OR
           push_bit 24 (ucast b4) OR push_bit 16 (ucast b5) OR
           push_bit 8 (ucast b6) OR ucast b7, 8)"
  by (simp add: decode_def)

lemma decode_varint_bytes:
  assumes "v \<le> VARINT_MAX"
  shows "decode (varint_bytes v @ rest) = Ok (v, encoded_len v)"
proof -
  consider "v \<le> 63" | "\<not> v \<le> 63" "v \<le> 16383"
    | "\<not> v \<le> 63" "\<not> v \<le> 16383" "v \<le> 1073741823"
    | "\<not> v \<le> 63" "\<not> v \<le> 16383" "\<not> v \<le> 1073741823"
    by blast
  then show ?thesis
  proof cases
    case 1
    then have v: "v < 2 ^ (0 + 6)" by (simp add: word_le_nat_alt word_less_nat_alt)
    have "drop_bit 6 (0 OR ucast (drop_bit 0 v) :: u8) = drop_bit 6 0"
      by (intro tag_of_top top_byte_small v)
    with 1 show ?thesis
      by (simp add: decode_1 varint_bytes_def encoded_len_def small_ucast)
  next
    case 2
    then have v: "v < 2 ^ (8 + 6)" by (simp add: word_le_nat_alt word_less_nat_alt)
    have "drop_bit 6 (0x40 OR ucast (drop_bit 8 v) :: u8) = drop_bit 6 0x40"
      by (intro tag_of_top top_byte_small v)
    then have tag: "drop_bit 6 (0x40 OR ucast (drop_bit 8 v) :: u8) = 1" by simp
    have "varint_bytes v = [0x40 OR ucast (drop_bit 8 v), ucast (v AND 0xff)]"
      using 2 by (simp add: varint_bytes_def)
    moreover have "encoded_len v = 2" using 2 by (simp add: encoded_len_def)
    ultimately show ?thesis
      by (simp only: append_Cons decode_2 [OF tag] byte_of_u64) (simp only: join_top [OF v] take_bit_tags)
  next
    case 3
    then have v: "v < 2 ^ (24 + 6)" by (simp add: word_le_nat_alt word_less_nat_alt)
    have "drop_bit 6 (0x80 OR ucast (drop_bit 24 v) :: u8) = drop_bit 6 0x80"
      by (intro tag_of_top top_byte_small v)
    then have tag: "drop_bit 6 (0x80 OR ucast (drop_bit 24 v) :: u8) = 2" by simp
    have "varint_bytes v = [0x80 OR ucast (drop_bit 24 v), ucast (drop_bit 16 v AND 0xff),
        ucast (drop_bit 8 v AND 0xff), ucast (v AND 0xff)]"
      using 3 by (simp add: varint_bytes_def)
    moreover have "encoded_len v = 4" using 3 by (simp add: encoded_len_def)
    ultimately show ?thesis
      by (simp only: append_Cons decode_4 [OF tag] byte_of_u64 join_byte arith_simps)
        (simp only: join_top [OF v] take_bit_tags)
  next
    case 4
    then have v: "v < 2 ^ (56 + 6)" using assms by (simp add: VARINT_MAX_less)
    have "drop_bit 6 (0xc0 OR ucast (drop_bit 56 v) :: u8) = drop_bit 6 0xc0"
      by (intro tag_of_top top_byte_small v)
    then have tag: "drop_bit 6 (0xc0 OR ucast (drop_bit 56 v) :: u8) = 3" by simp
    have "varint_bytes v = [0xc0 OR ucast (drop_bit 56 v), ucast (drop_bit 48 v AND 0xff),
        ucast (drop_bit 40 v AND 0xff), ucast (drop_bit 32 v AND 0xff),
        ucast (drop_bit 24 v AND 0xff), ucast (drop_bit 16 v AND 0xff),
        ucast (drop_bit 8 v AND 0xff), ucast (v AND 0xff)]"
      using 4 by (simp add: varint_bytes_def)
    moreover have "encoded_len v = 8" using 4 by (simp add: encoded_len_def)
    ultimately show ?thesis
      by (simp only: append_Cons decode_8 [OF tag] byte_of_u64 join_byte arith_simps)
        (simp only: join_top [OF v] take_bit_tags)
  qed
qed

section \<open>What \<open>decode\<close> returns on any buffer\<close>

text \<open>The number of bytes the tag of the first byte announces.\<close>

definition announced_len :: "u8 \<Rightarrow> nat" where
  "announced_len b = 2 ^ unat (drop_bit 6 b)"

lemma tag_cases: "drop_bit 6 b = 0 \<or> drop_bit 6 b = 1 \<or> drop_bit 6 b = 2 \<or> drop_bit 6 b = (3 :: u8)"
proof (rule word_cases4)
  have "drop_bit 6 b < 2 ^ 2"
    by (rule less_by_bits) (use bit_imp_le_length [of b] in \<open>fastforce simp: bit_simps\<close>)+
  then show "drop_bit 6 b < 4" by simp
qed

lemma announced_len_cases:
  "announced_len b = 1 \<and> drop_bit 6 b = 0 \<or> announced_len b = 2 \<and> drop_bit 6 b = 1 \<or>
   announced_len b = 4 \<and> drop_bit 6 b = 2 \<or> announced_len b = 8 \<and> drop_bit 6 b = 3"
  using tag_cases [of b] by (auto simp: announced_len_def)

lemma decode_Nil: "decode [] = Error (BufferTooShort 1 0)"
  by (simp add: decode_def)

lemma decode_short:
  assumes "length (b # r) < announced_len b"
  shows "decode (b # r) = Error (BufferTooShort (announced_len b) (length (b # r)))"
  using announced_len_cases [of b] assms by (auto simp: decode_def)

lemma decode_long:
  assumes "announced_len b \<le> length (b # r)"
  shows "\<exists>v. decode (b # r) = Ok (v, announced_len b) \<and> v < 2 ^ (8 * announced_len b - 2)"
proof -
  note hi = less_by_bits bit_imp_le_length
  consider "announced_len b = 1" "drop_bit 6 b = 0" | "announced_len b = 2" "drop_bit 6 b = 1"
    | "announced_len b = 4" "drop_bit 6 b = 2" | "announced_len b = 8" "drop_bit 6 b = 3"
    using announced_len_cases [of b] by blast
  then show ?thesis
  proof cases
    case 1
    have "\<not> bit b n" if "6 \<le> n" for n
      using arg_cong [OF 1(2), of "\<lambda>w. bit w (n - 6)"] that by (simp add: bit_simps)
    then have "(ucast b :: u64) < 2 ^ 6"
      by (intro less_by_bits) (auto simp: bit_simps)
    with 1 show ?thesis by (simp add: decode_1)
  next
    case 2
    with assms long_list_2 [of "b # r"] obtain b1 r' where r: "r = b1 # r'" by auto
    have "push_bit 8 (ucast b AND 0x3f) OR ucast b1 < (2 :: u64) ^ 14"
      by (rule less_by_bits) (auto simp: bit_simps bit_int_63 simp del: push_bit_and dest: bit_imp_le_length)
    with 2 show ?thesis by (simp add: decode_2 r)
  next
    case 3
    with assms long_list_4 [of "b # r"] obtain b1 b2 b3 r' where r: "r = b1 # b2 # b3 # r'" by auto
    have "push_bit 24 (ucast b AND 0x3f) OR push_bit 16 (ucast b1) OR push_bit 8 (ucast b2) OR
        ucast b3 < (2 :: u64) ^ 30"
      by (rule less_by_bits) (auto simp: bit_simps bit_int_63 simp del: push_bit_and dest: bit_imp_le_length)
    with 3 show ?thesis by (simp add: decode_4 r)
  next
    case 4
    with assms long_list_8 [of "b # r"] obtain b1 b2 b3 b4 b5 b6 b7 r'
      where r: "r = b1 # b2 # b3 # b4 # b5 # b6 # b7 # r'" by auto
    have "push_bit 56 (ucast b AND 0x3f) OR push_bit 48 (ucast b1) OR push_bit 40 (ucast b2) OR
        push_bit 32 (ucast b3) OR push_bit 24 (ucast b4) OR push_bit 16 (ucast b5) OR
        push_bit 8 (ucast b6) OR ucast b7 < (2 :: u64) ^ 62"
      by (rule less_by_bits) (auto simp: bit_simps bit_int_63 simp del: push_bit_and dest: bit_imp_le_length)
    with 4 show ?thesis by (simp add: decode_8 r)
  qed
qed

lemma encoded_len_mono_bits:
  "v < 2 ^ (8 * announced_len b - 2) \<Longrightarrow> encoded_len v \<le> announced_len b" for v :: u64
  using announced_len_cases [of b]
  by (auto simp: encoded_len_def word_less_nat_alt word_le_nat_alt)

lemma decode_okD:
  assumes "decode buf = Ok (v, n)"
  obtains b r where "buf = b # r" and "n = announced_len b" and "n \<le> length buf"
    and "v < 2 ^ (8 * n - 2)"
proof (cases buf)
  case Nil
  with assms show thesis by (simp add: decode_Nil)
next
  case (Cons b r)
  with assms decode_short [of b r] have "announced_len b \<le> length (b # r)"
    by (cases "length (b # r) < announced_len b") auto
  from decode_long [OF this] that assms Cons \<open>announced_len b \<le> length (b # r)\<close> show thesis
    by auto
qed

lemma decode_ok_bounds:
  assumes "decode buf = Ok (v, n)"
  shows "0 < n" and "n \<le> 8" and "n \<le> length buf" and "v \<le> VARINT_MAX" and "encoded_len v \<le> n"
proof -
  obtain b r where b: "n = announced_len b" "n \<le> length buf" "v < 2 ^ (8 * n - 2)"
    using assms by (rule decode_okD)
  show "0 < n" "n \<le> 8" using announced_len_cases [of b] b(1) by auto
  show "n \<le> length buf" by (rule b(2))
  show "encoded_len v \<le> n" using encoded_len_mono_bits [of v b] b by simp
  show "v \<le> VARINT_MAX"
    using announced_len_cases [of b] b(1,3)
    by (auto simp: VARINT_MAX_less word_less_nat_alt)
qed

text \<open>The result depends only on the bytes consumed.\<close>

lemma decode_prefix:
  assumes "decode buf = Ok (v, n)"
  shows "decode (take n buf @ rest) = Ok (v, n)"
proof -
  obtain b r where b: "buf = b # r" "n = announced_len b" "n \<le> length buf"
    using assms by (rule decode_okD)
  consider "announced_len b = 1" "drop_bit 6 b = 0" | "announced_len b = 2" "drop_bit 6 b = 1"
    | "announced_len b = 4" "drop_bit 6 b = 2" | "announced_len b = 8" "drop_bit 6 b = 3"
    using announced_len_cases [of b] by blast
  then show ?thesis
  proof cases
    case 1
    with b assms show ?thesis by (simp add: decode_1)
  next
    case 2
    with b long_list_2 [of buf] assms show ?thesis by (auto simp: decode_2)
  next
    case 3
    with b long_list_4 [of buf] assms show ?thesis by (auto simp: decode_4)
  next
    case 4
    with b long_list_8 [of buf] assms show ?thesis by (auto simp: decode_8)
  qed
qed

lemma decode_not_panic: "decode buf \<noteq> Panics"
proof (cases buf)
  case (Cons b r)
  then show ?thesis
    using decode_short [of b r] decode_long [of b r] by (cases "length buf < announced_len b") auto
qed (simp add: decode_Nil)

lemma decode_error:
  assumes "decode buf = Error e"
  shows "\<exists>need. e = BufferTooShort need (length buf) \<and> length buf < need \<and> need \<le> 8"
proof (cases buf)
  case (Cons b r)
  then show ?thesis
    using decode_short [of b r] decode_long [of b r] assms announced_len_cases [of b]
    by (cases "length buf < announced_len b") auto
next
  case Nil
  with assms have "e = BufferTooShort 1 0" by (simp add: decode_Nil)
  with Nil show ?thesis by (intro exI [of _ 1]) simp
qed

section \<open>Properties\<close>

text \<open>
  C17: a value up to \<open>VARINT_MAX\<close> written by \<open>encode\<close> into a buffer with room for it is read back
  by \<open>decode\<close> from that buffer, with the same length; the bytes behind it are untouched.
\<close>

theorem varint_encode_decode:
  assumes "v \<le> VARINT_MAX" and "encoded_len v \<le> length buf"
  shows "\<exists>buf'. encode v buf = (Ok (encoded_len v), buf') \<and> length buf' = length buf \<and>
      drop (encoded_len v) buf' = drop (encoded_len v) buf \<and> decode buf' = Ok (v, encoded_len v)"
  using assms by (simp add: encode_eq decode_varint_bytes)

theorem varint_encode_decode_witness:
  "(15293 :: u64) \<le> VARINT_MAX \<and>
   (\<exists>buf'. encode 15293 [0, 0, 7] = (Ok (encoded_len 15293), buf') \<and>
      decode buf' = Ok (15293, encoded_len 15293))"
proof -
  have v: "(15293 :: u64) \<le> VARINT_MAX" "encoded_len 15293 \<le> length [0, 0, 7 :: u8]"
    by (simp_all add: VARINT_MAX_eq encoded_len_def)
  from varint_encode_decode [OF v] v show ?thesis by blast
qed

text \<open>
  C18: \<open>encode\<close> fails exactly on a value above \<open>VARINT_MAX\<close> or a buffer with no room for it, with the
  error that says so, and leaves the buffer as it was; it never panics.
\<close>

theorem varint_encode_errors:
  "(case encode v buf of
      (Inl Panic, buf') \<Rightarrow> False
    | (Inl (Err (ValueTooLarge w)), buf') \<Rightarrow> w = v \<and> VARINT_MAX < v \<and> buf' = buf
    | (Inl (Err (BufferTooShort n a)), buf') \<Rightarrow>
        v \<le> VARINT_MAX \<and> n = encoded_len v \<and> a = length buf \<and> a < n \<and> buf' = buf
    | (Inr n, buf') \<Rightarrow> v \<le> VARINT_MAX \<and> n = encoded_len v \<and> n \<le> length buf)"
proof -
  consider "VARINT_MAX < v" | "v \<le> VARINT_MAX" "length buf < encoded_len v"
    | "v \<le> VARINT_MAX" "encoded_len v \<le> length buf"
    by (meson not_le)
  then show ?thesis
    by cases (simp_all add: encode_too_large encode_too_short encode_eq)
qed

text \<open>
  C19: \<open>decode\<close> on any bytes: it never panics; a value it returns fits in 62 bits, was read from 1, 2,
  4 or 8 bytes that the buffer has, and has no encoding shorter than \<open>encoded_len\<close>; the only error
  is a buffer shorter than the length its first byte announces.
\<close>

theorem varint_decode_total:
  "(case decode buf of
      Inl Panic \<Rightarrow> False
    | Inl (Err (ValueTooLarge w)) \<Rightarrow> False
    | Inl (Err (BufferTooShort n a)) \<Rightarrow> a = length buf \<and> a < n \<and> n \<le> 8
    | Inr (v, n) \<Rightarrow> v \<le> VARINT_MAX \<and> n \<in> {1, 2, 4, 8} \<and> n \<le> length buf \<and> encoded_len v \<le> n)"
proof (cases "decode buf")
  case (Inl e)
  then show ?thesis
    using decode_error [of buf] decode_not_panic [of buf] by (cases e) auto
next
  case (Inr p)
  obtain v n where p: "p = (v, n)" by (cases p)
  with Inr have d: "decode buf = Ok (v, n)" by simp
  then obtain b where "n = announced_len b" by (rule decode_okD)
  then have "n \<in> {1, 2, 4, 8}" using announced_len_cases [of b] by auto
  with Inr p decode_ok_bounds [OF d] show ?thesis by simp
qed

end
