(* ===== verification/Frame.thy ===== *)
theory Frame
  imports VarInt
begin

text \<open>
  \<open>src/frame.rs\<close>: the QUIC frames, their parser and their writer. The datatype \<open>frame\<close> has the
  source's variants; \<open>parse_frame\<close> and \<open>write_frame\<close> follow the source arm by arm, with the larger
  arms (ACK, STREAM, NEW_CONNECTION_ID, CONNECTION_CLOSE) as definitions of their own. The proofs
  about them are in the theories \<open>Frame_Wire\<close> and \<open>Frame_Parse\<close>.
\<close>

section \<open>Frame types\<close>

definition FRAME_PADDING :: u8 where [simp]: "FRAME_PADDING = 0x00"
definition FRAME_PING :: u8 where [simp]: "FRAME_PING = 0x01"
definition FRAME_ACK_BASE :: u8 where [simp]: "FRAME_ACK_BASE = 0x02"
definition FRAME_RESET_STREAM :: u8 where [simp]: "FRAME_RESET_STREAM = 0x04"
definition FRAME_STOP_SENDING :: u8 where [simp]: "FRAME_STOP_SENDING = 0x05"
definition FRAME_CRYPTO :: u8 where [simp]: "FRAME_CRYPTO = 0x06"
definition FRAME_NEW_TOKEN :: u8 where [simp]: "FRAME_NEW_TOKEN = 0x07"
definition FRAME_STREAM_BASE :: u8 where [simp]: "FRAME_STREAM_BASE = 0x08"
definition FRAME_MAX_DATA :: u8 where [simp]: "FRAME_MAX_DATA = 0x10"
definition FRAME_MAX_STREAM_DATA :: u8 where [simp]: "FRAME_MAX_STREAM_DATA = 0x11"
definition FRAME_MAX_STREAMS_BIDI :: u8 where [simp]: "FRAME_MAX_STREAMS_BIDI = 0x12"
definition FRAME_MAX_STREAMS_UNI :: u8 where [simp]: "FRAME_MAX_STREAMS_UNI = 0x13"
definition FRAME_DATA_BLOCKED :: u8 where [simp]: "FRAME_DATA_BLOCKED = 0x14"
definition FRAME_STREAM_DATA_BLOCKED :: u8 where [simp]: "FRAME_STREAM_DATA_BLOCKED = 0x15"
definition FRAME_STREAMS_BLOCKED_BIDI :: u8 where [simp]: "FRAME_STREAMS_BLOCKED_BIDI = 0x16"
definition FRAME_STREAMS_BLOCKED_UNI :: u8 where [simp]: "FRAME_STREAMS_BLOCKED_UNI = 0x17"
definition FRAME_NEW_CONNECTION_ID :: u8 where [simp]: "FRAME_NEW_CONNECTION_ID = 0x18"
definition FRAME_RETIRE_CONNECTION_ID :: u8 where [simp]: "FRAME_RETIRE_CONNECTION_ID = 0x19"
definition FRAME_PATH_CHALLENGE :: u8 where [simp]: "FRAME_PATH_CHALLENGE = 0x1a"
definition FRAME_PATH_RESPONSE :: u8 where [simp]: "FRAME_PATH_RESPONSE = 0x1b"
definition FRAME_CONNECTION_CLOSE_QUIC :: u8 where [simp]: "FRAME_CONNECTION_CLOSE_QUIC = 0x1c"
definition FRAME_CONNECTION_CLOSE_APP :: u8 where [simp]: "FRAME_CONNECTION_CLOSE_APP = 0x1d"
definition FRAME_HANDSHAKE_DONE :: u8 where [simp]: "FRAME_HANDSHAKE_DONE = 0x1e"
definition STREAM_OFF_BIT :: u8 where [simp]: "STREAM_OFF_BIT = 0x04"
definition STREAM_LEN_BIT :: u8 where [simp]: "STREAM_LEN_BIT = 0x02"
definition STREAM_FIN_BIT :: u8 where [simp]: "STREAM_FIN_BIT = 0x01"

section \<open>Errors, sub-types and frames\<close>

text \<open>\<open>FrameVarInt\<close> is \<open>FrameError::VarInt\<close>, the others keep their names.\<close>

datatype frame_error =
    UnknownType u64
  | NonMinimalType u64
  | FrameVarInt varint_error
  | Underflow u64 nat
  | InvalidStream
  | InvalidPathData
  | InvalidCidLength u8

record ack_range =
  ar_gap :: varint
  ar_range :: varint

record ecn_counts =
  ect0 :: varint
  ect1 :: varint
  ecn_ce :: varint

datatype connection_id = ConnectionId (cid_bytes: bytes)

definition connection_id_new :: "bytes \<Rightarrow> (connection_id, frame_error) result" where
  "connection_id_new b =
     (if length b > 20 then Error (InvalidCidLength (of_nat (length b))) else Ok (ConnectionId b))"

text \<open>The arrays \<open>[u8; 16]\<close> and \<open>[u8; 8]\<close> are byte lists; \<open>frame_typed\<close> states their lengths.\<close>

datatype frame =
    Padding
  | Ping
  | Ack varint varint "ack_range list" "ecn_counts option"
  | ResetStream varint varint varint
  | StopSending varint varint
  | Crypto varint bytes
  | NewToken bytes
  | Stream varint varint bytes bool
  | MaxData varint
  | MaxStreamData varint varint
  | MaxStreams bool varint
  | DataBlocked varint
  | StreamDataBlocked varint varint
  | StreamsBlocked bool varint
  | NewConnectionId varint varint connection_id bytes
  | RetireConnectionId varint
  | PathChallenge bytes
  | PathResponse bytes
  | ConnectionClose varint "varint option" bytes
  | HandshakeDone

fun frame_typed :: "frame \<Rightarrow> bool" where
  "frame_typed (NewConnectionId s r c t) = (length t = 16)"
| "frame_typed (PathChallenge d) = (length d = 8)"
| "frame_typed (PathResponse d) = (length d = 8)"
| "frame_typed f = True"

section \<open>Reading\<close>

text \<open>A reader takes the unread bytes \<open>&mut &[u8]\<close> and returns the value and what is left.\<close>

definition read_u8 :: "bytes \<Rightarrow> (u8 \<times> bytes, frame_error) result" where
  "read_u8 buf = (case buf of [] \<Rightarrow> Error (Underflow 0 1) | v # r \<Rightarrow> Ok (v, r))"

definition read_varint :: "bytes \<Rightarrow> (varint \<times> bytes, frame_error) result" where
  "read_varint buf =
     andthen (map_err FrameVarInt (decode buf)) (\<lambda>(v, n).
     andthen (slice_from buf n) (\<lambda>r. Ok (v, r)))"

definition read_bytes :: "nat \<Rightarrow> bytes \<Rightarrow> (bytes \<times> bytes, frame_error) result" where
  "read_bytes n buf =
     (if length buf < n then Error (Underflow 0 n) else Ok (take n buf, drop n buf))"

text \<open>\<open>read_exact\<close> fills an array of \<open>n\<close> bytes.\<close>

definition read_exact :: "nat \<Rightarrow> bytes \<Rightarrow> (bytes \<times> bytes, frame_error) result" where
  "read_exact n buf =
     (if length buf < n then Error (Underflow 0 n) else Ok (take n buf, drop n buf))"

definition read_varint_bytes :: "bytes \<Rightarrow> (bytes \<times> bytes, frame_error) result" where
  "read_varint_bytes buf = andthen (read_varint buf) (\<lambda>(len, buf). read_bytes (unat len) buf)"

subsection \<open>The arms of the parser\<close>

primrec read_ack_ranges :: "nat \<Rightarrow> bytes \<Rightarrow> (ack_range list \<times> bytes, frame_error) result" where
  "read_ack_ranges 0 buf = Ok ([], buf)"
| "read_ack_ranges (Suc n) buf =
     andthen (read_varint buf) (\<lambda>(gap, buf).
     andthen (read_varint buf) (\<lambda>(rng, buf).
     andthen (read_ack_ranges n buf) (\<lambda>(rs, buf).
     Ok (\<lparr>ar_gap = gap, ar_range = rng\<rparr> # rs, buf))))"

text \<open>An \<open>AckRange\<close> takes 16 bytes, which is what \<open>Vec::with_capacity\<close> multiplies.\<close>

definition parse_ack :: "u64 \<Rightarrow> bytes \<Rightarrow> (frame \<times> bytes, frame_error) result" where
  "parse_ack frame_type buf =
     (let ecn = (frame_type AND 0x01 \<noteq> 0) in
     andthen (read_varint buf) (\<lambda>(largest_ack, buf).
     andthen (read_varint buf) (\<lambda>(ack_delay, buf).
     andthen (read_varint buf) (\<lambda>(range_count, buf).
     andthen (read_varint buf) (\<lambda>(first_range, buf).
     andthen (with_capacity 16 (unat range_count + 1)) (\<lambda>_.
     andthen (read_ack_ranges (unat range_count) buf) (\<lambda>(rs, buf).
     let ranges = \<lparr>ar_gap = 0, ar_range = first_range\<rparr> # rs in
     if ecn then
       andthen (read_varint buf) (\<lambda>(e0, buf).
       andthen (read_varint buf) (\<lambda>(e1, buf).
       andthen (read_varint buf) (\<lambda>(ce, buf).
       Ok (Ack largest_ack ack_delay ranges (Some \<lparr>ect0 = e0, ect1 = e1, ecn_ce = ce\<rparr>), buf))))
     else Ok (Ack largest_ack ack_delay ranges None, buf))))))))"

definition parse_stream :: "u8 \<Rightarrow> bytes \<Rightarrow> (frame \<times> bytes, frame_error) result" where
  "parse_stream t buf =
     (let off = (t AND STREAM_OFF_BIT \<noteq> 0);
          len = (t AND STREAM_LEN_BIT \<noteq> 0);
          fin = (t AND STREAM_FIN_BIT \<noteq> 0) in
     andthen (read_varint buf) (\<lambda>(stream_id, buf).
     andthen (if off then read_varint buf else Ok (0, buf)) (\<lambda>(offset, buf).
     andthen (if len then read_varint_bytes buf else Ok (buf, [])) (\<lambda>(data, buf).
     Ok (Stream stream_id offset data fin, buf)))))"

definition parse_new_connection_id :: "bytes \<Rightarrow> (frame \<times> bytes, frame_error) result" where
  "parse_new_connection_id buf =
     andthen (read_varint buf) (\<lambda>(sequence, buf).
     andthen (read_varint buf) (\<lambda>(retire_prior_to, buf).
     andthen (read_u8 buf) (\<lambda>(cid_len, buf).
     if \<not> (1 \<le> cid_len \<and> cid_len \<le> 20) then Error (InvalidCidLength cid_len)
     else
       andthen (read_bytes (unat cid_len) buf) (\<lambda>(cid_bs, buf).
       andthen (connection_id_new cid_bs) (\<lambda>cid.
       andthen (read_exact 16 buf) (\<lambda>(reset_token, buf).
       Ok (NewConnectionId sequence retire_prior_to cid reset_token, buf)))))))"

definition parse_connection_close :: "u8 \<Rightarrow> bytes \<Rightarrow> (frame \<times> bytes, frame_error) result" where
  "parse_connection_close ft buf =
     (let is_app = (ft = FRAME_CONNECTION_CLOSE_APP) in
     andthen (read_varint buf) (\<lambda>(error_code, buf).
     andthen (if \<not> is_app
              then andthen (read_varint buf) (\<lambda>(t, buf). Ok (Some t, buf))
              else Ok (None, buf)) (\<lambda>(frame_type, buf).
     andthen (read_varint_bytes buf) (\<lambda>(reason, buf).
     Ok (ConnectionClose error_code frame_type reason, buf)))))"

text \<open>Frames made of one, two or three integers.\<close>

definition parse_1 :: "(varint \<Rightarrow> frame) \<Rightarrow> bytes \<Rightarrow> (frame \<times> bytes, frame_error) result" where
  "parse_1 mk buf = andthen (read_varint buf) (\<lambda>(a, buf). Ok (mk a, buf))"

definition parse_2 ::
  "(varint \<Rightarrow> varint \<Rightarrow> frame) \<Rightarrow> bytes \<Rightarrow> (frame \<times> bytes, frame_error) result" where
  "parse_2 mk buf = andthen (read_varint buf) (\<lambda>(a, buf). parse_1 (mk a) buf)"

definition parse_3 ::
  "(varint \<Rightarrow> varint \<Rightarrow> varint \<Rightarrow> frame) \<Rightarrow> bytes \<Rightarrow> (frame \<times> bytes, frame_error) result" where
  "parse_3 mk buf = andthen (read_varint buf) (\<lambda>(a, buf). parse_2 (mk a) buf)"

text \<open>The \<open>match ft\<close> of \<open>parse_frame\<close>, on the bytes behind the type byte.\<close>

definition parse_body :: "u8 \<Rightarrow> u64 \<Rightarrow> bytes \<Rightarrow> (frame \<times> bytes, frame_error) result" where
  "parse_body ft frame_type buf =
     (if ft = FRAME_PADDING then Ok (Padding, buf)
      else if ft = FRAME_PING then Ok (Ping, buf)
      else if ft = 0x02 \<or> ft = 0x03 then parse_ack frame_type buf
      else if ft = FRAME_RESET_STREAM then parse_3 ResetStream buf
      else if ft = FRAME_STOP_SENDING then parse_2 StopSending buf
      else if ft = FRAME_CRYPTO then
        andthen (read_varint buf) (\<lambda>(offset, buf).
        andthen (read_varint_bytes buf) (\<lambda>(data, buf). Ok (Crypto offset data, buf)))
      else if ft = FRAME_NEW_TOKEN then
        andthen (read_varint_bytes buf) (\<lambda>(token, buf). Ok (NewToken token, buf))
      else if 0x08 \<le> ft \<and> ft \<le> 0x0f then parse_stream ft buf
      else if ft = FRAME_MAX_DATA then parse_1 MaxData buf
      else if ft = FRAME_MAX_STREAM_DATA then parse_2 MaxStreamData buf
      else if ft = FRAME_MAX_STREAMS_BIDI \<or> ft = FRAME_MAX_STREAMS_UNI then
        parse_1 (MaxStreams (ft = FRAME_MAX_STREAMS_BIDI)) buf
      else if ft = FRAME_DATA_BLOCKED then parse_1 DataBlocked buf
      else if ft = FRAME_STREAM_DATA_BLOCKED then parse_2 StreamDataBlocked buf
      else if ft = FRAME_STREAMS_BLOCKED_BIDI \<or> ft = FRAME_STREAMS_BLOCKED_UNI then
        parse_1 (StreamsBlocked (ft = FRAME_STREAMS_BLOCKED_BIDI)) buf
      else if ft = FRAME_NEW_CONNECTION_ID then parse_new_connection_id buf
      else if ft = FRAME_RETIRE_CONNECTION_ID then parse_1 RetireConnectionId buf
      else if ft = FRAME_PATH_CHALLENGE then
        andthen (read_exact 8 buf) (\<lambda>(data, buf). Ok (PathChallenge data, buf))
      else if ft = FRAME_PATH_RESPONSE then
        andthen (read_exact 8 buf) (\<lambda>(data, buf). Ok (PathResponse data, buf))
      else if ft = 0x1c \<or> ft = 0x1d then parse_connection_close ft buf
      else if ft = FRAME_HANDSHAKE_DONE then Ok (HandshakeDone, buf)
      else Error (UnknownType frame_type))"

definition parse_frame :: "bytes \<Rightarrow> (frame \<times> nat, frame_error) result" where
  "parse_frame buf =
     andthen (map_err FrameVarInt (decode buf)) (\<lambda>(frame_type, _).
     if frame_type \<le> 63 \<and> encoded_len frame_type \<noteq> 1 then Error (NonMinimalType frame_type)
     else
       andthen (slice_from buf 1) (\<lambda>body.
       andthen (parse_body (ucast frame_type) frame_type body) (\<lambda>(frame, rest).
       Ok (frame, length buf - length rest))))"

section \<open>Writing\<close>

text \<open>
  The buffer of a writer is a \<open>Vec<u8>\<close>, the only \<open>BufMut\<close> the code uses: \<open>put_u8\<close> and \<open>put_slice\<close>
  append. An error leaves what was written before it.
\<close>

definition put_u8 :: "u8 \<Rightarrow> (bytes, unit, frame_error) act" where
  "put_u8 b buf = (Ok (), buf @ [b])"

definition put_slice :: "bytes \<Rightarrow> (bytes, unit, frame_error) act" where
  "put_slice bs buf = (Ok (), buf @ bs)"

definition put_frame_varint :: "varint \<Rightarrow> (bytes, unit, frame_error) act" where
  "put_frame_varint v buf = (case put_varint v buf of (r, buf') \<Rightarrow> (map_err FrameVarInt r, buf'))"

definition put_varint_bytes :: "bytes \<Rightarrow> (bytes, unit, frame_error) act" where
  "put_varint_bytes data = seqA (put_frame_varint (of_nat (length data))) (\<lambda>_. put_slice data)"

fun put_ack_ranges :: "ack_range list \<Rightarrow> (bytes, unit, frame_error) act" where
  "put_ack_ranges [] = returnA ()"
| "put_ack_ranges (r # rs) =
     seqA (put_frame_varint (ar_gap r)) (\<lambda>_.
     seqA (put_frame_varint (ar_range r)) (\<lambda>_. put_ack_ranges rs))"

definition write_ack ::
  "varint \<Rightarrow> varint \<Rightarrow> ack_range list \<Rightarrow> ecn_counts option \<Rightarrow> (bytes, unit, frame_error) act" where
  "write_ack largest_ack ack_delay ranges ecn =
     (let ft = (if ecn \<noteq> None then FRAME_ACK_BASE OR 0x01 else FRAME_ACK_BASE);
          range_count = length ranges - 1 in
     seqA (put_u8 ft) (\<lambda>_.
     seqA (put_frame_varint largest_ack) (\<lambda>_.
     seqA (put_frame_varint ack_delay) (\<lambda>_.
     seqA (put_frame_varint (of_nat range_count)) (\<lambda>_.
     seqA (put_frame_varint (case ranges of [] \<Rightarrow> 0 | r # _ \<Rightarrow> ar_range r)) (\<lambda>_.
     seqA (liftA (slice_from ranges 1)) (\<lambda>rs.
     seqA (put_ack_ranges rs) (\<lambda>_.
     case ecn of
       None \<Rightarrow> returnA ()
     | Some e \<Rightarrow>
         seqA (put_frame_varint (ect0 e)) (\<lambda>_.
         seqA (put_frame_varint (ect1 e)) (\<lambda>_.
         put_frame_varint (ecn_ce e)))))))))))"

definition write_stream ::
  "varint \<Rightarrow> varint \<Rightarrow> bytes \<Rightarrow> bool \<Rightarrow> (bytes, unit, frame_error) act" where
  "write_stream stream_id offset data fin =
     (let ft = FRAME_STREAM_BASE;
          ft = (if fin then ft OR STREAM_FIN_BIT else ft);
          ft = (if offset > 0 then ft OR STREAM_OFF_BIT else ft);
          ft = (if data \<noteq> [] then ft OR STREAM_LEN_BIT else ft) in
     seqA (put_u8 ft) (\<lambda>_.
     seqA (put_frame_varint stream_id) (\<lambda>_.
     seqA (if offset > 0 then put_frame_varint offset else returnA ()) (\<lambda>_.
     seqA (if data \<noteq> [] then put_frame_varint (of_nat (length data)) else returnA ()) (\<lambda>_.
     put_slice data)))))"

definition write_connection_close ::
  "varint \<Rightarrow> varint option \<Rightarrow> bytes \<Rightarrow> (bytes, unit, frame_error) act" where
  "write_connection_close error_code frame_type reason =
     (let ft = (if frame_type \<noteq> None then FRAME_CONNECTION_CLOSE_QUIC
                else FRAME_CONNECTION_CLOSE_APP) in
     seqA (put_u8 ft) (\<lambda>_.
     seqA (put_frame_varint error_code) (\<lambda>_.
     seqA (case frame_type of Some t \<Rightarrow> put_frame_varint t | None \<Rightarrow> returnA ()) (\<lambda>_.
     put_varint_bytes reason))))"

definition write_1 :: "u8 \<Rightarrow> varint \<Rightarrow> (bytes, unit, frame_error) act" where
  "write_1 ft a = seqA (put_u8 ft) (\<lambda>_. put_frame_varint a)"

definition write_2 :: "u8 \<Rightarrow> varint \<Rightarrow> varint \<Rightarrow> (bytes, unit, frame_error) act" where
  "write_2 ft a b = seqA (write_1 ft a) (\<lambda>_. put_frame_varint b)"

definition write_3 :: "u8 \<Rightarrow> varint \<Rightarrow> varint \<Rightarrow> varint \<Rightarrow> (bytes, unit, frame_error) act" where
  "write_3 ft a b c = seqA (write_2 ft a b) (\<lambda>_. put_frame_varint c)"

text \<open>The \<open>match frame\<close> of \<open>write_frame\<close>.\<close>

fun write_body :: "frame \<Rightarrow> (bytes, unit, frame_error) act" where
  "write_body Padding = put_u8 FRAME_PADDING"
| "write_body Ping = put_u8 FRAME_PING"
| "write_body (Ack largest_ack ack_delay ranges ecn) = write_ack largest_ack ack_delay ranges ecn"
| "write_body (ResetStream stream_id error_code final_size) =
     write_3 FRAME_RESET_STREAM stream_id error_code final_size"
| "write_body (StopSending stream_id error_code) = write_2 FRAME_STOP_SENDING stream_id error_code"
| "write_body (Crypto offset data) =
     seqA (write_1 FRAME_CRYPTO offset) (\<lambda>_. put_varint_bytes data)"
| "write_body (NewToken token) = seqA (put_u8 FRAME_NEW_TOKEN) (\<lambda>_. put_varint_bytes token)"
| "write_body (Stream stream_id offset data fin) = write_stream stream_id offset data fin"
| "write_body (MaxData maximum) = write_1 FRAME_MAX_DATA maximum"
| "write_body (MaxStreamData stream_id maximum) = write_2 FRAME_MAX_STREAM_DATA stream_id maximum"
| "write_body (MaxStreams bidi maximum) =
     write_1 (if bidi then FRAME_MAX_STREAMS_BIDI else FRAME_MAX_STREAMS_UNI) maximum"
| "write_body (DataBlocked limit) = write_1 FRAME_DATA_BLOCKED limit"
| "write_body (StreamDataBlocked stream_id limit) = write_2 FRAME_STREAM_DATA_BLOCKED stream_id limit"
| "write_body (StreamsBlocked bidi limit) =
     write_1 (if bidi then FRAME_STREAMS_BLOCKED_BIDI else FRAME_STREAMS_BLOCKED_UNI) limit"
| "write_body (NewConnectionId sequence retire_prior_to cid reset_token) =
     seqA (write_2 FRAME_NEW_CONNECTION_ID sequence retire_prior_to) (\<lambda>_.
     seqA (put_u8 (of_nat (length (cid_bytes cid)))) (\<lambda>_.
     seqA (put_slice (cid_bytes cid)) (\<lambda>_. put_slice reset_token)))"
| "write_body (RetireConnectionId sequence) = write_1 FRAME_RETIRE_CONNECTION_ID sequence"
| "write_body (PathChallenge data) = seqA (put_u8 FRAME_PATH_CHALLENGE) (\<lambda>_. put_slice data)"
| "write_body (PathResponse data) = seqA (put_u8 FRAME_PATH_RESPONSE) (\<lambda>_. put_slice data)"
| "write_body (ConnectionClose error_code frame_type reason) =
     write_connection_close error_code frame_type reason"
| "write_body HandshakeDone = put_u8 FRAME_HANDSHAKE_DONE"

text \<open>
  \<open>remaining_mut\<close> of a \<open>Vec\<close> is \<open>isize::MAX\<close> less its length, so that the difference the source
  returns is the growth of the buffer.
\<close>

definition write_frame :: "frame \<Rightarrow> (bytes, nat, frame_error) act" where
  "write_frame f buf = (case write_body f buf of
       (Inl e, buf') \<Rightarrow> (Inl e, buf')
     | (Inr _, buf') \<Rightarrow> (Ok (length buf' - length buf), buf'))"

end
