(* ===== verification/Codec.thy ===== *)
theory Codec
  imports Prelude
begin

text \<open>
  The interface between a wire format and its users. A \<open>codec\<close> is a writer (the bytes of a value)
  and a reader (a value and the bytes left over) that agree on the values \<open>ok\<close> accepts. Its users
  need three consequences, proved here once: the format is prefix-free, a counted sequence of items
  reads back (the ranges of an ACK frame), and a sequence of items up to the end of the buffer reads
  back (the frames of a packet payload).

  The locales are interpreted on the code's own formats: variable-length integers, length-prefixed
  byte strings, ACK ranges and frames.
\<close>

locale codec =
  fixes enc :: "'a \<Rightarrow> bytes"
    and dec :: "bytes \<Rightarrow> ('a \<times> bytes, 'e) result"
    and ok :: "'a \<Rightarrow> bool"
  assumes dec_enc: "ok x \<Longrightarrow> dec (enc x @ rest) = Ok (x, rest)"
    and dec_consumes: "dec bs = Ok (x, rest) \<Longrightarrow> \<exists>p. p \<noteq> [] \<and> bs = p @ rest"
begin

lemma dec_shorter: "dec bs = Ok (x, rest) \<Longrightarrow> length rest < length bs"
  using dec_consumes by fastforce

lemma enc_not_Nil: "ok x \<Longrightarrow> enc x \<noteq> []"
  using dec_enc [of x "[]"] dec_consumes [of "enc x" x "[]"] by auto

lemma prefix_free:
  assumes "ok x" and "ok y" and "enc x @ r = enc y @ s"
  shows "x = y \<and> r = s"
proof -
  have "Ok (x, r) = dec (enc y @ s)"
    using assms(1,3) by (simp add: dec_enc flip: assms(3))
  also have "\<dots> = Ok (y, s)"
    using assms(2) by (rule dec_enc)
  finally show ?thesis by simp
qed

end

text \<open>A counted loop over a reader: \<open>for _ in 0..n { items.push(read(&mut buf)?) }\<close>.\<close>

locale counted_codec = codec +
  fixes loop :: "nat \<Rightarrow> bytes \<Rightarrow> ('a list \<times> bytes, 'e) result"
  assumes loop_0: "loop 0 bs = Ok ([], bs)"
    and loop_Suc: "loop (Suc n) bs =
      andthen (dec bs) (\<lambda>(x, bs). andthen (loop n bs) (\<lambda>(xs, bs). Ok (x # xs, bs)))"
begin

lemma loop_enc:
  "list_all ok xs \<Longrightarrow> loop (length xs) (concat (map enc xs) @ rest) = Ok (xs, rest)"
proof (induction xs)
  case Nil
  then show ?case by (simp add: loop_0)
next
  case (Cons x xs)
  then show ?case by (simp add: loop_Suc dec_enc)
qed

lemma loop_length: "loop n bs = Ok (xs, rest) \<Longrightarrow> length xs = n"
proof (induction n arbitrary: bs xs)
  case 0
  then show ?case by (simp add: loop_0)
next
  case (Suc n)
  then show ?case by (auto simp: loop_Suc result_dest)
qed

lemma loop_suffix: "loop n bs = Ok (xs, rest) \<Longrightarrow> \<exists>p. bs = p @ rest \<and> n \<le> length p"
proof (induction n arbitrary: bs xs)
  case 0
  then show ?case by (auto simp: loop_0)
next
  case (Suc n)
  then obtain x bs' ys where x: "dec bs = Ok (x, bs')" and ys: "loop n bs' = Ok (ys, rest)"
    by (auto simp: loop_Suc result_dest)
  from dec_consumes [OF x] obtain p where p: "p \<noteq> []" "bs = p @ bs'" by blast
  from Suc.IH [OF ys] obtain q where q: "bs' = q @ rest" "n \<le> length q" by blast
  from p have "Suc 0 \<le> length p" by (cases p) auto
  then have "Suc n \<le> length p + length q" using q(2) by linarith
  with p q show ?case by (intro exI [of _ "p @ q"]) simp
qed

end

text \<open>
  A loop over a reader until the buffer is empty:
  \<open>while !remaining.is_empty() { items.push(read(&mut remaining)?) }\<close>.
\<close>

locale drained_codec = codec +
  fixes drain :: "bytes \<Rightarrow> ('a list, 'e) result"
  assumes drain_Nil: "drain [] = Ok []"
    and drain_step: "bs \<noteq> [] \<Longrightarrow>
      drain bs = andthen (dec bs) (\<lambda>(x, rest). andthen (drain rest) (\<lambda>xs. Ok (x # xs)))"
begin

lemma drain_enc:
  "list_all ok xs \<Longrightarrow>
     drain (concat (map enc xs) @ tail) = andthen (drain tail) (\<lambda>ys. Ok (xs @ ys))"
proof (induction xs)
  case Nil
  then show ?case by (cases "drain tail") simp_all
next
  case (Cons x xs)
  then have "enc x \<noteq> []" by (simp add: enc_not_Nil)
  with Cons show ?case
    by (cases "drain tail") (simp_all add: drain_step dec_enc)
qed

lemma drain_length: "drain bs = Ok xs \<Longrightarrow> length xs \<le> length bs"
proof (induction xs arbitrary: bs)
  case (Cons x xs)
  then have "bs \<noteq> []" by (auto simp: drain_Nil)
  with Cons.prems obtain rest where d: "dec bs = Ok (x, rest)" and r: "drain rest = Ok xs"
    by (auto simp: drain_step result_dest)
  from dec_shorter [OF d] Cons.IH [OF r] show ?case by simp
qed simp

end

end
