(* ===== verification/Frame_Wire.thy ===== *)
theory Frame_Wire
  imports Frame Codec
begin

text \<open>
  Writing a frame and reading it back. \<open>frame_wire\<close> is the wire format as a function; the writer
  appends exactly these bytes, and the parser, given these bytes and anything behind them, returns
  the frame. The one exception is a STREAM frame without data, which is written without a length
  and swallows what follows it.
\<close>

section \<open>Writers append\<close>

lemma put_frame_varint_ok [simp]:
  "v \<le> VARINT_MAX \<Longrightarrow> put_frame_varint v buf = (Ok (), buf @ varint_bytes v)"
  by (simp add: put_frame_varint_def put_varint_ok)

lemma put_frame_varint_large [simp]:
  "VARINT_MAX < v \<Longrightarrow> put_frame_varint v buf = (Error (FrameVarInt (ValueTooLarge v)), buf)"
  by (simp add: put_frame_varint_def put_varint_too_large)

lemma put_frame_varint_cases:
  "put_frame_varint v buf =
     (if v \<le> VARINT_MAX then (Ok (), buf @ varint_bytes v)
      else (Error (FrameVarInt (ValueTooLarge v)), buf))"
  by (simp add: not_le)

lemma put_u8_apply [simp]: "put_u8 b buf = (Ok (), buf @ [b])"
  by (simp add: put_u8_def)

lemma put_slice_apply [simp]: "put_slice bs buf = (Ok (), buf @ bs)"
  by (simp add: put_slice_def)

definition length_ok :: "bytes \<Rightarrow> bool" where
  "length_ok d \<longleftrightarrow> length d < 2 ^ 62"

lemma of_nat_le_VARINT_MAX: "n < 2 ^ 62 \<Longrightarrow> (of_nat n :: u64) \<le> VARINT_MAX"
  by (simp add: VARINT_MAX_unat unsigned_of_nat take_bit_nat_eq_self)

lemma unat_of_nat_u64: "n < 2 ^ 62 \<Longrightarrow> unat (of_nat n :: u64) = n"
  by (simp add: unsigned_of_nat take_bit_nat_eq_self)

definition sized_bytes :: "bytes \<Rightarrow> bytes" where
  "sized_bytes d = varint_bytes (of_nat (length d)) @ d"

lemma put_varint_bytes_ok [simp]:
  "length_ok d \<Longrightarrow> put_varint_bytes d buf = (Ok (), buf @ sized_bytes d)"
  by (simp add: put_varint_bytes_def seqA_def sized_bytes_def length_ok_def of_nat_le_VARINT_MAX)

section \<open>The wire format\<close>

definition range_ok :: "ack_range \<Rightarrow> bool" where
  "range_ok r \<longleftrightarrow> ar_gap r \<le> VARINT_MAX \<and> ar_range r \<le> VARINT_MAX"

definition range_wire :: "ack_range \<Rightarrow> bytes" where
  "range_wire r = varint_bytes (ar_gap r) @ varint_bytes (ar_range r)"

definition ecn_ok :: "ecn_counts option \<Rightarrow> bool" where
  "ecn_ok e = (case e of None \<Rightarrow> True
     | Some c \<Rightarrow> ect0 c \<le> VARINT_MAX \<and> ect1 c \<le> VARINT_MAX \<and> ecn_ce c \<le> VARINT_MAX)"

definition ecn_wire :: "ecn_counts option \<Rightarrow> bytes" where
  "ecn_wire e = (case e of None \<Rightarrow> []
     | Some c \<Rightarrow> varint_bytes (ect0 c) @ varint_bytes (ect1 c) @ varint_bytes (ecn_ce c))"

definition ranges_ok :: "ack_range list \<Rightarrow> bool" where
  "ranges_ok rs \<longleftrightarrow> rs \<noteq> [] \<and> ar_gap (hd rs) = 0 \<and> list_all range_ok rs \<and>
     length rs * 16 \<le> isize_max"

definition stream_type :: "varint \<Rightarrow> bytes \<Rightarrow> bool \<Rightarrow> u8" where
  "stream_type offset data fin =
     (if fin then 1 else 0) + (if offset > 0 then 4 else 0) + (if data \<noteq> [] then 2 else 0) + 8"

text \<open>
  The frames that survive the wire: what the Rust types allow (array lengths, a vector of ranges
  that fits the address space), integers below \<open>2 ^ 62\<close>, at least one ACK range with no gap
  before the first (the wire has no room for one), a connection ID of 1 to 20 bytes.
\<close>

fun frame_ok :: "frame \<Rightarrow> bool" where
  "frame_ok Padding = True"
| "frame_ok Ping = True"
| "frame_ok (Ack l d rs e) = (l \<le> VARINT_MAX \<and> d \<le> VARINT_MAX \<and> ranges_ok rs \<and> ecn_ok e)"
| "frame_ok (ResetStream a b c) = (a \<le> VARINT_MAX \<and> b \<le> VARINT_MAX \<and> c \<le> VARINT_MAX)"
| "frame_ok (StopSending a b) = (a \<le> VARINT_MAX \<and> b \<le> VARINT_MAX)"
| "frame_ok (Crypto off d) = (off \<le> VARINT_MAX \<and> length_ok d)"
| "frame_ok (NewToken d) = length_ok d"
| "frame_ok (Stream s off d fin) = (s \<le> VARINT_MAX \<and> off \<le> VARINT_MAX \<and> length_ok d)"
| "frame_ok (MaxData a) = (a \<le> VARINT_MAX)"
| "frame_ok (MaxStreamData a b) = (a \<le> VARINT_MAX \<and> b \<le> VARINT_MAX)"
| "frame_ok (MaxStreams _ a) = (a \<le> VARINT_MAX)"
| "frame_ok (DataBlocked a) = (a \<le> VARINT_MAX)"
| "frame_ok (StreamDataBlocked a b) = (a \<le> VARINT_MAX \<and> b \<le> VARINT_MAX)"
| "frame_ok (StreamsBlocked _ a) = (a \<le> VARINT_MAX)"
| "frame_ok (NewConnectionId a b c t) =
     (a \<le> VARINT_MAX \<and> b \<le> VARINT_MAX \<and> cid_bytes c \<noteq> [] \<and> length (cid_bytes c) \<le> 20 \<and>
      length t = 16)"
| "frame_ok (RetireConnectionId a) = (a \<le> VARINT_MAX)"
| "frame_ok (PathChallenge d) = (length d = 8)"
| "frame_ok (PathResponse d) = (length d = 8)"
| "frame_ok (ConnectionClose a t r) =
     (a \<le> VARINT_MAX \<and> (case t of None \<Rightarrow> True | Some x \<Rightarrow> x \<le> VARINT_MAX) \<and> length_ok r)"
| "frame_ok HandshakeDone = True"

fun frame_wire :: "frame \<Rightarrow> bytes" where
  "frame_wire Padding = [FRAME_PADDING]"
| "frame_wire Ping = [FRAME_PING]"
| "frame_wire (Ack l d rs e) =
     [if e = None then 2 else 3] @ varint_bytes l @ varint_bytes d @
     varint_bytes (of_nat (length rs - 1)) @ varint_bytes (ar_range (hd rs)) @
     concat (map range_wire (tl rs)) @ ecn_wire e"
| "frame_wire (ResetStream a b c) =
     [FRAME_RESET_STREAM] @ varint_bytes a @ varint_bytes b @ varint_bytes c"
| "frame_wire (StopSending a b) = [FRAME_STOP_SENDING] @ varint_bytes a @ varint_bytes b"
| "frame_wire (Crypto off d) = [FRAME_CRYPTO] @ varint_bytes off @ sized_bytes d"
| "frame_wire (NewToken d) = [FRAME_NEW_TOKEN] @ sized_bytes d"
| "frame_wire (Stream s off d fin) =
     [stream_type off d fin] @ varint_bytes s @ (if off > 0 then varint_bytes off else []) @
     (if d \<noteq> [] then sized_bytes d else [])"
| "frame_wire (MaxData a) = [FRAME_MAX_DATA] @ varint_bytes a"
| "frame_wire (MaxStreamData a b) = [FRAME_MAX_STREAM_DATA] @ varint_bytes a @ varint_bytes b"
| "frame_wire (MaxStreams bidi a) =
     [if bidi then FRAME_MAX_STREAMS_BIDI else FRAME_MAX_STREAMS_UNI] @ varint_bytes a"
| "frame_wire (DataBlocked a) = [FRAME_DATA_BLOCKED] @ varint_bytes a"
| "frame_wire (StreamDataBlocked a b) =
     [FRAME_STREAM_DATA_BLOCKED] @ varint_bytes a @ varint_bytes b"
| "frame_wire (StreamsBlocked bidi a) =
     [if bidi then FRAME_STREAMS_BLOCKED_BIDI else FRAME_STREAMS_BLOCKED_UNI] @ varint_bytes a"
| "frame_wire (NewConnectionId a b c t) =
     [FRAME_NEW_CONNECTION_ID] @ varint_bytes a @ varint_bytes b @
     [of_nat (length (cid_bytes c))] @ cid_bytes c @ t"
| "frame_wire (RetireConnectionId a) = [FRAME_RETIRE_CONNECTION_ID] @ varint_bytes a"
| "frame_wire (PathChallenge d) = [FRAME_PATH_CHALLENGE] @ d"
| "frame_wire (PathResponse d) = [FRAME_PATH_RESPONSE] @ d"
| "frame_wire (ConnectionClose a t r) =
     [if t = None then FRAME_CONNECTION_CLOSE_APP else FRAME_CONNECTION_CLOSE_QUIC] @
     varint_bytes a @ (case t of None \<Rightarrow> [] | Some x \<Rightarrow> varint_bytes x) @ sized_bytes r"
| "frame_wire HandshakeDone = [FRAME_HANDSHAKE_DONE]"

fun self_delimiting :: "frame \<Rightarrow> bool" where
  "self_delimiting (Stream s off d fin) = (d \<noteq> [])"
| "self_delimiting f = True"

section \<open>The writer produces the wire format\<close>

lemma put_ack_ranges_ok:
  "list_all range_ok rs \<Longrightarrow> put_ack_ranges rs buf = (Ok (), buf @ concat (map range_wire rs))"
  by (induction rs arbitrary: buf) (simp_all add: seqA_def range_ok_def range_wire_def)

lemma write_ack_ok:
  assumes "frame_ok (Ack l d rs e)"
  shows "write_ack l d rs e buf = (Ok (), buf @ frame_wire (Ack l d rs e))"
proof -
  from assms obtain r rs' where rs: "rs = r # rs'" by (auto simp: ranges_ok_def neq_Nil_conv)
  have n: "length rs' < 2 ^ 62"
    using assms by (simp add: rs ranges_ok_def isize_max_def)
  have "range_ok r" "list_all range_ok rs'" using assms by (simp_all add: rs ranges_ok_def)
  then have r: "ar_range r \<le> VARINT_MAX" by (simp add: range_ok_def)
  show ?thesis
    using assms r \<open>list_all range_ok rs'\<close> of_nat_le_VARINT_MAX [OF n]
    by (cases e)
      (simp_all add: write_ack_def rs seqA_def slice_from_def put_ack_ranges_ok ecn_ok_def
        ecn_wire_def)
qed

lemma write_stream_ok:
  assumes "frame_ok (Stream s off d fin)"
  shows "write_stream s off d fin buf = (Ok (), buf @ frame_wire (Stream s off d fin))"
  using assms
  by (auto simp: write_stream_def seqA_def stream_type_def sized_bytes_def length_ok_def
      of_nat_le_VARINT_MAX)

lemma write_body_ok: "frame_ok f \<Longrightarrow> write_body f buf = (Ok (), buf @ frame_wire f)"
proof (cases f)
  case (Ack l d rs e)
  moreover assume "frame_ok f"
  ultimately show ?thesis using write_ack_ok by (simp del: frame_ok.simps frame_wire.simps)
next
  case (Stream s off d fin)
  moreover assume "frame_ok f"
  ultimately show ?thesis using write_stream_ok by (simp del: frame_ok.simps frame_wire.simps)
next
  case (ConnectionClose a t r)
  moreover assume "frame_ok f"
  ultimately show ?thesis
    by (cases t) (simp_all add: write_connection_close_def seqA_def)
qed (simp_all add: seqA_def write_1_def write_2_def write_3_def)

lemma write_frame_ok: "frame_ok f \<Longrightarrow> write_frame f buf = (Ok (length (frame_wire f)), buf @ frame_wire f)"
  by (simp add: write_frame_def write_body_ok)

section \<open>The reader reads it back\<close>

lemma read_varint_ok [simp]:
  "v \<le> VARINT_MAX \<Longrightarrow> read_varint (varint_bytes v @ rest) = Ok (v, rest)"
  by (simp add: read_varint_def decode_varint_bytes slice_from_def)

lemma read_varint_ok_end [simp]:
  "v \<le> VARINT_MAX \<Longrightarrow> read_varint (varint_bytes v) = Ok (v, [])"
  using read_varint_ok [of v "[]"] by simp

lemma read_varint_bytes_ok [simp]:
  "length_ok d \<Longrightarrow> read_varint_bytes (sized_bytes d @ rest) = Ok (d, rest)"
  by (simp add: read_varint_bytes_def sized_bytes_def length_ok_def of_nat_le_VARINT_MAX
      read_bytes_def unat_of_nat_u64)

lemma read_varint_bytes_ok_end [simp]:
  "length_ok d \<Longrightarrow> read_varint_bytes (sized_bytes d) = Ok (d, [])"
  using read_varint_bytes_ok [of d "[]"] by simp

lemma read_varintD:
  assumes "read_varint bs = Ok (v, rest)"
  shows "\<exists>p. p \<noteq> [] \<and> bs = p @ rest" and "v \<le> VARINT_MAX"
proof -
  from assms obtain n where d: "decode bs = Ok (v, n)" and n: "rest = drop n bs" "n \<le> length bs"
    by (auto simp: read_varint_def result_dest slice_from_def split: if_splits)
  from decode_ok_bounds [OF d] have "0 < n" "v \<le> VARINT_MAX" by auto
  with n have "take n bs \<noteq> []" "bs = take n bs @ rest" by auto
  then show "\<exists>p. p \<noteq> [] \<and> bs = p @ rest" by blast
  show "v \<le> VARINT_MAX" by fact
qed

interpretation varint_codec: codec varint_bytes read_varint "\<lambda>v. v \<le> VARINT_MAX"
  by unfold_locales (auto dest: read_varintD)

lemma read_varint_bytesD:
  assumes "read_varint_bytes bs = Ok (d, rest)"
  shows "\<exists>p. p \<noteq> [] \<and> bs = p @ rest" and "length d \<le> length bs"
proof -
  from assms obtain n bs' where r: "read_varint bs = Ok (n, bs')"
    and d: "d = take (unat n) bs'" "rest = drop (unat n) bs'"
    by (auto simp: read_varint_bytes_def read_bytes_def result_dest split: if_splits)
  from read_varintD(1) [OF r] obtain p where p: "p \<noteq> []" "bs = p @ bs'" by blast
  then have "bs = (p @ take (unat n) bs') @ rest" by (simp add: d)
  with p(1) show "\<exists>p. p \<noteq> [] \<and> bs = p @ rest" by blast
  show "length d \<le> length bs" by (simp add: d p)
qed

interpretation bytes_codec: codec sized_bytes read_varint_bytes length_ok
  by unfold_locales (auto dest: read_varint_bytesD)

definition read_range :: "bytes \<Rightarrow> (ack_range \<times> bytes, frame_error) result" where
  "read_range buf =
     andthen (read_varint buf) (\<lambda>(gap, buf).
     andthen (read_varint buf) (\<lambda>(rng, buf). Ok (\<lparr>ar_gap = gap, ar_range = rng\<rparr>, buf)))"

interpretation range_codec: counted_codec range_wire read_range range_ok read_ack_ranges
proof unfold_locales
  fix x rest
  assume "range_ok x"
  then show "read_range (range_wire x @ rest) = Ok (x, rest)"
    by (cases x) (simp add: read_range_def range_wire_def range_ok_def)
next
  fix bs x rest
  assume "read_range bs = Ok (x, rest)"
  then obtain g bs' r where "read_varint bs = Ok (g, bs')" "read_varint bs' = Ok (r, rest)"
    by (auto simp: read_range_def result_dest)
  then show "\<exists>p. p \<noteq> [] \<and> bs = p @ rest"
    by (fastforce dest!: read_varintD(1))
next
  fix n bs
  show "read_ack_ranges (Suc n) bs = andthen (read_range bs)
      (\<lambda>(x, bs). andthen (read_ack_ranges n bs) (\<lambda>(xs, bs). Ok (x # xs, bs)))"
    by (auto simp: read_range_def andthen_def split: sum.splits prod.splits)
qed simp

section \<open>Parsing the wire format\<close>

lemma small_type_tag: "b < 64 \<Longrightarrow> drop_bit 6 b = 0" for b :: u8
  using tag_of_top [of b 0] by simp

lemma ucast_u8_u64_u8 [simp]: "ucast (ucast (b :: u8) :: u64) = b"
  by (rule bit_word_eqI) (auto simp: bit_simps)

lemma encoded_len_1: "v \<le> 63 \<Longrightarrow> encoded_len v = 1"
  by (simp add: encoded_len_def)

text \<open>The check on the encoding of the type never fires: it asks the length of the shortest encoding.\<close>

lemma parse_frame_eq:
  "parse_frame buf =
     andthen (map_err FrameVarInt (decode buf)) (\<lambda>(frame_type, _).
     andthen (slice_from buf 1) (\<lambda>body.
     andthen (parse_body (ucast frame_type) frame_type body) (\<lambda>(frame, rest).
     Ok (frame, length buf - length rest))))"
proof -
  have "\<not> (t \<le> 63 \<and> encoded_len t \<noteq> 1)" for t
    using encoded_len_1 by auto
  then show ?thesis
    by (simp only: parse_frame_def if_False)
qed

lemma parse_frame_byte:
  assumes "b < 64"
  shows "parse_frame (b # r) =
    andthen (parse_body b (ucast b) r) (\<lambda>(f, rest). Ok (f, Suc (length r) - length rest))"
  by (simp add: parse_frame_eq decode_1 [OF small_type_tag [OF assms]] slice_from_def)

lemma read_bytes_append [simp]: "n = length d \<Longrightarrow> read_bytes n (d @ rest) = Ok (d, rest)"
  by (simp add: read_bytes_def)

lemma read_exact_append [simp]: "n = length d \<Longrightarrow> read_exact n (d @ rest) = Ok (d, rest)"
  by (simp add: read_exact_def)

lemma read_exact_end [simp]: "n = length d \<Longrightarrow> read_exact n d = Ok (d, [])"
  by (simp add: read_exact_def)

lemma read_u8_Cons [simp]: "read_u8 (b # r) = Ok (b, r)"
  by (simp add: read_u8_def)

lemma parse_ack_ok:
  assumes "frame_ok (Ack l d rs e)"
  shows "parse_ack (if e = None then 2 else 3)
      (drop 1 (frame_wire (Ack l d rs e) @ rest)) = Ok (Ack l d rs e, rest)"
proof -
  from assms obtain r rs' where rs: "rs = r # rs'" by (auto simp: ranges_ok_def neq_Nil_conv)
  have n: "length rs' < 2 ^ 62" and cap: "Suc (length rs') * 16 \<le> isize_max"
    using assms by (simp_all add: rs ranges_ok_def isize_max_def)
  have r: "ar_range r \<le> VARINT_MAX" "ar_gap r = 0" "list_all range_ok rs'"
    using assms by (simp_all add: rs ranges_ok_def range_ok_def)
  have loop: "read_ack_ranges (length rs') (concat (map range_wire rs') @ q) = Ok (rs', q)" for q
    by (rule range_codec.loop_enc [OF r(3)])
  have r': "\<lparr>ar_gap = 0, ar_range = ar_range r\<rparr> = r"
    using r(2) by (cases r) simp
  show ?thesis
    using assms r of_nat_le_VARINT_MAX [OF n] cap
    by (cases e)
      (simp_all add: parse_ack_def rs ecn_wire_def ecn_ok_def loop with_capacity_def r'
        unat_of_nat_u64 [OF n] Let_def)
qed

lemma stream_type_bits:
  "stream_type off d fin AND 4 \<noteq> 0 \<longleftrightarrow> off > 0"
  "stream_type off d fin AND 2 \<noteq> 0 \<longleftrightarrow> d \<noteq> []"
  "stream_type off d fin AND 1 \<noteq> 0 \<longleftrightarrow> fin"
  by (auto simp: stream_type_def)

lemma stream_type_range: "8 \<le> stream_type off d fin" "stream_type off d fin \<le> 15"
  by (auto simp: stream_type_def)

lemma parse_stream_ok:
  assumes "frame_ok (Stream s off d fin)" and "d \<noteq> []"
  shows "parse_stream (stream_type off d fin) (drop 1 (frame_wire (Stream s off d fin) @ rest)) =
    Ok (Stream s off d fin, rest)"
  using assms
  by (simp add: parse_stream_def stream_type_bits word_gt_0 Let_def)

lemma parse_stream_open:
  assumes "s \<le> VARINT_MAX" and "off \<le> VARINT_MAX"
  shows "parse_stream (stream_type off [] fin) (drop 1 (frame_wire (Stream s off [] fin) @ rest)) =
    Ok (Stream s off rest fin, [])"
  using assms
  by (simp add: parse_stream_def stream_type_bits word_gt_0 Let_def)

lemma parse_body_ok:
  assumes "frame_ok f" and "self_delimiting f"
  shows "\<exists>b body. frame_wire f = b # body \<and> b < 64 \<and>
    parse_body b (ucast b) (body @ rest) = Ok (f, rest)"
proof (cases f)
  case (Ack l d rs e)
  with assms parse_ack_ok [of l d rs e rest] show ?thesis
    by (cases e) (auto simp: parse_body_def simp del: frame_ok.simps)
next
  case (Stream s off d fin)
  have "parse_body (stream_type off d fin) t buf = parse_stream (stream_type off d fin) buf" for t buf
    by (auto simp: parse_body_def stream_type_def)
  moreover have "stream_type off d fin < 64"
    by (auto simp: stream_type_def)
  ultimately show ?thesis
    using assms Stream parse_stream_ok [of s off d fin rest] by auto
next
  case (ConnectionClose a t r)
  with assms show ?thesis
    by (cases t) (simp_all add: parse_body_def parse_connection_close_def)
next
  case (NewConnectionId a b c t)
  then obtain cid where c: "c = ConnectionId cid" by (cases c)
  have len: "0 < length cid" "length cid \<le> 20"
    using assms(1) by (simp_all add: NewConnectionId c)
  then have u: "unat (of_nat (length cid) :: u8) = length cid"
    by (simp add: unsigned_of_nat take_bit_nat_eq_self)
  have "(1 :: u8) \<le> of_nat (length cid)" "(of_nat (length cid) :: u8) \<le> 20"
    using len by (simp_all add: word_le_nat_alt u Suc_le_eq)
  then show ?thesis
    using assms(1) len
    by (simp add: NewConnectionId c parse_body_def parse_new_connection_id_def u
        connection_id_new_def)
qed (use assms in \<open>simp_all add: parse_body_def parse_1_def parse_2_def parse_3_def\<close>)

lemma parse_frame_wire:
  assumes "frame_ok f" and "self_delimiting f"
  shows "parse_frame (frame_wire f @ rest) = Ok (f, length (frame_wire f))"
proof -
  from parse_body_ok [OF assms] obtain b body where
    "frame_wire f = b # body" "b < 64" "parse_body b (ucast b) (body @ rest) = Ok (f, rest)"
    by blast
  then show ?thesis by (simp add: parse_frame_byte)
qed

text \<open>A STREAM frame written without data takes all that follows as its data.\<close>

lemma parse_frame_wire_open:
  assumes "s \<le> VARINT_MAX" and "off \<le> VARINT_MAX"
  shows "parse_frame (frame_wire (Stream s off [] fin) @ rest) =
    Ok (Stream s off rest fin, length (frame_wire (Stream s off [] fin)) + length rest)"
proof -
  have "parse_body (stream_type off [] fin) t buf = parse_stream (stream_type off [] fin) buf" for t buf
    by (auto simp: parse_body_def stream_type_def)
  moreover have "stream_type off [] fin < 64"
    by (auto simp: stream_type_def)
  ultimately show ?thesis
    using parse_stream_open [OF assms, of fin rest] by (simp add: parse_frame_byte)
qed

end
