(* ===== verification/Frame_Parse.thy ===== *)
theory Frame_Parse
  imports Frame_Wire "HOL-Library.Sublist"
begin

text \<open>
  The parser on arbitrary input: it makes progress and stays inside the buffer, a frame it returns
  can be written again, and it panics only where an ACK frame asks for more ranges than a vector can
  have. Then the statements about \<open>parse_frame\<close> and \<open>write_frame\<close> that other parts rest on.
\<close>

section \<open>What a reader leaves is a suffix\<close>

named_theorems read_dest \<open>consequences of a successful read\<close>

lemma read_varint_okD [read_dest]:
  assumes "read_varint bs = Ok (v, r)"
  shows "suffix r bs \<and> v \<le> VARINT_MAX \<and> length r < length bs"
  using read_varintD [OF assms] by (auto simp: suffix_def)

lemma read_u8_okD [read_dest]: "read_u8 bs = Ok (v, r) \<Longrightarrow> suffix r bs \<and> bs = v # r"
  by (auto simp: read_u8_def suffix_def split: list.splits)

lemma read_bytes_okD [read_dest]:
  "read_bytes n bs = Ok (d, r) \<Longrightarrow> suffix r bs \<and> length d = n \<and> length d \<le> length bs"
  by (auto simp: read_bytes_def suffix_drop split: if_splits)

lemma read_exact_okD [read_dest]:
  "read_exact n bs = Ok (d, r) \<Longrightarrow> suffix r bs \<and> length d = n"
  by (auto simp: read_exact_def suffix_drop split: if_splits)

lemma read_varint_bytes_okD [read_dest]:
  assumes "read_varint_bytes bs = Ok (d, r)"
  shows "suffix r bs \<and> length d \<le> length bs"
  using read_varint_bytesD [OF assms] by (auto simp: suffix_def)

lemma read_ack_ranges_okD [read_dest]:
  assumes "read_ack_ranges n bs = Ok (rs, r)"
  shows "suffix r bs \<and> length rs = n \<and> list_all range_ok rs"
proof -
  have "list_all range_ok rs"
    using assms
    by (induction n arbitrary: bs rs) (auto simp: result_dest range_ok_def dest!: read_dest)
  then show ?thesis
    using range_codec.loop_suffix [OF assms] range_codec.loop_length [OF assms]
    by (auto simp: suffix_def)
qed

text \<open>
  \<open>reads P buf r\<close>: a successful result of an arm leaves a suffix of its input, and its frame
  satisfies \<open>P\<close>.
\<close>

definition reads :: "(frame \<Rightarrow> bool) \<Rightarrow> bytes \<Rightarrow> (frame \<times> bytes, frame_error) result \<Rightarrow> bool" where
  "reads P buf r = (case r of Inl _ \<Rightarrow> True | Inr (f, rest) \<Rightarrow> P f \<and> suffix rest buf)"

lemma readsI: "(\<And>f rest. r = Ok (f, rest) \<Longrightarrow> P f \<and> suffix rest buf) \<Longrightarrow> reads P buf r"
  by (auto simp: reads_def split: sum.splits)

lemma readsD: "reads P buf r \<Longrightarrow> r = Ok (f, rest) \<Longrightarrow> P f \<and> suffix rest buf"
  by (simp add: reads_def)

text \<open>
  Data lengths are written as integers, so a frame with data is known to be writable when the buffer
  it came from is shorter than \<open>2 ^ 62\<close> bytes.
\<close>

definition fits :: "bytes \<Rightarrow> frame \<Rightarrow> bool" where
  "fits buf f \<longleftrightarrow> (length buf < 2 ^ 62 \<longrightarrow> frame_ok f)"

lemma reads_fits: "reads frame_ok buf r \<Longrightarrow> reads (fits buf) buf r"
  by (auto simp: reads_def fits_def split: sum.splits)

lemma parse_1_reads:
  "(\<And>a. a \<le> VARINT_MAX \<Longrightarrow> frame_ok (mk a)) \<Longrightarrow> reads frame_ok buf (parse_1 mk buf)"
  by (rule readsI) (auto simp: parse_1_def result_dest dest!: read_dest)

lemma parse_2_reads:
  assumes "\<And>a b. a \<le> VARINT_MAX \<Longrightarrow> b \<le> VARINT_MAX \<Longrightarrow> frame_ok (mk a b)"
  shows "reads frame_ok buf (parse_2 mk buf)"
proof (rule readsI)
  fix f rest
  assume "parse_2 mk buf = Ok (f, rest)"
  then obtain a buf' where a: "read_varint buf = Ok (a, buf')" "parse_1 (mk a) buf' = Ok (f, rest)"
    by (auto simp: parse_2_def result_dest)
  from read_varint_okD [OF a(1)] have s: "suffix buf' buf" "a \<le> VARINT_MAX" by auto
  then have "reads frame_ok buf' (parse_1 (mk a) buf')"
    using assms by (intro parse_1_reads) auto
  from readsD [OF this a(2)] s(1) show "frame_ok f \<and> suffix rest buf"
    by (auto intro: suffix_order.trans)
qed

lemma parse_3_reads:
  assumes "\<And>a b c. a \<le> VARINT_MAX \<Longrightarrow> b \<le> VARINT_MAX \<Longrightarrow> c \<le> VARINT_MAX \<Longrightarrow> frame_ok (mk a b c)"
  shows "reads frame_ok buf (parse_3 mk buf)"
proof (rule readsI)
  fix f rest
  assume "parse_3 mk buf = Ok (f, rest)"
  then obtain a buf' where a: "read_varint buf = Ok (a, buf')" "parse_2 (mk a) buf' = Ok (f, rest)"
    by (auto simp: parse_3_def result_dest)
  from read_varint_okD [OF a(1)] have s: "suffix buf' buf" "a \<le> VARINT_MAX" by auto
  then have "reads frame_ok buf' (parse_2 (mk a) buf')"
    using assms by (intro parse_2_reads) auto
  from readsD [OF this a(2)] s(1) show "frame_ok f \<and> suffix rest buf"
    by (auto intro: suffix_order.trans)
qed

lemma with_capacity_okD: "with_capacity w n = Ok u \<Longrightarrow> n * w \<le> isize_max"
  by (simp add: with_capacity_def split: if_splits)

lemma parse_ack_reads: "reads frame_ok buf (parse_ack t buf)"
  by (rule readsI)
    (auto simp: parse_ack_def Let_def result_dest ranges_ok_def range_ok_def ecn_ok_def
      dest!: read_dest with_capacity_okD split: if_splits intro: suffix_order.trans)

lemma parse_stream_reads: "reads (fits buf) buf (parse_stream t buf)"
  by (rule readsI)
    (auto simp: parse_stream_def Let_def result_dest length_ok_def fits_def
      dest!: read_dest split: if_splits intro: suffix_order.trans)

lemma parse_new_connection_id_reads: "reads frame_ok buf (parse_new_connection_id buf)"
  by (rule readsI)
    (auto simp: parse_new_connection_id_def Let_def result_dest connection_id_new_def
      word_le_nat_alt dest!: read_dest split: if_splits intro: suffix_order.trans)

lemma parse_connection_close_reads:
  "reads (fits buf) buf (parse_connection_close ft buf)"
  by (rule readsI)
    (auto simp: parse_connection_close_def Let_def result_dest length_ok_def fits_def
      dest!: read_dest split: if_splits intro: suffix_order.trans)

lemma parse_crypto_reads:
  "reads (fits buf) buf
     (andthen (read_varint buf) (\<lambda>(offset, buf).
      andthen (read_varint_bytes buf) (\<lambda>(data, buf). Ok (Crypto offset data, buf))))"
  by (rule readsI)
    (auto simp: result_dest length_ok_def fits_def dest!: read_dest intro: suffix_order.trans)

lemma parse_token_reads:
  "reads (fits buf) buf
     (andthen (read_varint_bytes buf) (\<lambda>(token, buf). Ok (NewToken token, buf)))"
  by (rule readsI) (auto simp: result_dest length_ok_def fits_def dest!: read_dest)

lemma parse_path_reads:
  "reads frame_ok buf (andthen (read_exact 8 buf) (\<lambda>(data, buf). Ok (PathChallenge data, buf)))"
  "reads frame_ok buf (andthen (read_exact 8 buf) (\<lambda>(data, buf). Ok (PathResponse data, buf)))"
  by (auto intro!: readsI simp: result_dest dest!: read_dest)

lemma reads_Ok: "P f \<Longrightarrow> reads P buf (Ok (f, buf))"
  by (simp add: reads_def)

lemma reads_Error: "reads P buf (Error e)"
  by (simp add: reads_def)

lemmas arm_reads =
  reads_fits [OF parse_1_reads] reads_fits [OF parse_2_reads] reads_fits [OF parse_3_reads]
  reads_fits [OF parse_ack_reads] parse_stream_reads reads_fits [OF parse_new_connection_id_reads]
  parse_connection_close_reads parse_crypto_reads parse_token_reads
  reads_fits [OF parse_path_reads(1)] reads_fits [OF parse_path_reads(2)]
  reads_fits [OF reads_Ok] reads_Error

lemma parse_body_reads: "reads (fits buf) buf (parse_body ft t buf)"
  unfolding parse_body_def by (auto intro!: arm_reads)

lemma parse_frame_okD:
  assumes "parse_frame buf = Ok (f, n)"
  obtains t k body rest where "decode buf = Ok (t, k)" and "buf \<noteq> []" and "body = drop 1 buf"
    and "parse_body (ucast t) t body = Ok (f, rest)" and "n = length buf - length rest"
proof -
  from assms obtain t k body rest where d: "decode buf = Ok (t, k)"
    and b: "slice_from buf 1 = (Ok body :: (bytes, frame_error) result)"
    and r: "parse_body (ucast t) t body = Ok (f, rest)" "n = length buf - length rest"
    by (auto simp: parse_frame_eq result_dest)
  from b have "buf \<noteq> []" "body = drop 1 buf"
    by (auto simp: slice_from_def split: if_splits)
  with d r that show thesis by blast
qed

lemma parse_frame_result:
  assumes "parse_frame buf = Ok (f, n)"
  shows "0 < n" and "n \<le> length buf" and "length buf < 2 ^ 62 \<Longrightarrow> frame_ok f"
proof -
  from assms obtain t k body rest where b: "buf \<noteq> []" "body = drop 1 buf"
    and r: "parse_body (ucast t) t body = Ok (f, rest)" and n: "n = length buf - length rest"
    by (rule parse_frame_okD)
  from readsD [OF parse_body_reads r] have f: "fits body f" and "suffix rest body" by auto
  then have l: "length rest \<le> length body" by (simp add: suffix_length_le)
  from b l show "0 < n" by (cases buf) (auto simp: n)
  show "n \<le> length buf" by (simp add: n)
  from f b show "length buf < 2 ^ 62 \<Longrightarrow> frame_ok f" by (simp add: fits_def)
qed

section \<open>Failures\<close>

text \<open>
  \<open>clean r\<close>: no panic and no \<open>NonMinimalType\<close>. Every reader is clean, and so is every arm of the
  parser but ACK.
\<close>

fun clean_fail :: "frame_error fail \<Rightarrow> bool" where
  "clean_fail Panic = False"
| "clean_fail (Err (NonMinimalType t)) = False"
| "clean_fail _ = True"

definition clean :: "('a, frame_error) result \<Rightarrow> bool" where
  "clean r = (case r of Inl e \<Rightarrow> clean_fail e | Inr _ \<Rightarrow> True)"

lemma clean_Inr [simp]: "clean (Inr x)"
  by (simp add: clean_def)

lemma clean_Inl [simp]: "clean (Inl e) = clean_fail e"
  by (simp add: clean_def)

lemma clean_andthen: "clean r \<Longrightarrow> (\<And>x. r = Inr x \<Longrightarrow> clean (k x)) \<Longrightarrow> clean (andthen r k)"
  by (cases r) simp_all

lemma clean_read_varint: "clean (read_varint bs)"
proof (cases "decode bs")
  case (Inl e)
  then show ?thesis
    using decode_not_panic [of bs] by (cases e) (auto simp: read_varint_def)
next
  case (Inr p)
  then obtain v n where "decode bs = Ok (v, n)" by (cases p) auto
  with decode_ok_bounds(3) [OF this] show ?thesis
    by (simp add: read_varint_def slice_from_def)
qed

lemma clean_read_u8: "clean (read_u8 bs)"
  by (simp add: read_u8_def split: list.split)

lemma clean_read_bytes: "clean (read_bytes n bs)"
  by (simp add: read_bytes_def)

lemma clean_read_exact: "clean (read_exact n bs)"
  by (simp add: read_exact_def)

lemma clean_read_varint_bytes: "clean (read_varint_bytes bs)"
  unfolding read_varint_bytes_def
  by (rule clean_andthen) (auto simp: clean_read_varint clean_read_bytes)

lemma clean_read_ack_ranges: "clean (read_ack_ranges n bs)"
  by (induction n arbitrary: bs) (auto intro!: clean_andthen clean_read_varint)

lemma clean_connection_id_new: "clean (connection_id_new b)"
  by (simp add: connection_id_new_def)

lemmas clean_intros =
  clean_andthen clean_read_varint clean_read_u8 clean_read_bytes clean_read_exact
  clean_read_varint_bytes clean_read_ack_ranges clean_connection_id_new

lemma clean_parse_stream: "clean (parse_stream t buf)"
  unfolding parse_stream_def Let_def by (auto intro!: clean_intros)

lemma clean_parse_new_connection_id: "clean (parse_new_connection_id buf)"
  unfolding parse_new_connection_id_def by (auto intro!: clean_intros)

lemma clean_parse_connection_close: "clean (parse_connection_close ft buf)"
  unfolding parse_connection_close_def Let_def by (auto intro!: clean_intros)

lemma clean_parse_123: "clean (parse_1 m buf)" "clean (parse_2 m' buf)" "clean (parse_3 m'' buf)"
  unfolding parse_1_def parse_2_def parse_3_def by (auto intro!: clean_intros)

lemma clean_parse_body: "ft \<noteq> 2 \<Longrightarrow> ft \<noteq> 3 \<Longrightarrow> clean (parse_body ft t buf)"
  unfolding parse_body_def
  by (auto intro!: clean_intros clean_parse_stream clean_parse_new_connection_id
      clean_parse_connection_close clean_parse_123)

text \<open>The range count of an ACK frame, when the four integers at its front can be read.\<close>

definition ack_range_count :: "bytes \<Rightarrow> varint option" where
  "ack_range_count buf =
     (case andthen (read_varint buf) (\<lambda>(_, buf). andthen (read_varint buf) (\<lambda>(_, buf).
           andthen (read_varint buf) (\<lambda>(n, buf). andthen (read_varint buf) (\<lambda>_. Ok n))))
      of Inl _ \<Rightarrow> None | Inr n \<Rightarrow> Some n)"

lemma clean_parse_ack:
  "\<not> clean (parse_ack t buf) \<longleftrightarrow>
     (\<exists>n. ack_range_count buf = Some n \<and> isize_max < (unat n + 1) * 16)" (is "?l = ?r")
  "\<not> clean (parse_ack t buf) \<Longrightarrow> parse_ack t buf = Panics"
proof -
  let ?ints = "andthen (read_varint buf) (\<lambda>(_, buf). andthen (read_varint buf) (\<lambda>(_, buf).
           andthen (read_varint buf) (\<lambda>(n, buf). andthen (read_varint buf) (\<lambda>_. Ok n))))"
  have "?l = ?r \<and> (?l \<longrightarrow> parse_ack t buf = Panics)"
  proof (cases ?ints)
    case (Inl e)
    have "clean ?ints" by (auto intro!: clean_intros)
    with Inl have "clean_fail e" by simp
    moreover have "parse_ack t buf = Inl e"
      using Inl by (auto simp: parse_ack_def Let_def andthen_eq_Inl)
    ultimately show ?thesis
      using Inl by (simp add: ack_range_count_def)
  next
    case (Inr n)
    then obtain l b1 d b2 b3 r b4 where
      r: "read_varint buf = Ok (l, b1)" "read_varint b1 = Ok (d, b2)" "read_varint b2 = Ok (n, b3)"
        "read_varint b3 = Ok (r, b4)"
      by (auto simp: andthen_eq_Inr)
    show ?thesis
    proof (cases "isize_max < (unat n + 1) * 16")
      case True
      then show ?thesis
        using Inr by (simp add: ack_range_count_def parse_ack_def Let_def r with_capacity_def)
    next
      case False
      then have "clean (parse_ack t buf)"
        by (auto simp: parse_ack_def Let_def r with_capacity_def intro!: clean_intros)
      with False Inr show ?thesis by (auto simp: ack_range_count_def)
    qed
  qed
  then show "?l = ?r" "?l \<Longrightarrow> parse_ack t buf = Panics" by blast+
qed

lemma parse_body_ack: "ft = 2 \<or> ft = 3 \<Longrightarrow> parse_body ft t buf = parse_ack t buf"
  by (auto simp: parse_body_def)

section \<open>Frames as a codec\<close>

text \<open>One turn of the loop over a payload: parse a frame and step over the bytes it consumed.\<close>

definition next_frame :: "bytes \<Rightarrow> (frame \<times> bytes, frame_error) result" where
  "next_frame buf =
     andthen (parse_frame buf) (\<lambda>(frame, consumed).
     andthen (slice_from buf consumed) (\<lambda>rest. Ok (frame, rest)))"

lemma next_frame_wire:
  "frame_ok f \<Longrightarrow> self_delimiting f \<Longrightarrow> next_frame (frame_wire f @ rest) = Ok (f, rest)"
  by (simp add: next_frame_def parse_frame_wire slice_from_def)

lemma next_frame_okD:
  assumes "next_frame buf = Ok (f, rest)"
  shows "\<exists>p. p \<noteq> [] \<and> buf = p @ rest" and "length rest < length buf"
proof -
  from assms obtain n where p: "parse_frame buf = Ok (f, n)" and r: "rest = drop n buf"
    by (auto simp: next_frame_def result_dest slice_from_def split: if_splits)
  note n = parse_frame_result(1,2) [OF p]
  then have "take n buf \<noteq> []" "buf = take n buf @ rest" by (auto simp: r)
  then show "\<exists>p. p \<noteq> [] \<and> buf = p @ rest" by blast
  from n show "length rest < length buf" by (simp add: r)
qed

interpretation frame_codec: codec frame_wire next_frame "\<lambda>f. frame_ok f \<and> self_delimiting f"
  by unfold_locales (auto simp: next_frame_wire dest: next_frame_okD)

section \<open>What \<open>write_frame\<close> returns\<close>

text \<open>The integers a frame puts on the wire, in order.\<close>

fun frame_ints :: "frame \<Rightarrow> varint list" where
  "frame_ints (Ack l d rs e) =
     (case rs of [] \<Rightarrow> [l, d]
      | r # rs' \<Rightarrow> [l, d, of_nat (length rs'), ar_range r] @
          concat (map (\<lambda>r. [ar_gap r, ar_range r]) rs') @
          (case e of None \<Rightarrow> [] | Some c \<Rightarrow> [ect0 c, ect1 c, ecn_ce c]))"
| "frame_ints (ResetStream a b c) = [a, b, c]"
| "frame_ints (StopSending a b) = [a, b]"
| "frame_ints (Crypto a d) = [a, of_nat (length d)]"
| "frame_ints (NewToken d) = [of_nat (length d)]"
| "frame_ints (Stream s off d fin) =
     [s] @ (if off > 0 then [off] else []) @ (if d \<noteq> [] then [of_nat (length d)] else [])"
| "frame_ints (MaxData a) = [a]"
| "frame_ints (MaxStreamData a b) = [a, b]"
| "frame_ints (MaxStreams _ a) = [a]"
| "frame_ints (DataBlocked a) = [a]"
| "frame_ints (StreamDataBlocked a b) = [a, b]"
| "frame_ints (StreamsBlocked _ a) = [a]"
| "frame_ints (NewConnectionId a b _ _) = [a, b]"
| "frame_ints (RetireConnectionId a) = [a]"
| "frame_ints (ConnectionClose a t r) =
     [a] @ (case t of None \<Rightarrow> [] | Some x \<Rightarrow> [x]) @ [of_nat (length r)]"
| "frame_ints _ = []"

fun ack_without_ranges :: "frame \<Rightarrow> bool" where
  "ack_without_ranges (Ack l d rs e) = (rs = [])"
| "ack_without_ranges f = False"

definition write_result :: "frame \<Rightarrow> (unit, frame_error) result" where
  "write_result f =
     (case find (\<lambda>v. VARINT_MAX < v) (frame_ints f) of
        Some v \<Rightarrow> Error (FrameVarInt (ValueTooLarge v))
      | None \<Rightarrow> if ack_without_ranges f then Panics else Ok ())"

text \<open>\<open>appends r m\<close>: the writer \<open>m\<close> returns \<open>r\<close> on every buffer and only appends to it.\<close>

definition appends :: "(unit, frame_error) result \<Rightarrow> (bytes, unit, frame_error) act \<Rightarrow> bool" where
  "appends r m \<longleftrightarrow> (\<forall>buf. fst (m buf) = r \<and> prefix buf (snd (m buf)))"

definition ints_result :: "varint list \<Rightarrow> (unit, frame_error) result" where
  "ints_result vs = (case find (\<lambda>v. VARINT_MAX < v) vs of
       Some v \<Rightarrow> Error (FrameVarInt (ValueTooLarge v)) | None \<Rightarrow> Ok ())"

lemma ints_result_append: "ints_result (vs @ ws) = andthen (ints_result vs) (\<lambda>_. ints_result ws)"
  by (induction vs) (simp_all add: ints_result_def)

lemma appends_seqA:
  assumes "appends r m" and "\<And>x. appends q (k x)"
  shows "appends (andthen r (\<lambda>_. q)) (seqA m k)"
  unfolding appends_def
proof
  fix buf
  obtain r' b where m: "m buf = (r', b)" by (cases "m buf")
  with assms(1) have "r' = r" "prefix buf b" by (auto simp: appends_def dest: spec [of _ buf])
  moreover have "fst (k x b) = q \<and> prefix b (snd (k x b))" for x
    using assms(2) [of x] by (auto simp: appends_def)
  ultimately show "fst (seqA m k buf) = andthen r (\<lambda>_. q) \<and> prefix buf (snd (seqA m k buf))"
    by (cases r) (auto simp: seqA_def m intro: prefix_order.trans)
qed

lemma appends_varint: "appends (ints_result [v]) (put_frame_varint v)"
  by (auto simp: appends_def ints_result_def put_frame_varint_cases)

lemma appends_u8: "appends (ints_result []) (put_u8 b)"
  by (simp add: appends_def ints_result_def)

lemma appends_slice: "appends (ints_result []) (put_slice d)"
  by (simp add: appends_def ints_result_def)

lemma appends_return: "appends (ints_result []) (returnA ())"
  by (simp add: appends_def ints_result_def)

lemma appends_seq_ints:
  assumes "appends (ints_result vs) m" and "\<And>x. appends (ints_result ws) (k x)"
  shows "appends (ints_result (vs @ ws)) (seqA m k)"
  using appends_seqA [OF assms] by (simp add: ints_result_append)

lemma appends_varint_bytes: "appends (ints_result [of_nat (length d)]) (put_varint_bytes d)"
  unfolding put_varint_bytes_def
  using appends_seq_ints [OF appends_varint appends_slice] by simp

lemma appends_ack_ranges:
  "appends (ints_result (concat (map (\<lambda>r. [ar_gap r, ar_range r]) rs))) (put_ack_ranges rs)"
proof (induction rs)
  case Nil
  show ?case by (simp add: appends_def ints_result_def)
next
  case (Cons r rs)
  from appends_seq_ints [OF appends_varint appends_seq_ints [OF appends_varint Cons]]
  show ?case by simp
qed

lemma appends_if:
  "(b \<Longrightarrow> appends r m) \<Longrightarrow> (\<not> b \<Longrightarrow> appends r m') \<Longrightarrow> appends r (if b then m else m')"
  by simp

lemma appends_write_1: "appends (ints_result [a]) (write_1 ft a)"
  unfolding write_1_def using appends_seq_ints [OF appends_u8 appends_varint] by simp

lemma appends_write_2: "appends (ints_result [a, b]) (write_2 ft a b)"
  unfolding write_2_def using appends_seq_ints [OF appends_write_1 appends_varint] by simp

lemma appends_write_3: "appends (ints_result [a, b, c]) (write_3 ft a b c)"
  unfolding write_3_def using appends_seq_ints [OF appends_write_2 appends_varint] by simp

lemma appends_write_stream:
  "appends (ints_result (frame_ints (Stream s off d fin))) (write_stream s off d fin)"
proof -
  have o: "appends (ints_result (if off > 0 then [off] else []))
      (if off > 0 then put_frame_varint off else returnA ())"
    using appends_varint appends_return by (simp del: returnA_apply)
  have l: "appends (ints_result (if d \<noteq> [] then [of_nat (length d)] else []))
      (if d \<noteq> [] then put_frame_varint (of_nat (length d)) else returnA ())"
    using appends_varint appends_return by (simp del: returnA_apply)
  have "appends (ints_result ([] @ [s] @ (if off > 0 then [off] else []) @
      (if d \<noteq> [] then [of_nat (length d)] else []) @ [])) (write_stream s off d fin)"
    unfolding write_stream_def Let_def
    by (intro appends_seq_ints o l appends_u8 appends_varint appends_slice)
  then show ?thesis
    by (simp only: frame_ints.simps append_Nil append_Nil2)
qed

lemma appends_write_connection_close:
  "appends (ints_result (frame_ints (ConnectionClose a t r))) (write_connection_close a t r)"
proof -
  have o: "appends (ints_result (case t of None \<Rightarrow> [] | Some x \<Rightarrow> [x]))
      (case t of Some x \<Rightarrow> put_frame_varint x | None \<Rightarrow> returnA ())"
    using appends_varint appends_return by (cases t) (simp_all del: returnA_apply)
  show ?thesis
    unfolding write_connection_close_def Let_def
    using appends_seq_ints [OF appends_u8 appends_seq_ints [OF appends_varint
        appends_seq_ints [OF o appends_varint_bytes]]]
    by (simp del: returnA_apply)
qed

lemma appends_write_ack_Cons:
  "appends (ints_result (frame_ints (Ack l d (r # rs) e))) (write_ack l d (r # rs) e)"
proof -
  have o: "appends (ints_result (case e of None \<Rightarrow> [] | Some c \<Rightarrow> [ect0 c, ect1 c, ecn_ce c]))
      (case e of None \<Rightarrow> returnA () | Some e \<Rightarrow> seqA (put_frame_varint (ect0 e)) (\<lambda>_.
         seqA (put_frame_varint (ect1 e)) (\<lambda>_. put_frame_varint (ecn_ce e))))"
    using appends_return appends_seq_ints [OF appends_varint
        appends_seq_ints [OF appends_varint appends_varint]]
    by (cases e) (simp_all del: returnA_apply)
  have s: "appends (ints_result ws) (seqA (liftA (slice_from (r # rs) 1)) k)"
    if "appends (ints_result ws) (k rs)" for ws k
    using that by (simp add: appends_def seqA_def slice_from_def)
  have "appends (ints_result ([] @ [l] @ [d] @ [of_nat (length (r # rs) - 1)] @ [ar_range r] @
      concat (map (\<lambda>r. [ar_gap r, ar_range r]) rs) @
      (case e of None \<Rightarrow> [] | Some c \<Rightarrow> [ect0 c, ect1 c, ecn_ce c]))) (write_ack l d (r # rs) e)"
    unfolding write_ack_def Let_def list.case
    by (intro appends_seq_ints s o appends_u8 appends_varint appends_ack_ranges)
  then show ?thesis by simp
qed

lemma appends_write_ack_Nil:
  "appends (andthen (ints_result [l, d]) (\<lambda>_. Panics)) (write_ack l d [] e)"
  by (auto simp: appends_def write_ack_def seqA_def put_frame_varint_cases ints_result_def
      slice_from_def VARINT_MAX_eq)

lemma appends_write_body: "appends (write_result f) (write_body f)"
proof (cases "ack_without_ranges f")
  case True
  then obtain l d e where "f = Ack l d [] e" by (cases f) auto
  with appends_write_ack_Nil [of l d e] show ?thesis
    by (simp add: write_result_def ints_result_def split: if_splits)
next
  case False
  then have w: "write_result f = ints_result (frame_ints f)"
    by (simp add: write_result_def ints_result_def split: option.split)
  show ?thesis
  proof (cases f)
    case (Ack l d rs e)
    with False obtain r rs' where "rs = r # rs'" by (cases rs) auto
    with Ack w appends_write_ack_Cons show ?thesis by (simp del: frame_ints.simps)
  next
    case (Stream s off d fin)
    with w appends_write_stream show ?thesis by (simp del: frame_ints.simps)
  next
    case (ConnectionClose a t r)
    with w appends_write_connection_close show ?thesis by (simp del: frame_ints.simps)
  next
    case (NewConnectionId a b c t)
    with w appends_seq_ints [OF appends_write_2 appends_seq_ints [OF appends_u8
        appends_seq_ints [OF appends_slice appends_slice]]]
    show ?thesis by simp
  next
    case (Crypto off d)
    with w appends_seq_ints [OF appends_write_1 appends_varint_bytes] show ?thesis by simp
  next
    case (NewToken d)
    with w appends_seq_ints [OF appends_u8 appends_varint_bytes] show ?thesis by simp
  next
    case (PathChallenge d)
    with w appends_seq_ints [OF appends_u8 appends_slice] show ?thesis by simp
  next
    case (PathResponse d)
    with w appends_seq_ints [OF appends_u8 appends_slice] show ?thesis by simp
  qed (use w appends_u8 appends_write_1 appends_write_2 appends_write_3 in simp_all)
qed

section \<open>Properties\<close>

lemma write_frame_append:
  assumes "frame_ok f"
  shows "snd (write_frame f buf) = buf @ frame_wire f"
  by (simp add: write_frame_ok [OF assms])

lemma frame_ok_typed: "frame_ok f \<Longrightarrow> frame_typed f"
  by (cases f) auto

text \<open>
  C9: a frame with representable fields is written by appending its bytes and returning their number,
  and \<open>parse_frame\<close> on these bytes, whatever follows them, returns the frame and that number. A STREAM
  frame without data is written without a length, so it must be the last thing in its buffer.
\<close>

theorem frame_roundtrip:
  assumes "frame_ok f" and "self_delimiting f \<or> rest = []"
  shows "\<exists>w. write_frame f buf = (Ok (length w), buf @ w) \<and> parse_frame (w @ rest) = Ok (f, length w)"
proof (cases "self_delimiting f")
  case True
  with assms(1) show ?thesis
    by (intro exI [of _ "frame_wire f"]) (simp add: write_frame_ok parse_frame_wire)
next
  case False
  then obtain s off fin where f: "f = Stream s off [] fin" by (cases f) auto
  have r: "rest = []" using False assms(2) by simp
  have "s \<le> VARINT_MAX" "off \<le> VARINT_MAX" using assms(1) by (simp_all add: f)
  from parse_frame_wire_open [OF this, of fin "[]"] assms(1) show ?thesis
    by (intro exI [of _ "frame_wire f"]) (simp add: f r write_frame_ok del: frame_wire.simps)
qed

theorem frame_roundtrip_witness:
  "(\<exists>w. write_frame (Stream 10 2048 [101, 110] True) [9] = (Ok (length w), [9] @ w) \<and>
      parse_frame (w @ [0, 0]) = Ok (Stream 10 2048 [101, 110] True, length w)) \<and>
   (\<exists>w. write_frame (Ack 200 10 [\<lparr>ar_gap = 0, ar_range = 3\<rparr>, \<lparr>ar_gap = 2, ar_range = 4\<rparr>] None) []
        = (Ok (length w), [] @ w) \<and>
      parse_frame (w @ []) =
        Ok (Ack 200 10 [\<lparr>ar_gap = 0, ar_range = 3\<rparr>, \<lparr>ar_gap = 2, ar_range = 4\<rparr>] None, length w))"
proof
  show "\<exists>w. write_frame (Stream 10 2048 [101, 110] True) [9] = (Ok (length w), [9] @ w) \<and>
      parse_frame (w @ [0, 0]) = Ok (Stream 10 2048 [101, 110] True, length w)"
    by (rule frame_roundtrip) (simp_all add: VARINT_MAX_eq length_ok_def)
  show "\<exists>w. write_frame (Ack 200 10 [\<lparr>ar_gap = 0, ar_range = 3\<rparr>, \<lparr>ar_gap = 2, ar_range = 4\<rparr>] None) []
        = (Ok (length w), [] @ w) \<and>
      parse_frame (w @ []) =
        Ok (Ack 200 10 [\<lparr>ar_gap = 0, ar_range = 3\<rparr>, \<lparr>ar_gap = 2, ar_range = 4\<rparr>] None, length w)"
    by (rule frame_roundtrip)
      (simp_all add: VARINT_MAX_eq ranges_ok_def range_ok_def ecn_ok_def isize_max_def)
qed

text \<open>
  A STREAM frame without data that is not the last of its buffer does not survive: the parser
  returns everything behind it as its data.
\<close>

theorem empty_stream_swallows_rest:
  assumes "s \<le> VARINT_MAX" and "off \<le> VARINT_MAX"
  shows "\<exists>w. write_frame (Stream s off [] fin) [] = (Ok (length w), w) \<and>
      parse_frame (w @ rest) = Ok (Stream s off rest fin, length w + length rest)"
  using parse_frame_wire_open [OF assms, of fin rest] assms
  by (intro exI [of _ "frame_wire (Stream s off [] fin)"])
    (simp add: write_frame_ok length_ok_def del: frame_wire.simps)

theorem empty_stream_swallows_rest_witness:
  "\<exists>w. write_frame (Stream 0 0 [] True) [] = (Ok (length w), w) \<and>
      parse_frame (w @ [1, 1]) = Ok (Stream 0 0 [1, 1] True, length w + length [1, 1 :: u8])"
  by (rule empty_stream_swallows_rest) (simp_all add: VARINT_MAX_eq)

text \<open>
  C10: a frame returned by \<open>parse_frame\<close> consumed at least one byte and no more than the buffer has;
  it has well-formed fields, \<open>write_frame\<close> accepts it, and what is written parses to it again, even
  when the input used longer encodings than necessary.
\<close>

theorem parse_frame_rewrites:
  assumes "parse_frame buf = Ok (f, n)" and "length buf < 2 ^ 62"
  shows "0 < n \<and> n \<le> length buf \<and> frame_typed f \<and>
    (\<exists>w. write_frame f [] = (Ok (length w), w) \<and> parse_frame w = Ok (f, length w))"
proof -
  note r = parse_frame_result [OF assms(1)]
  from r(3) [OF assms(2)] have f: "frame_ok f" .
  have "\<exists>w. write_frame f [] = (Ok (length w), w) \<and> parse_frame w = Ok (f, length w)"
  proof (cases "self_delimiting f")
    case True
    with f parse_frame_wire [of f "[]"] show ?thesis
      by (intro exI [of _ "frame_wire f"]) (simp add: write_frame_ok)
  next
    case False
    then obtain s off fin where e: "f = Stream s off [] fin" by (cases f) auto
    then have "s \<le> VARINT_MAX" "off \<le> VARINT_MAX" using f by simp_all
    from parse_frame_wire_open [OF this, of fin "[]"] f show ?thesis
      by (intro exI [of _ "frame_wire f"]) (simp add: e write_frame_ok del: frame_wire.simps)
  qed
  with r(1,2) frame_ok_typed [OF f] show ?thesis by blast
qed

theorem parse_frame_rewrites_witness:
  "\<exists>w. write_frame (ResetStream 4 123 4096) [] = (Ok (length w), w) \<and>
     parse_frame w = Ok (ResetStream 4 123 4096, length w)"
proof -
  have "parse_frame [4, 4, 0x40, 123, 0x50, 0] = Ok (ResetStream 4 123 4096, 6)"
    by (simp add: parse_frame_byte parse_body_def parse_3_def parse_2_def parse_1_def read_varint_def
        decode_def slice_from_def)
  from parse_frame_rewrites [OF this] show ?thesis by simp
qed

text \<open>
  C11: \<open>parse_frame\<close> panics on exactly one kind of input: an ACK frame (type 2 or 3 in the low byte of
  its type) whose range count asks \<open>Vec::with_capacity\<close> for more than \<open>isize::MAX\<close> bytes, whether or
  not the ranges are there.
\<close>

theorem parse_frame_panics_iff:
  "parse_frame buf = Panics \<longleftrightarrow>
     (\<exists>t k n. decode buf = Ok (t, k) \<and> (ucast t = (2 :: u8) \<or> ucast t = (3 :: u8)) \<and>
        ack_range_count (drop 1 buf) = Some n \<and> 2 ^ 59 - 1 \<le> unat n)" (is "_ \<longleftrightarrow> ?r")
proof (cases "decode buf")
  case (Inl e)
  then show ?thesis
    using decode_not_panic [of buf] by (cases e) (simp_all add: parse_frame_eq)
next
  case (Inr p)
  then obtain t k where d: "decode buf = Ok (t, k)" by (cases p) auto
  with decode_ok_bounds(1,3) [OF d] have b: "slice_from buf 1 = (Ok (drop 1 buf) :: (bytes, frame_error) result)"
    by (cases buf) (auto simp: slice_from_def)
  have cap: "isize_max < (unat n + 1) * 16 \<longleftrightarrow> 2 ^ 59 - 1 \<le> unat n" for n :: u64
    by (auto simp: isize_max_def)
  let ?body = "parse_body (ucast t) t (drop 1 buf)"
  have iff: "parse_frame buf = Panics \<longleftrightarrow> ?body = Panics"
    using d b by (cases ?body) (auto simp: parse_frame_eq)
  show ?thesis
  proof (cases "ucast t = (2 :: u8) \<or> ucast t = (3 :: u8)")
    case True
    then have "?body = Panics \<longleftrightarrow> \<not> clean (parse_ack t (drop 1 buf))"
      using clean_parse_ack(2) by (auto simp: parse_body_ack)
    with iff d True show ?thesis by (simp only: clean_parse_ack(1) cap) simp
  next
    case False
    then have "clean ?body" by (simp add: clean_parse_body)
    then have "?body \<noteq> Panics" by (auto simp: clean_def)
    with iff d False show ?thesis by auto
  qed
qed

text \<open>
  A datagram of thirteen bytes makes \<open>parse_frame\<close> panic: an ACK frame that announces
  \<open>2 ^ 62 - 1\<close> further ranges.
\<close>

theorem parse_frame_panics_on_ack:
  "parse_frame (0x02 # 0 # 0 # 0xff # 0xff # 0xff # 0xff # 0xff # 0xff # 0xff # 0xff # 0 # rest)
     = Panics"
  by (simp add: parse_frame_byte parse_body_def parse_ack_def read_varint_def decode_def
      slice_from_def with_capacity_def isize_max_def)

text \<open>
  The type of a frame is not checked as the comment in the code says: \<open>NonMinimalType\<close> is never
  returned, a type in a two-byte encoding and a type above 255 are taken for the type in their low
  byte, and then one byte is consumed instead of two.
\<close>

theorem frame_type_not_checked:
  "parse_frame buf \<noteq> Error (NonMinimalType t) \<and>
   parse_frame (0x40 # 0x01 # rest) = Ok (Ping, 1) \<and>
   decode (0x41 # 0x01 # rest) = Ok (257, 2) \<and> parse_frame (0x41 # 0x01 # rest) = Ok (Ping, 1)"
proof (intro conjI)
  show "parse_frame buf \<noteq> Error (NonMinimalType t)"
  proof
    assume "parse_frame buf = Error (NonMinimalType t)"
    then obtain u k body where "decode buf = Ok (u, k)"
      and b: "parse_body (ucast u) u body = Error (NonMinimalType t)"
      by (auto simp: parse_frame_eq result_dest slice_from_def split: if_splits)
    show False
    proof (cases "(ucast u :: u8) = 2 \<or> (ucast u :: u8) = 3")
      case True
      with b have "parse_ack u body = Error (NonMinimalType t)" by (simp add: parse_body_ack)
      moreover from this have "\<not> clean (parse_ack u body)" by simp
      ultimately show False using clean_parse_ack(2) by fastforce
    next
      case False
      then have "clean (parse_body (ucast u) u body)" by (simp add: clean_parse_body)
      with b show False by simp
    qed
  qed
qed (simp_all add: parse_frame_eq decode_def slice_from_def parse_body_def)

text \<open>
  C25: \<open>write_frame\<close> fails on the first integer above \<open>VARINT_MAX\<close>, panics on an ACK frame without
  ranges, and succeeds otherwise, returning by how much the buffer grew; in every case what was in
  the buffer before stays in front.
\<close>

theorem write_frame_outcome:
  "(case write_frame f buf of
      (Inl e, buf') \<Rightarrow> write_result f = Inl e \<and> prefix buf buf'
    | (Inr n, buf') \<Rightarrow> write_result f = Ok () \<and> prefix buf buf' \<and> n + length buf = length buf')"
proof -
  obtain r b where w: "write_body f buf = (r, b)" by (cases "write_body f buf")
  with appends_write_body [of f] have "write_result f = r" "prefix buf b"
    by (auto simp: appends_def dest: spec [of _ buf])
  then show ?thesis
    by (cases r) (simp_all add: write_frame_def w prefix_length_le)
qed

text \<open>
  The frame format is prefix-free: two frames that carry their own length and whose bytes agree,
  whatever is behind them, are the same frame.
\<close>

theorem frame_prefix_free:
  assumes "frame_ok f" and "frame_ok g" and "self_delimiting f" and "self_delimiting g"
    and "snd (write_frame f []) @ r = snd (write_frame g []) @ s"
  shows "f = g \<and> r = s"
  using frame_codec.prefix_free [of f g r s] assms by (simp add: write_frame_append)

theorem frame_prefix_free_witness:
  "MaxStreams True 100 = MaxStreams True 100 \<and> [7 :: u8] = [7]"
  by (rule frame_prefix_free) (simp_all add: VARINT_MAX_eq)

end
