(* ===== verification/Packet.thy ===== *)
theory Packet
  imports Frame
begin

text \<open>
  \<open>src/packet.rs\<close>: the long and the short packet header, their parsers and writers, and the
  reconstruction of a truncated packet number. The proofs are in the theory \<open>Packet_Proofs\<close>.
\<close>

section \<open>Constants, errors and header types\<close>

definition MAX_CID_LEN :: u8 where
  "MAX_CID_LEN = 20"

definition VERSION_1 :: u32 where
  "VERSION_1 = 0x00000001"

definition VERSION_2 :: u32 where
  "VERSION_2 = 0x6b3343cf"

definition VERSION_NEGOTIATION :: u32 where
  "VERSION_NEGOTIATION = 0x00000000"

text \<open>
  The variants \<open>BufferTooShort\<close>, \<open>InvalidCidLength\<close>, \<open>VarInt\<close> and \<open>Frame\<close> of \<open>PacketError\<close> have
  the prefix \<open>Pkt\<close>, the others keep their names.
\<close>

datatype packet_error =
    PktBufferTooShort nat nat
  | InvalidHeaderForm u8 u8
  | FixedBitNotSet
  | ReservedBitsSet
  | UnknownLongType u8
  | PktInvalidCidLength u8
  | PktVarInt varint_error
  | PktFrame frame_error

datatype long_type = Initial | ZeroRtt | Handshake | Retry | VersionNegotiation

definition long_type_from_bits :: "u8 \<Rightarrow> long_type option" where
  "long_type_from_bits bits =
     (if bits = 0 then Some Initial
      else if bits = 1 then Some ZeroRtt
      else if bits = 2 then Some Handshake
      else if bits = 3 then Some Retry
      else None)"

fun long_type_to_bits :: "long_type \<Rightarrow> u8" where
  "long_type_to_bits Initial = 0"
| "long_type_to_bits ZeroRtt = 1"
| "long_type_to_bits Handshake = 2"
| "long_type_to_bits Retry = 3"
| "long_type_to_bits VersionNegotiation = 0"

record long_header =
  lh_ty :: long_type
  lh_version :: u32
  lh_dst_cid :: connection_id
  lh_src_cid :: connection_id
  lh_token :: "bytes option"
  lh_length :: "varint option"
  lh_truncated_pn :: "u32 option"
  lh_pn_len :: "u8 option"

record short_header =
  sh_spin :: bool
  sh_key_phase :: bool
  sh_dst_cid :: connection_id
  sh_truncated_pn :: u32
  sh_pn_len :: u8

text \<open>The variants of \<open>PacketNumberSpace\<close>; the first two end in \<open>Space\<close>.\<close>

datatype packet_number_space = InitialSpace | HandshakeSpace | ApplicationData

section \<open>Parsing\<close>

definition ensure :: "bytes \<Rightarrow> nat \<Rightarrow> (unit, packet_error) result" where
  "ensure buf need =
     (if length buf < need then Error (PktBufferTooShort need (length buf)) else Ok ())"

definition read_pn :: "bytes \<Rightarrow> u8 \<Rightarrow> (u32, packet_error) result" where
  "read_pn buf len =
     (if len = 1 then andthen (index_at buf 0) (\<lambda>b0. Ok (ucast b0))
      else if len = 2 then
        andthen (index_at buf 0) (\<lambda>b0.
        andthen (index_at buf 1) (\<lambda>b1. Ok (ucast (be16 b0 b1))))
      else if len = 3 then
        andthen (index_at buf 0) (\<lambda>b0.
        andthen (index_at buf 1) (\<lambda>b1.
        andthen (index_at buf 2) (\<lambda>b2. Ok (be32 0 b0 b1 b2))))
      else if len = 4 then
        andthen (index_at buf 0) (\<lambda>b0.
        andthen (index_at buf 1) (\<lambda>b1.
        andthen (index_at buf 2) (\<lambda>b2.
        andthen (index_at buf 3) (\<lambda>b3. Ok (be32 b0 b1 b2 b3)))))
      else Ok 0)"

definition new_cid :: "bytes \<Rightarrow> (connection_id, packet_error) result" where
  "new_cid bs = map_err PktFrame (connection_id_new bs)"

definition parse_version_negotiation :: "bytes \<Rightarrow> (long_header \<times> nat, packet_error) result" where
  "parse_version_negotiation buf =
     andthen (ensure buf 6) (\<lambda>_.
     andthen (index_at buf 5) (\<lambda>b5.
     let dst_cid_len = unat b5 in
     if dst_cid_len > 255 then Error (PktInvalidCidLength (of_nat dst_cid_len))
     else
       let dst_cid_start = 6 in
       andthen (ensure buf (dst_cid_start + dst_cid_len + 1)) (\<lambda>_.
       andthen (slice buf dst_cid_start (dst_cid_start + dst_cid_len)) (\<lambda>d.
       andthen (new_cid d) (\<lambda>dst_cid.
       let src_cid_start = dst_cid_start + dst_cid_len in
       andthen (index_at buf src_cid_start) (\<lambda>bs.
       let src_cid_len = unat bs; data_start = src_cid_start + 1 in
       andthen (ensure buf (data_start + src_cid_len)) (\<lambda>_.
       let header_end = data_start + src_cid_len in
       andthen (slice buf data_start (data_start + src_cid_len)) (\<lambda>s.
       andthen (new_cid s) (\<lambda>src_cid.
       Ok (\<lparr>lh_ty = VersionNegotiation, lh_version = VERSION_NEGOTIATION,
            lh_dst_cid = dst_cid, lh_src_cid = src_cid, lh_token = None, lh_length = None,
            lh_truncated_pn = None, lh_pn_len = None\<rparr>, header_end))))))))))"

text \<open>The connection IDs of a long header: both, and the position behind them.\<close>

definition parse_long_cids ::
  "bytes \<Rightarrow> (connection_id \<times> connection_id \<times> nat, packet_error) result" where
  "parse_long_cids buf =
     andthen (ensure buf 6) (\<lambda>_.
     andthen (index_at buf 5) (\<lambda>b5.
     let dst_cid_len = unat b5 in
     if dst_cid_len > unat MAX_CID_LEN then Error (PktInvalidCidLength (of_nat dst_cid_len))
     else
       let dst_cid_start = 6 in
       andthen (ensure buf (dst_cid_start + dst_cid_len + 1)) (\<lambda>_.
       andthen (slice buf dst_cid_start (dst_cid_start + dst_cid_len)) (\<lambda>d.
       andthen (new_cid d) (\<lambda>dst_cid.
       let src_cid_start = dst_cid_start + dst_cid_len in
       andthen (index_at buf src_cid_start) (\<lambda>bs.
       let src_cid_len = unat bs in
       if src_cid_len > unat MAX_CID_LEN then Error (PktInvalidCidLength (of_nat src_cid_len))
       else
         let data_start = src_cid_start + 1 in
         andthen (ensure buf (data_start + src_cid_len)) (\<lambda>_.
         andthen (slice buf data_start (data_start + src_cid_len)) (\<lambda>s.
         andthen (new_cid s) (\<lambda>src_cid.
         Ok (dst_cid, src_cid, data_start + src_cid_len))))))))))"

text \<open>The token of an Initial packet, from position \<open>pos\<close>.\<close>

definition parse_token ::
  "long_type \<Rightarrow> bytes \<Rightarrow> nat \<Rightarrow> (bytes option \<times> nat, packet_error) result" where
  "parse_token ty buf pos =
     (if ty = Initial then
        andthen (slice_from buf pos) (\<lambda>r.
        andthen (map_err PktVarInt (decode r)) (\<lambda>(token_len, n).
        let pos = pos + n; tlen = unat token_len in
        andthen (ensure buf (pos + tlen)) (\<lambda>_.
        andthen (slice buf pos (pos + tlen)) (\<lambda>tok. Ok (Some tok, pos + tlen)))))
      else Ok (None, pos))"

text \<open>The rest of a long header, from the position behind the connection IDs.\<close>

definition parse_long_rest ::
  "long_type \<Rightarrow> u32 \<Rightarrow> connection_id \<Rightarrow> connection_id \<Rightarrow> u8 \<Rightarrow> bytes \<Rightarrow> nat \<Rightarrow>
     (long_header \<times> nat, packet_error) result" where
  "parse_long_rest ty version dst_cid src_cid pn_len_bits buf pos =
     andthen (parse_token ty buf pos) (\<lambda>(token, pos).
     if ty = Retry then
       Ok (\<lparr>lh_ty = ty, lh_version = version, lh_dst_cid = dst_cid, lh_src_cid = src_cid,
            lh_token = None, lh_length = None, lh_truncated_pn = None, lh_pn_len = None\<rparr>, pos)
     else
       andthen (slice_from buf pos) (\<lambda>r.
       andthen (map_err PktVarInt (decode r)) (\<lambda>(len, n).
       let pos = pos + n; pn_len = pn_len_bits + 1 in
       andthen (ensure buf (pos + unat pn_len)) (\<lambda>_.
       andthen (slice_from buf pos) (\<lambda>r.
       andthen (read_pn r pn_len) (\<lambda>truncated_pn.
       Ok (\<lparr>lh_ty = ty, lh_version = version, lh_dst_cid = dst_cid, lh_src_cid = src_cid,
            lh_token = token, lh_length = Some len, lh_truncated_pn = Some truncated_pn,
            lh_pn_len = Some pn_len\<rparr>, pos + unat pn_len)))))))"

definition parse_long_header :: "bytes \<Rightarrow> (long_header \<times> nat, packet_error) result" where
  "parse_long_header buf =
     andthen (ensure buf 1) (\<lambda>_.
     andthen (index_at buf 0) (\<lambda>first.
     if first AND 0x80 = 0 then Error (InvalidHeaderForm 1 0)
     else
       let fixed = (first AND 0x40 \<noteq> 0);
           type_bits = drop_bit 4 first AND 0x03;
           pn_len_bits = first AND 0x03 in
       andthen (ensure buf 5) (\<lambda>_.
       andthen (index_at buf 1) (\<lambda>b1.
       andthen (index_at buf 2) (\<lambda>b2.
       andthen (index_at buf 3) (\<lambda>b3.
       andthen (index_at buf 4) (\<lambda>b4.
       let version = be32 b1 b2 b3 b4 in
       if version = VERSION_NEGOTIATION then parse_version_negotiation buf
       else
         andthen (ok_or (UnknownLongType type_bits) (long_type_from_bits type_bits)) (\<lambda>ty.
         if \<not> fixed then Error FixedBitNotSet
         else
           andthen (parse_long_cids buf) (\<lambda>(dst_cid, src_cid, pos).
           parse_long_rest ty version dst_cid src_cid pn_len_bits buf pos)))))))))"

definition parse_short_header :: "bytes \<Rightarrow> nat \<Rightarrow> (short_header \<times> nat, packet_error) result" where
  "parse_short_header buf dst_cid_len =
     andthen (ensure buf 1) (\<lambda>_.
     andthen (index_at buf 0) (\<lambda>first.
     if first AND 0x80 \<noteq> 0 then Error (InvalidHeaderForm 0 1)
     else if first AND 0x40 = 0 then Error FixedBitNotSet
     else
       let spin = (first AND 0x20 \<noteq> 0);
           reserved = drop_bit 3 first AND 0x03 in
       if reserved \<noteq> 0 then Error ReservedBitsSet
       else
         let key_phase = (first AND 0x04 \<noteq> 0);
             pn_len_bits = first AND 0x03 in
         if pn_len_bits = 0 then Error ReservedBitsSet
         else
           let pn_len = pn_len_bits in
           andthen (ensure buf (1 + dst_cid_len)) (\<lambda>_.
           andthen (slice buf 1 (1 + dst_cid_len)) (\<lambda>d.
           andthen (new_cid d) (\<lambda>dst_cid.
           let pos = 1 + dst_cid_len in
           andthen (ensure buf (pos + unat pn_len)) (\<lambda>_.
           andthen (slice_from buf pos) (\<lambda>r.
           andthen (read_pn r pn_len) (\<lambda>truncated_pn.
           Ok (\<lparr>sh_spin = spin, sh_key_phase = key_phase, sh_dst_cid = dst_cid,
                sh_truncated_pn = truncated_pn, sh_pn_len = pn_len\<rparr>, pos + unat pn_len)))))))))"

section \<open>Packet numbers\<close>

text \<open>
  Arithmetic is that of \<open>u64\<close>, which wraps in a release build; a shift takes its amount modulo 64.
\<close>

definition decode_packet_number :: "u64 \<Rightarrow> u64 \<Rightarrow> u8 \<Rightarrow> u64" where
  "decode_packet_number largest_known truncated pn_len =
     (let expected = largest_known + 1;
          win = push_bit (unat (pn_len * 8) mod 64) 1;
          half = win div 2;
          msk = win - 1;
          candidate = (expected AND NOT msk) OR truncated in
      if candidate + half \<le> expected then candidate + win
      else if candidate > expected + half \<and> candidate > win then candidate - win
      else candidate)"

section \<open>Writing\<close>

text \<open>
  \<open>put_all\<close> is \<open>put_u8\<close>, \<open>put_u32\<close>, \<open>put_slice\<close> and \<open>put_bytes\<close> on a \<open>Vec\<close>: each appends.
\<close>

definition put_all :: "bytes \<Rightarrow> (bytes, unit, packet_error) act" where
  "put_all bs buf = (Ok (), buf @ bs)"

definition put_header_varint :: "varint \<Rightarrow> (bytes, unit, packet_error) act" where
  "put_header_varint v buf = (case put_varint v buf of (r, buf') \<Rightarrow> (map_err PktVarInt r, buf'))"

definition write_long_fields :: "long_header \<Rightarrow> (bytes, unit, packet_error) act" where
  "write_long_fields hdr =
     (let first = 0x80 OR 0x40 OR push_bit 4 (long_type_to_bits (lh_ty hdr)) OR
                  (case lh_pn_len hdr of None \<Rightarrow> 0 | Some l \<Rightarrow> l - 1) in
      seqA (put_all [first]) (\<lambda>_.
      seqA (put_all (to_be32 (lh_version hdr))) (\<lambda>_.
      seqA (put_all [of_nat (length (cid_bytes (lh_dst_cid hdr)))]) (\<lambda>_.
      seqA (put_all (cid_bytes (lh_dst_cid hdr))) (\<lambda>_.
      seqA (put_all [of_nat (length (cid_bytes (lh_src_cid hdr)))]) (\<lambda>_.
      seqA (put_all (cid_bytes (lh_src_cid hdr))) (\<lambda>_.
      seqA (case lh_token hdr of
              None \<Rightarrow> returnA ()
            | Some token \<Rightarrow>
                seqA (put_header_varint (of_nat (length token))) (\<lambda>_. put_all token)) (\<lambda>_.
      seqA (case lh_length hdr of None \<Rightarrow> returnA () | Some len \<Rightarrow> put_header_varint len) (\<lambda>_.
      case lh_pn_len hdr of
        None \<Rightarrow> returnA ()
      | Some pn_len \<Rightarrow> put_all (replicate (unat pn_len) 0))))))))))"

definition write_long_header :: "long_header \<Rightarrow> (bytes, nat, packet_error) act" where
  "write_long_header hdr buf = (case write_long_fields hdr buf of
       (Inl e, buf') \<Rightarrow> (Inl e, buf')
     | (Inr _, buf') \<Rightarrow> (Ok (length buf' - length buf), buf'))"

definition write_short_fields :: "short_header \<Rightarrow> (bytes, unit, packet_error) act" where
  "write_short_fields hdr =
     (let first = 0x40 OR (if sh_spin hdr then 0x20 else 0) OR
                  (if sh_key_phase hdr then 0x04 else 0) OR sh_pn_len hdr in
      seqA (put_all [first]) (\<lambda>_.
      seqA (put_all (cid_bytes (sh_dst_cid hdr))) (\<lambda>_.
      put_all (replicate (unat (sh_pn_len hdr)) 0))))"

definition write_short_header :: "short_header \<Rightarrow> (bytes, nat, packet_error) act" where
  "write_short_header hdr buf = (case write_short_fields hdr buf of
       (Inl e, buf') \<Rightarrow> (Inl e, buf')
     | (Inr _, buf') \<Rightarrow> (Ok (length buf' - length buf), buf'))"

end
