(* ===== verification/Packet_Proofs.thy ===== *)
theory Packet_Proofs
  imports Packet
begin

text \<open>
  Proofs about packet headers and packet numbers: a written header parses back, parsing any bytes
  gives a header inside the buffer or one of the listed errors and never panics, and a truncated
  packet number is completed to the number the sender used.
\<close>

section \<open>Packet numbers\<close>

lemma nat_low_or:
  fixes m t :: nat
  assumes "t < 2 ^ k"
  shows "push_bit k m OR t = push_bit k m + t"
proof (rule disjunctive_add_eq_or [symmetric], rule bit_eqI)
  fix n
  have "\<not> bit t n" if "k \<le> n"
    using assms that by (metis bit_take_bit_iff not_le take_bit_nat_eq_self)
  then show "bit (push_bit k m AND t) n = bit (0 :: nat) n"
    by (auto simp: bit_simps)
qed

lemma replace_low_bits:
  fixes e t :: "'a::len word"
  assumes t: "unat t < 2 ^ k" and k: "k < LENGTH('a)"
  shows "unat ((e AND NOT (2 ^ k - 1)) OR t) = unat e div 2 ^ k * 2 ^ k + unat t"
proof -
  have "(e AND NOT (2 ^ k - 1)) OR t = push_bit k (drop_bit k e) OR t"
    by (rule bit_word_eqI) (auto simp: bit_simps simp flip: mask_eq_decr_exp)
  also have "unat \<dots> = unat (push_bit k (drop_bit k e)) OR unat t"
    by (simp add: unsigned_or_eq)
  also have "unat (push_bit k (drop_bit k e)) = push_bit k (drop_bit k (unat e))"
    by (rule bit_eqI) (auto simp: bit_simps dest: bit_imp_le_length)
  also have "\<dots> OR unat t = push_bit k (drop_bit k (unat e)) + unat t"
    using t by (rule nat_low_or)
  also have "push_bit k (drop_bit k (unat e)) = unat e div 2 ^ k * 2 ^ k"
    by (simp add: push_bit_eq_mult drop_bit_eq_div)
  finally show ?thesis .
qed

text \<open>
  The reference: the pseudo-code of RFC 9000, appendix A.3, on unbounded numbers. \<open>pn_nbits\<close> is the
  number of bits of the truncated number.
\<close>

definition rfc_decode_pn :: "nat \<Rightarrow> nat \<Rightarrow> nat \<Rightarrow> nat" where
  "rfc_decode_pn largest_pn truncated_pn pn_nbits =
     (let expected_pn = largest_pn + 1;
          pn_win = 2 ^ pn_nbits;
          pn_hwin = pn_win div 2;
          candidate_pn = expected_pn div pn_win * pn_win + truncated_pn in
      if candidate_pn + pn_hwin \<le> expected_pn \<and> candidate_pn + pn_win < 2 ^ 62
      then candidate_pn + pn_win
      else if candidate_pn > expected_pn + pn_hwin \<and> candidate_pn \<ge> pn_win
      then candidate_pn - pn_win
      else candidate_pn)"

definition pn_len_ok :: "u8 \<Rightarrow> bool" where
  "pn_len_ok n \<longleftrightarrow> n \<in> {1, 2, 3, 4}"

lemma pn_win_facts:
  assumes "pn_len_ok n"
  shows "push_bit (unat (n * 8) mod 64) (1 :: u64) = 2 ^ (8 * unat n)" and "8 * unat n \<in> {8, 16, 24, 32}"
  using assms by (auto simp: pn_len_ok_def)

lemma unat_add_small: "unat x + unat y < 2 ^ LENGTH('a) \<Longrightarrow> unat (x + y :: 'a::len word) = unat x + unat y"
  by (simp add: unat_word_ariths)

lemma unat_half_win: "k \<in> {8, 16, 24, 32} \<Longrightarrow> unat (2 ^ k div 2 :: u64) = 2 ^ k div 2"
  by auto

lemma decode_pn_nat:
  assumes n: "pn_len_ok n" and t: "unat t < 2 ^ (8 * unat n)"
    and l: "unat largest + 2 ^ (8 * unat n) < 2 ^ 62"
  shows "unat (decode_packet_number largest t n) = rfc_decode_pn (unat largest) (unat t) (8 * unat n)"
proof -
  define k where "k = 8 * unat n"
  have k: "k \<in> {8, 16, 24, 32}" and k64: "k < 64" using pn_win_facts(2) [OF n] by (auto simp: k_def)
  define e where "e = largest + 1"
  define c where "c = (e AND NOT (2 ^ k - 1)) OR t"
  have win: "unat (2 ^ k :: u64) = 2 ^ k" using k64 by (simp add: unat_pow2)
  have half: "unat (2 ^ k div 2 :: u64) = 2 ^ k div 2" by (rule unat_half_win [OF k])
  have t': "unat t < 2 ^ k" and l': "unat largest + 2 ^ k < 2 ^ 62" using t l by (simp_all add: k_def)
  have e: "unat e = unat largest + 1"
    unfolding e_def using l' by (subst unat_add_small) simp_all
  have c: "unat c = unat e div 2 ^ k * 2 ^ k + unat t"
    unfolding c_def using t' k64 by (intro replace_low_bits) simp_all
  have c_less: "unat c < unat e + 2 ^ k"
    unfolding c using t' div_mult_mod_eq [of "unat e" "2 ^ k"] by linarith
  have w: "(2 :: nat) ^ k \<in> {256, 65536, 16777216, 4294967296}" using k by auto
  have sums: "unat (c + 2 ^ k div 2) = unat c + 2 ^ k div 2" "unat (e + 2 ^ k div 2) = unat e + 2 ^ k div 2"
    using c_less l' e w by (subst unat_add_small; auto simp: half)+
  have sum2: "unat (c + 2 ^ k) = unat c + 2 ^ k"
    using c_less l' e w by (subst unat_add_small) (auto simp: win)
  have D: "decode_packet_number largest t n =
      (if c + 2 ^ k div 2 \<le> e then c + 2 ^ k
       else if c > e + 2 ^ k div 2 \<and> c > 2 ^ k then c - 2 ^ k else c)"
    unfolding decode_packet_number_def Let_def pn_win_facts(1) [OF n] c_def e_def k_def by (rule refl)
  have R: "rfc_decode_pn (unat largest) (unat t) k =
      (if unat c + 2 ^ k div 2 \<le> unat e \<and> unat c + 2 ^ k < 2 ^ 62 then unat c + 2 ^ k
       else if unat c > unat e + 2 ^ k div 2 \<and> unat c \<ge> 2 ^ k then unat c - 2 ^ k else unat c)"
    by (simp add: rfc_decode_pn_def Let_def c e)
  show ?thesis
  proof (cases "unat c + 2 ^ k div 2 \<le> unat e")
    case True
    then have "unat c + 2 ^ k < 2 ^ 62" using l' e w by auto
    with True show ?thesis
      by (simp add: D R sums word_le_nat_alt sum2 flip: k_def)
  next
    case False
    have ne: "unat c \<noteq> 2 ^ k" if "unat c > unat e + 2 ^ k div 2"
    proof
      assume "unat c = 2 ^ k"
      with that have "unat e < 2 ^ k" by linarith
      with c t' \<open>unat c = 2 ^ k\<close> show False by simp
    qed
    with False show ?thesis
      by (auto simp: D R sums word_le_nat_alt word_less_nat_alt win unat_sub simp flip: k_def)
  qed
qed

lemma rfc_decode_window:
  assumes k: "0 < k" and lo: "largest + 1 < pn + 2 ^ k div 2" and hi: "pn \<le> largest + 1 + 2 ^ k div 2"
    and "pn < 2 ^ 62"
  shows "rfc_decode_pn largest (pn mod 2 ^ k) k = pn"
proof -
  define w where "w = (2 :: nat) ^ k"
  define h where "h = w div 2"
  define Q where "Q = (largest + 1) div w"
  define q where "q = pn div w"
  have w: "w = 2 * h" "0 < h"
    using k by (cases k; simp add: h_def w_def)+
  have pn: "pn = q * w + pn mod w" "pn mod w < w"
    unfolding q_def using w div_mult_mod_eq [of pn w] by simp_all
  have e: "Q * w \<le> largest + 1" "largest + 1 < (Q + 1) * w"
    unfolding Q_def using w div_mult_mod_eq [of "largest + 1" w] mod_less_divisor [of w "largest + 1"]
    by (simp_all add: algebra_simps del: mod_less_divisor)
  have lo': "largest + 1 < pn + h" and hi': "pn \<le> largest + 1 + h"
    using lo hi by (simp_all add: w_def h_def)
  have "\<not> Q + 2 \<le> q"
  proof
    assume "Q + 2 \<le> q"
    then have "(Q + 2) * w \<le> q * w" by (rule mult_le_mono1)
    with pn e(2) hi' w show False unfolding add_mult_distrib by linarith
  qed
  moreover have "\<not> q + 2 \<le> Q"
  proof
    assume "q + 2 \<le> Q"
    then have "(q + 2) * w \<le> Q * w" by (rule mult_le_mono1)
    with pn e(1) lo' w show False unfolding add_mult_distrib by linarith
  qed
  moreover have R: "rfc_decode_pn largest (pn mod w) k =
      (if Q * w + pn mod w + h \<le> largest + 1 \<and> Q * w + pn mod w + w < 2 ^ 62 then Q * w + pn mod w + w
       else if Q * w + pn mod w > largest + 1 + h \<and> Q * w + pn mod w \<ge> w then Q * w + pn mod w - w
       else Q * w + pn mod w)"
    unfolding rfc_decode_pn_def Let_def w_def h_def Q_def by (rule refl)
  ultimately consider "q = Q" | "q = Q + 1" | "Q = q + 1" by linarith
  then have "rfc_decode_pn largest (pn mod w) k = pn"
  proof cases
    case 1
    then have "Q * w + pn mod w = pn" using pn by simp
    then show ?thesis
      using lo' hi' by (simp add: R)
  next
    case 2
    then have pn': "Q * w + pn mod w + w = pn" using pn by (simp add: algebra_simps)
    have "Q * w + pn mod w + h \<le> largest + 1" using pn' hi' w by linarith
    then show ?thesis using pn' \<open>pn < 2 ^ 62\<close> by (simp only: R) simp
  next
    case 3
    then have pn': "Q * w + pn mod w = pn + w" using pn by (simp add: algebra_simps)
    have "\<not> Q * w + pn mod w + h \<le> largest + 1" "Q * w + pn mod w > largest + 1 + h"
      using pn' lo' w by linarith+
    then show ?thesis using pn' by (simp only: R) simp
  qed
  then show ?thesis by (simp add: w_def)
qed

section \<open>Long headers\<close>

lemma put_all_apply [simp]: "put_all bs buf = (Ok (), buf @ bs)"
  by (simp add: put_all_def)

lemma put_header_varint_ok [simp]:
  "v \<le> VARINT_MAX \<Longrightarrow> put_header_varint v buf = (Ok (), buf @ varint_bytes v)"
  by (simp add: put_header_varint_def put_varint_ok)

text \<open>Well-formed long headers: the fields each packet type has, within their ranges.\<close>

definition cid_ok :: "connection_id \<Rightarrow> bool" where
  "cid_ok c \<longleftrightarrow> length (cid_bytes c) \<le> 20"

fun token_ok :: "long_type \<Rightarrow> bytes option \<Rightarrow> bool" where
  "token_ok ty None = (ty \<noteq> Initial)"
| "token_ok ty (Some t) = (ty = Initial \<and> length t < 2 ^ 62)"

fun number_ok :: "long_type \<Rightarrow> varint option \<Rightarrow> u32 option \<Rightarrow> u8 option \<Rightarrow> bool" where
  "number_ok ty None None None = (ty = Retry)"
| "number_ok ty (Some l) (Some p) (Some n) = (ty \<noteq> Retry \<and> l \<le> VARINT_MAX \<and> pn_len_ok n)"
| "number_ok ty l p n = False"

definition long_header_ok :: "long_header \<Rightarrow> bool" where
  "long_header_ok h \<longleftrightarrow>
     lh_ty h \<noteq> VersionNegotiation \<and> lh_version h \<noteq> VERSION_NEGOTIATION \<and>
     cid_ok (lh_dst_cid h) \<and> cid_ok (lh_src_cid h) \<and> token_ok (lh_ty h) (lh_token h) \<and>
     number_ok (lh_ty h) (lh_length h) (lh_truncated_pn h) (lh_pn_len h)"

definition sized_cid :: "connection_id \<Rightarrow> bytes" where
  "sized_cid c = of_nat (length (cid_bytes c)) # cid_bytes c"

definition long_first :: "long_type \<Rightarrow> u8 option \<Rightarrow> u8" where
  "long_first ty pn_len = 0x80 OR 0x40 OR push_bit 4 (long_type_to_bits ty) OR
     (case pn_len of None \<Rightarrow> 0 | Some l \<Rightarrow> l - 1)"

definition token_wire :: "bytes option \<Rightarrow> bytes" where
  "token_wire t = (case t of None \<Rightarrow> [] | Some t \<Rightarrow> varint_bytes (of_nat (length t)) @ t)"

definition length_wire :: "varint option \<Rightarrow> bytes" where
  "length_wire l = (case l of None \<Rightarrow> [] | Some l \<Rightarrow> varint_bytes l)"

definition pn_wire :: "u8 option \<Rightarrow> bytes" where
  "pn_wire n = (case n of None \<Rightarrow> [] | Some n \<Rightarrow> replicate (unat n) 0)"

definition long_wire :: "long_header \<Rightarrow> bytes" where
  "long_wire h = long_first (lh_ty h) (lh_pn_len h) # to_be32 (lh_version h) @
     sized_cid (lh_dst_cid h) @ sized_cid (lh_src_cid h) @
     token_wire (lh_token h) @ length_wire (lh_length h) @ pn_wire (lh_pn_len h)"

lemma of_nat_token [simp]: "n < 2 ^ 62 \<Longrightarrow> (of_nat n :: u64) \<le> VARINT_MAX"
  by (simp add: VARINT_MAX_unat unsigned_of_nat take_bit_nat_eq_self)

lemma unat_of_nat_token [simp]: "n < 2 ^ 62 \<Longrightarrow> unat (of_nat n :: u64) = n"
  by (simp add: unsigned_of_nat take_bit_nat_eq_self)

lemma write_long_header_ok:
  assumes "long_header_ok h"
  shows "write_long_header h buf = (Ok (length (long_wire h)), buf @ long_wire h)"
proof -
  have "write_long_fields h buf = (Ok (), buf @ long_wire h)"
    using assms
    by (cases "lh_token h"; cases "lh_length h"; cases "lh_pn_len h"; cases "lh_truncated_pn h")
      (simp_all add: write_long_fields_def seqA_def Let_def long_wire_def long_first_def sized_cid_def
        token_wire_def length_wire_def pn_wire_def long_header_ok_def)
  then show ?thesis by (simp add: write_long_header_def)
qed

subsection \<open>A written long header parses back\<close>

lemma ensure_ok [simp]: "n \<le> length buf \<Longrightarrow> ensure buf n = Ok ()"
  by (simp add: ensure_def)

lemma new_cid_ok [simp]: "cid_ok c \<Longrightarrow> new_cid (cid_bytes c) = Ok c"
  by (simp add: new_cid_def connection_id_new_def cid_ok_def)

lemma index_at_mid [simp]: "length p = i \<Longrightarrow> index_at (p @ b # r) i = Ok b"
  by (auto simp: index_at_def)

lemma unat_cid_len: "n \<le> 20 \<Longrightarrow> unat (of_nat n :: u8) = n"
  by (simp add: unsigned_of_nat take_bit_nat_eq_self)

lemma parse_long_cids_ok:
  assumes "length p = 5" and d: "cid_ok d" and s: "cid_ok s"
  shows "parse_long_cids (p @ sized_cid d @ sized_cid s @ tail) =
     Ok (d, s, 7 + length (cid_bytes d) + length (cid_bytes s))"
proof -
  let ?buf = "p @ sized_cid d @ sized_cid s @ tail"
  have l: "length (cid_bytes d) \<le> 20" "length (cid_bytes s) \<le> 20" using d s by (simp_all add: cid_ok_def)
  have i5: "index_at ?buf 5 = (Ok (of_nat (length (cid_bytes d))) :: (u8, packet_error) result)"
    using assms(1) by (simp add: sized_cid_def)
  have sd: "slice ?buf 6 (6 + length (cid_bytes d)) = (Ok (cid_bytes d) :: (bytes, packet_error) result)"
    using slice_mid [of "p @ [of_nat (length (cid_bytes d))]" 6 "cid_bytes d" _ "sized_cid s @ tail"]
      assms(1) by (simp add: sized_cid_def)
  have i_s: "index_at ?buf (6 + length (cid_bytes d)) =
      (Ok (of_nat (length (cid_bytes s))) :: (u8, packet_error) result)"
    using index_at_mid [of "p @ sized_cid d" "6 + length (cid_bytes d)" _ "cid_bytes s @ tail"]
      assms(1) by (simp add: sized_cid_def)
  have ss: "slice ?buf (7 + length (cid_bytes d)) (7 + length (cid_bytes d) + length (cid_bytes s)) =
      (Ok (cid_bytes s) :: (bytes, packet_error) result)"
    using slice_mid [of "p @ sized_cid d @ [of_nat (length (cid_bytes s))]" "7 + length (cid_bytes d)"
        "cid_bytes s" _ tail]
      assms(1) by (simp add: sized_cid_def)
  have "length ?buf \<ge> 7 + length (cid_bytes d) + length (cid_bytes s)"
    using assms(1) by (simp add: sized_cid_def)
  then show ?thesis
    using l i5 sd i_s ss d s
    by (simp add: parse_long_cids_def Let_def unat_cid_len MAX_CID_LEN_def)
qed

lemma parse_token_ok:
  assumes "token_ok ty t" and "length p = pos"
  shows "parse_token ty (p @ token_wire t @ tail) pos = Ok (t, pos + length (token_wire t))"
proof (cases t)
  case None
  with assms show ?thesis by (simp add: parse_token_def token_wire_def)
next
  case (Some tok)
  with assms have tok: "ty = Initial" "length tok < 2 ^ 62" by simp_all
  let ?v = "varint_bytes (of_nat (length tok))"
  have s: "slice_from (p @ token_wire t @ tail) pos = (Ok (?v @ tok @ tail) :: (bytes, packet_error) result)"
    using assms(2) Some by (simp add: slice_from_def token_wire_def)
  have b: "slice (p @ token_wire t @ tail) (pos + encoded_len (of_nat (length tok)))
      (pos + encoded_len (of_nat (length tok)) + length tok) = (Ok tok :: (bytes, packet_error) result)"
    using slice_mid [of "p @ ?v" "pos + encoded_len (of_nat (length tok))" tok _ tail] assms(2) Some
        by (simp add: token_wire_def)
  have "length (p @ token_wire t @ tail) \<ge> pos + encoded_len (of_nat (length tok)) + length tok"
    using assms(2) Some by (simp add: token_wire_def)
  then show ?thesis
    using tok s b Some
    by (simp add: parse_token_def decode_varint_bytes Let_def) (simp add: token_wire_def)
qed

lemma read_pn_total:
  assumes "pn_len_ok n" and "unat n \<le> length buf"
  shows "\<exists>t. read_pn buf n = Ok t"
  using assms by (auto simp: pn_len_ok_def read_pn_def index_at_def)

lemma read_pn_zeros: "pn_len_ok n \<Longrightarrow> read_pn (replicate (unat n) 0 @ r) n = Ok 0"
  by (auto simp: pn_len_ok_def read_pn_def index_at_def be32_def be16_def nth_append)

lemma long_head_bytes:
  fixes first :: u8
  shows "index_at (first # to_be32 v @ r) 0 = Ok first" "index_at (first # to_be32 v @ r) 1 =
      Ok (ucast (drop_bit 24 v))"
    "index_at (first # to_be32 v @ r) 2 = Ok (ucast (drop_bit 16 v))"
    "index_at (first # to_be32 v @ r) 3 = Ok (ucast (drop_bit 8 v))" "index_at (first # to_be32 v @ r) 4 = Ok (ucast v)"
  by (simp_all add: index_at_def to_be32_def nth_Cons')

lemma be32_parts: "be32 (ucast (drop_bit 24 v)) (ucast (drop_bit 16 v)) (ucast (drop_bit 8 v)) (ucast v) = v"
  by (rule be32_to_be32) (simp add: to_be32_def)

definition long_prefix :: "u8 \<Rightarrow> u32 \<Rightarrow> connection_id \<Rightarrow> connection_id \<Rightarrow> bytes option \<Rightarrow> bytes" where
  "long_prefix first v d s tok = first # to_be32 v @ sized_cid d @ sized_cid s @ token_wire tok"

lemma length_long_prefix:
  "length (long_prefix first v d s tok) =
     7 + length (cid_bytes d) + length (cid_bytes s) + length (token_wire tok)"
  by (simp add: long_prefix_def sized_cid_def)

lemma parse_long_prefix:
  assumes f: "first AND 0x80 \<noteq> 0" "first AND 0x40 \<noteq> 0"
      "long_type_from_bits (drop_bit 4 first AND 3) = Some ty"
    and v: "v \<noteq> VERSION_NEGOTIATION" and d: "cid_ok d" and s: "cid_ok s"
  shows "parse_long_header (long_prefix first v d s tok @ tail) =
     parse_long_rest ty v d s (first AND 3) (long_prefix first v d s tok @ tail)
       (7 + length (cid_bytes d) + length (cid_bytes s))"
proof -
  let ?buf = "long_prefix first v d s tok @ tail"
  have buf: "?buf = first # to_be32 v @ sized_cid d @ sized_cid s @ token_wire tok @ tail"
    by (simp add: long_prefix_def)
  have cids: "parse_long_cids ?buf = Ok (d, s, 7 + length (cid_bytes d) + length (cid_bytes s))"
    unfolding buf using parse_long_cids_ok [OF _ d s, of "first # to_be32 v"] by simp
  have l: "5 \<le> length ?buf" by (simp add: length_long_prefix)
  have i: "index_at ?buf 0 = (Ok first :: (_, packet_error) result)"
    "index_at ?buf 1 = (Ok (ucast (drop_bit 24 v)) :: (_, packet_error) result)"
    "index_at ?buf 2 = (Ok (ucast (drop_bit 16 v)) :: (_, packet_error) result)"
    "index_at ?buf 3 = (Ok (ucast (drop_bit 8 v)) :: (_, packet_error) result)"
    "index_at ?buf 4 = (Ok (ucast v) :: (_, packet_error) result)"
    unfolding buf by (rule long_head_bytes)+
  have e: "ensure ?buf 1 = Ok ()" "ensure ?buf 5 = Ok ()" using l by (simp_all del: length_append)
  show ?thesis
    unfolding parse_long_header_def Let_def e andthen_Inr i be32_parts cids f(3) ok_or_Some prod.case
    using f v by simp
qed

lemma parse_long_rest_ok:
  assumes t: "token_ok ty tok" and p: "length p = pos" and len: "len \<le> VARINT_MAX"
    and n: "unat (b + 1) \<le> length tail" "read_pn tail (b + 1) = Ok x" and ty: "ty \<noteq> Retry"
  shows "parse_long_rest ty v d s b (p @ token_wire tok @ varint_bytes len @ tail) pos =
     Ok (\<lparr>lh_ty = ty, lh_version = v, lh_dst_cid = d, lh_src_cid = s, lh_token = tok,
          lh_length = Some len, lh_truncated_pn = Some x, lh_pn_len = Some (b + 1)\<rparr>,
         pos + length (token_wire tok) + encoded_len len + unat (b + 1))"
  using n ty p
  by (simp add: parse_long_rest_def parse_token_ok [OF t p] slice_from_def decode_varint_bytes len Let_def)

lemma parse_long_rest_retry:
  "parse_long_rest Retry v d s b buf pos =
     Ok (\<lparr>lh_ty = Retry, lh_version = v, lh_dst_cid = d, lh_src_cid = s, lh_token = None,
          lh_length = None, lh_truncated_pn = None, lh_pn_len = None\<rparr>, pos)"
  by (simp add: parse_long_rest_def parse_token_def)

lemma long_first_bits:
  assumes "ty \<noteq> VersionNegotiation" and "\<And>n. l = Some n \<Longrightarrow> pn_len_ok n"
  shows "long_first ty l AND 0x80 \<noteq> 0" "long_first ty l AND 0x40 \<noteq> 0"
    "long_type_from_bits (drop_bit 4 (long_first ty l) AND 3) = Some ty"
    "(long_first ty l AND 3) + 1 = (case l of None \<Rightarrow> 1 | Some n \<Rightarrow> n)"
  using assms by (cases ty; cases l; auto simp: long_first_def pn_len_ok_def long_type_from_bits_def)+

lemma parse_long_wire:
  assumes h: "long_header_ok h"
  shows "parse_long_header (long_wire h @ rest) =
     Ok (h\<lparr>lh_truncated_pn := map_option (\<lambda>_. 0) (lh_truncated_pn h)\<rparr>, length (long_wire h))"
proof -
  obtain ty v d s tok len tp n where
    h_eq: "h = \<lparr>lh_ty = ty, lh_version = v, lh_dst_cid = d, lh_src_cid = s, lh_token = tok,
      lh_length = len, lh_truncated_pn = tp, lh_pn_len = n\<rparr>" by (cases h)
  have ok: "ty \<noteq> VersionNegotiation" "v \<noteq> VERSION_NEGOTIATION" "cid_ok d" "cid_ok s" "token_ok ty tok"
      "number_ok ty len tp n"
    using h by (simp_all add: h_eq long_header_ok_def)
  have n: "pn_len_ok x" if "n = Some x" for x
    using ok(6) that by (cases len; cases tp) auto
  let ?f = "long_first ty n"
  note bits = long_first_bits [where l = n, OF ok(1) n]
  have wire: "long_wire h = long_prefix ?f v d s tok @ length_wire len @ pn_wire n"
    by (simp add: h_eq long_wire_def long_prefix_def)
  have parse: "parse_long_header (long_wire h @ rest) =
      parse_long_rest ty v d s (?f AND 3) (long_wire h @ rest)
        (7 + length (cid_bytes d) + length (cid_bytes s))"
    unfolding wire append_assoc by (rule parse_long_prefix) (use bits ok in auto)
  show ?thesis
  proof (cases "ty = Retry")
    case True
    with ok(5,6) have "len = None \<and> tp = None \<and> n = None \<and> tok = None"
      by (cases tok; cases len; cases tp; cases n) auto
    with True show ?thesis
      by (simp add: parse parse_long_rest_retry) (simp add: h_eq long_wire_def length_wire_def pn_wire_def
          token_wire_def sized_cid_def)
  next
    case False
    with ok(6) obtain l' tp' n' where some: "len = Some l'" "tp = Some tp'" "n = Some n'"
        "l' \<le> VARINT_MAX" "pn_len_ok n'"
      by (cases len; cases tp; cases n) auto
    have w: "long_wire h @ rest = (?f # to_be32 v @ sized_cid d @ sized_cid s) @ token_wire tok @
        varint_bytes l' @ replicate (unat n') 0 @ rest"
      by (simp add: h_eq long_wire_def length_wire_def pn_wire_def some)
    have "parse_long_rest ty v d s (?f AND 3) (long_wire h @ rest)
        (7 + length (cid_bytes d) + length (cid_bytes s)) =
      Ok (\<lparr>lh_ty = ty, lh_version = v, lh_dst_cid = d, lh_src_cid = s, lh_token = tok,
          lh_length = Some l', lh_truncated_pn = Some 0, lh_pn_len = Some ((?f AND 3) + 1)\<rparr>,
         7 + length (cid_bytes d) + length (cid_bytes s) + length (token_wire tok) + encoded_len l' +
         unat ((?f AND 3) + 1))"
      unfolding w using ok some False bits(4)
      by (intro parse_long_rest_ok) (simp_all add: read_pn_zeros sized_cid_def)
    then show ?thesis
      using bits(4) some by (simp add: parse) (simp add: h_eq long_wire_def length_wire_def pn_wire_def sized_cid_def)
  qed
qed

subsection \<open>What parsing may return\<close>

fun long_fault :: "bytes \<Rightarrow> packet_error \<Rightarrow> bool" where
  "long_fault buf (PktBufferTooShort need actual) = (actual = length buf \<and> actual < need)"
| "long_fault buf (InvalidHeaderForm e a) = (e = 1 \<and> a = 0 \<and> hd buf AND 0x80 = 0)"
| "long_fault buf FixedBitNotSet = (hd buf AND 0x40 = 0)"
| "long_fault buf ReservedBitsSet = False"
| "long_fault buf (UnknownLongType t) = False"
| "long_fault buf (PktInvalidCidLength n) = (20 < n)"
| "long_fault buf (PktVarInt e) = (\<exists>need actual. e = BufferTooShort need actual \<and> actual < need)"
| "long_fault buf (PktFrame e) = (\<exists>n. e = InvalidCidLength n \<and> 20 < n)"

lemma outcome_ensure [wp]:
  "outcome E Q (ensure buf n) = (if n \<le> length buf then Q () else E (PktBufferTooShort n (length buf)))"
  by (simp add: ensure_def outcome_basic)

lemma outcome_decode:
  assumes "\<And>need. length r < need \<Longrightarrow> E (BufferTooShort need (length r))"
    and "\<And>v n. decode r = Ok (v, n) \<Longrightarrow> 0 < n \<Longrightarrow> n \<le> length r \<Longrightarrow> v \<le> VARINT_MAX \<Longrightarrow> encoded_len v \<le> n \<Longrightarrow> Q (v, n)"
  shows "outcome E Q (decode r)"
proof (cases "decode r")
  case (Inl e)
  then show ?thesis
    using decode_error [of r] decode_not_panic [of r] assms(1) by (cases e) (auto simp: wp)
next
  case (Inr p)
  then show ?thesis
    using decode_ok_bounds [of r] assms(2) by (cases p) (auto simp: wp)
qed

lemma outcome_new_cid [wp]:
  "outcome E Q (new_cid b) =
     (if length b \<le> 20 then Q (ConnectionId b) else E (PktFrame (InvalidCidLength (of_nat (length b)))))"
  by (simp add: new_cid_def connection_id_new_def wp)

lemma u8_less_256: "unat (b :: u8) < 256"
  using unsigned_less [of b] by simp

lemma u8_above_20: "20 < (of_nat n :: u8) \<longleftrightarrow> 20 < n" if "n < 256"
  using that by (simp add: word_less_nat_alt unsigned_of_nat take_bit_nat_eq_self)

lemma outcome_long_cids:
  "outcome (long_fault buf) (\<lambda>(d, s, pos). cid_ok d \<and> cid_ok s \<and> pos \<le> length buf \<and>
      pos = 7 + length (cid_bytes d) + length (cid_bytes s)) (parse_long_cids buf)"
  using u8_less_256 [of "buf ! 5"] u8_less_256 [of "buf ! (6 + unat (buf ! 5))"]
  by (auto simp: parse_long_cids_def Let_def wp MAX_CID_LEN_def cid_ok_def u8_above_20 min_absorb2 word_less_nat_alt)

lemma outcome_version_negotiation:
  "outcome (long_fault buf) (\<lambda>(h, n). lh_ty h = VersionNegotiation \<and> lh_version h = 0 \<and>
      cid_ok (lh_dst_cid h) \<and> cid_ok (lh_src_cid h) \<and> n \<le> length buf)
     (parse_version_negotiation buf)"
  using u8_less_256 [of "buf ! 5"] u8_less_256 [of "buf ! (6 + unat (buf ! 5))"]
  by (auto simp: parse_version_negotiation_def Let_def wp cid_ok_def u8_above_20 min_absorb2
      VERSION_NEGOTIATION_def word_less_nat_alt)

lemma outcome_token:
  assumes "pos \<le> length buf" and "length buf < 2 ^ 62"
  shows "outcome (long_fault buf) (\<lambda>(t, p). token_ok ty t \<and> pos \<le> p \<and> p \<le> length buf)
     (parse_token ty buf pos)"
  using assms by (auto simp: parse_token_def Let_def wp min_absorb2 intro!: outcome_decode)


lemma outcome_read_pn [wp]:
  "pn_len_ok n \<Longrightarrow> unat n \<le> length r \<Longrightarrow> (\<And>p. Q p) \<Longrightarrow> outcome E Q (read_pn r n)"
  using read_pn_total [of n r] by (auto simp: wp)

lemma pn_len_ok_bits: "pn_len_ok ((x AND 3) + 1)"
  using low_bits_2 [of x] by (auto simp: pn_len_ok_def)

lemma long_type_bits: "\<exists>ty. long_type_from_bits (x AND 3) = Some ty \<and> ty \<noteq> VersionNegotiation"
  using low_bits_2 [of x] by (auto simp: long_type_from_bits_def)

lemma long_type_bitsD: "long_type_from_bits b = Some ty \<Longrightarrow> ty \<noteq> VersionNegotiation"
  by (auto simp: long_type_from_bits_def split: if_splits)

definition long_header_parsed :: "long_header \<Rightarrow> bool" where
  "long_header_parsed h \<longleftrightarrow>
     cid_ok (lh_dst_cid h) \<and> cid_ok (lh_src_cid h) \<and>
     (if lh_version h = VERSION_NEGOTIATION then lh_ty h = VersionNegotiation
      else lh_ty h \<noteq> VersionNegotiation \<and>
        (if lh_ty h = Retry then lh_token h = None else token_ok (lh_ty h) (lh_token h)) \<and>
        number_ok (lh_ty h) (lh_length h) (lh_truncated_pn h) (lh_pn_len h))"


lemma outcome_long_rest:
  assumes "pos \<le> length buf" and "length buf < 2 ^ 62" and d: "cid_ok d" "cid_ok s"
    and ty: "ty \<noteq> VersionNegotiation" "v \<noteq> VERSION_NEGOTIATION"
  shows "outcome (long_fault buf) (\<lambda>(h, n). long_header_parsed h \<and> n \<le> length buf)
     (parse_long_rest ty v d s (b AND 3) buf pos)"
  unfolding parse_long_rest_def wp Let_def
  by (rule outcome_mono [OF outcome_token])
    (use assms in \<open>auto simp: wp split_beta long_header_parsed_def pn_len_ok_bits
      intro!: outcome_decode outcome_read_pn\<close>)

lemma outcome_long_header:
  assumes "length buf < 2 ^ 62"
  shows "outcome (long_fault buf) (\<lambda>(h, n). long_header_parsed h \<and> n \<le> length buf)
     (parse_long_header buf)"
proof -
  let ?E = "long_fault buf"
  let ?Q = "\<lambda>(h, n). long_header_parsed h \<and> n \<le> length buf"
  have vn: "outcome ?E ?Q (parse_version_negotiation buf)"
    by (rule outcome_mono [OF outcome_version_negotiation])
      (auto simp: long_header_parsed_def VERSION_NEGOTIATION_def)
  have rest: "outcome ?E (\<lambda>(d, s, pos). outcome ?E ?Q (parse_long_rest ty v d s (b AND 3) buf pos))
      (parse_long_cids buf)"
    if "ty \<noteq> VersionNegotiation" "v \<noteq> VERSION_NEGOTIATION" for ty v b
    by (rule outcome_mono [OF outcome_long_cids]) (use that assms in \<open>auto intro: outcome_long_rest\<close>)
  obtain ty where ty: "long_type_from_bits (drop_bit 4 (buf ! 0) AND 3) = Some ty" "ty \<noteq> VersionNegotiation"
    using long_type_bits by blast
  show ?thesis
  proof (cases buf)
    case Nil
    then show ?thesis by (simp add: parse_long_header_def wp)
  next
    case (Cons first r)
    then have "first = hd buf" "buf \<noteq> []" "buf ! 0 = hd buf" by simp_all
    then show ?thesis
      using vn rest [OF ty(2)] ty(1)
      unfolding parse_long_header_def Let_def case_prod_unfold
      by (auto simp: wp Suc_le_eq)
  qed
qed
section \<open>Short headers\<close>

definition short_wire :: "short_header \<Rightarrow> bytes" where
  "short_wire h = (0x40 OR (if sh_spin h then 0x20 else 0) OR (if sh_key_phase h then 0x04 else 0) OR
     sh_pn_len h) # cid_bytes (sh_dst_cid h) @ replicate (unat (sh_pn_len h)) 0"

lemma write_short_header_ok:
  "write_short_header h buf = (Ok (length (short_wire h)), buf @ short_wire h)"
  by (simp add: write_short_header_def write_short_fields_def seqA_def Let_def short_wire_def)

definition short_first :: "bool \<Rightarrow> bool \<Rightarrow> u8 \<Rightarrow> u8" where
  "short_first spin phase n = 0x40 OR (if spin then 0x20 else 0) OR (if phase then 0x04 else 0) OR n"

lemma short_first_bits:
  assumes "n \<in> {1, 2, 3}"
  shows "short_first s k n AND 0x80 = 0" "short_first s k n AND 0x40 \<noteq> 0"
    "(short_first s k n AND 0x20 \<noteq> 0) = s" "drop_bit 3 (short_first s k n) AND 3 = 0"
    "(short_first s k n AND 4 \<noteq> 0) = k" "short_first s k n AND 3 = n"
  using assms by (cases s; cases k; auto simp: short_first_def)+

text \<open>A short header with any packet number bytes, as it stands behind header protection too.\<close>

lemma parse_short_ok:
  assumes n: "n \<in> {1, 2, 3}" and d: "cid_ok d" "length (cid_bytes d) = k"
    and r: "unat n \<le> length r" "read_pn r n = Ok x"
  shows "parse_short_header (short_first s p n # cid_bytes d @ r) k =
     Ok (\<lparr>sh_spin = s, sh_key_phase = p, sh_dst_cid = d, sh_truncated_pn = x, sh_pn_len = n\<rparr>,
         1 + k + unat n)"
proof -
  let ?buf = "short_first s p n # cid_bytes d @ r"
  have "slice ?buf 1 (1 + k) = (Ok (cid_bytes d) :: (bytes, packet_error) result)"
    using slice_mid [of "[short_first s p n]" 1 "cid_bytes d" k r] d(2) by simp
  moreover have "slice_from ?buf (1 + k) = (Ok r :: (bytes, packet_error) result)"
    using d(2) by (simp add: slice_from_def)
  moreover have "n \<noteq> 0" using n by auto
  ultimately show ?thesis
    using short_first_bits [OF n] d r
    by (simp add: parse_short_header_def index_at_def Let_def)
qed

lemma parse_short_wire:
  assumes n: "sh_pn_len h \<in> {1, 2, 3}" and d: "cid_ok (sh_dst_cid h)"
  shows "parse_short_header (short_wire h @ rest) (length (cid_bytes (sh_dst_cid h))) =
     Ok (h\<lparr>sh_truncated_pn := 0\<rparr>, length (short_wire h))"
proof -
  have "pn_len_ok (sh_pn_len h)" using n by (auto simp: pn_len_ok_def)
  then have z: "read_pn (replicate (unat (sh_pn_len h)) 0 @ rest) (sh_pn_len h) = Ok 0"
    by (rule read_pn_zeros)
  show ?thesis
    using parse_short_ok [OF n d refl _ z, of "sh_spin h" "sh_key_phase h"]
    by (simp add: short_wire_def short_first_def)
qed

lemma parse_short_reserved:
  "first AND 3 = 0 \<Longrightarrow> first AND 0x80 = 0 \<Longrightarrow> first AND 0x40 \<noteq> 0 \<Longrightarrow>
     parse_short_header (first # r) k = Error ReservedBitsSet"
  by (simp add: parse_short_header_def index_at_def Let_def)

fun short_fault :: "bytes \<Rightarrow> nat \<Rightarrow> packet_error \<Rightarrow> bool" where
  "short_fault buf k (PktBufferTooShort need actual) = (actual = length buf \<and> actual < need)"
| "short_fault buf k (InvalidHeaderForm e a) = (e = 0 \<and> a = 1 \<and> hd buf AND 0x80 \<noteq> 0)"
| "short_fault buf k FixedBitNotSet = (hd buf AND 0x40 = 0)"
| "short_fault buf k ReservedBitsSet = (drop_bit 3 (hd buf) AND 3 \<noteq> 0 \<or> hd buf AND 3 = 0)"
| "short_fault buf k (UnknownLongType t) = False"
| "short_fault buf k (PktInvalidCidLength n) = False"
| "short_fault buf k (PktVarInt e) = False"
| "short_fault buf k (PktFrame e) = (20 < k \<and> e = InvalidCidLength (of_nat k))"

lemma outcome_short_header:
  "outcome (short_fault buf k) (\<lambda>(h, n). sh_pn_len h \<in> {1, 2, 3} \<and>
      length (cid_bytes (sh_dst_cid h)) = k \<and> n = 1 + k + unat (sh_pn_len h) \<and> n \<le> length buf)
     (parse_short_header buf k)"
proof (cases buf)
  case Nil
  then show ?thesis by (simp add: parse_short_header_def wp)
next
  case (Cons first r)
  have "first AND 3 \<in> {0, 1, 2, 3}" by (rule low_bits_2)
  then have "first AND 3 \<noteq> 0 \<Longrightarrow> first AND 3 \<in> {1, 2, 3}" by blast
  moreover from this have "first AND 3 \<noteq> 0 \<Longrightarrow> pn_len_ok (first AND 3)"
    by (auto simp: pn_len_ok_def)
  ultimately show ?thesis
    unfolding parse_short_header_def Let_def Cons
    by (auto simp: wp min_absorb2 Suc_le_eq intro!: outcome_read_pn)
qed

text \<open>
  The five low bits of the first byte as they are before header protection is removed: only a packet for
  which they look like a packet number length and zero reserved bits gets past \<open>parse_short_header\<close>.
\<close>

definition bits_pass :: "bytes \<Rightarrow> bool" where
  "bits_pass p \<longleftrightarrow> drop_bit 3 (p ! 0) AND 0x03 = 0 \<and> p ! 0 AND 0x03 \<noteq> 0"

lemma short_header_bits:
  assumes "p \<noteq> []" and "p ! 0 AND 0x80 = 0" and "p ! 0 AND 0x40 \<noteq> 0" and "k \<le> 20" and "k + 4 < length p"
  shows "if bits_pass p then is_ok (parse_short_header p k) else parse_short_header p k = Error ReservedBitsSet"
proof (cases "bits_pass p")
  case True
  obtain first r where p: "p = first # r" using assms(1) by (cases p) auto
  have f: "first AND 3 \<in> {1, 2, 3}" using low_bits_2 [of first] True p by (auto simp: bits_pass_def)
  then have n: "pn_len_ok (first AND 3)" "unat (first AND 3) \<le> 3" by (auto simp: pn_len_ok_def)
  have "outcome (\<lambda>e. False) (\<lambda>_. True) (parse_short_header p k)"
    unfolding parse_short_header_def Let_def p
    using assms True f n unfolding p by (auto simp: wp bits_pass_def min_absorb2 Suc_le_eq intro!: outcome_read_pn)
  then show ?thesis using True
    by (cases "parse_short_header p k") (auto simp: outcome_def is_ok_iff split: fail.splits)
next
  case False
  then show ?thesis using assms
    by (cases p) (auto simp: parse_short_header_def bits_pass_def ensure_def index_at_def Let_def)
qed

section \<open>Properties\<close>

text \<open>
  A packet number truncated to the 1 to 4 bytes of the header is completed to the number itself
  when it lies in the window of half the truncation range around the next expected one.
\<close>

theorem decode_packet_number_window:
  assumes n: "pn_len_ok n" and pn: "unat pn < 2 ^ 62"
    and l: "unat largest + 2 ^ (8 * unat n) < 2 ^ 62"
    and lo: "unat largest + 1 < unat pn + 2 ^ (8 * unat n) div 2"
    and hi: "unat pn \<le> unat largest + 1 + 2 ^ (8 * unat n) div 2"
  shows "decode_packet_number largest (take_bit (8 * unat n) pn) n = pn"
proof -
  have t: "unat (take_bit (8 * unat n) pn) = unat pn mod 2 ^ (8 * unat n)"
    unfolding unsigned_take_bit_eq by (rule take_bit_eq_mod)
  have k: "0 < 8 * unat n" using pn_win_facts(2) [OF n] by auto
  have "unat (decode_packet_number largest (take_bit (8 * unat n) pn) n) =
      rfc_decode_pn (unat largest) (unat pn mod 2 ^ (8 * unat n)) (8 * unat n)"
    using decode_pn_nat [OF n _ l, of "take_bit (8 * unat n) pn"] by (simp add: t)
  also have "\<dots> = unat pn" using k lo hi pn by (rule rfc_decode_window)
  finally show ?thesis by (rule unsigned_word_eqI)
qed
theorem decode_packet_number_window_witness:
  "pn_len_ok 2 \<and> decode_packet_number 0xa82f30ea (take_bit (8 * unat (2 :: u8)) 0xa82f9b32) 2 = 0xa82f9b32"
proof -
  have "pn_len_ok 2" by (simp add: pn_len_ok_def)
  moreover have "decode_packet_number 0xa82f30ea (take_bit (8 * unat (2 :: u8)) 0xa82f9b32) 2 = 0xa82f9b32"
    by (rule decode_packet_number_window) (simp_all add: pn_len_ok_def)
  ultimately show ?thesis by blast
qed

text \<open>
  C23: \<open>decode_packet_number\<close> on 64-bit words computes the packet number of the RFC's pseudo-code, for
  every truncated number of 1 to 4 bytes and every largest number far enough from the end of the
  packet number space that nothing wraps.
\<close>

theorem decode_packet_number_rfc:
  assumes n: "pn_len_ok n" and t: "unat t < 2 ^ (8 * unat n)"
    and l: "unat largest + 2 ^ (8 * unat n) < 2 ^ 62"
  shows "unat (decode_packet_number largest t n) = rfc_decode_pn (unat largest) (unat t) (8 * unat n)"
  using assms by (rule decode_pn_nat)

theorem decode_packet_number_rfc_witness:
  "unat (decode_packet_number 0xa82f30ea 0x9b32 2) = rfc_decode_pn 0xa82f30ea 0x9b32 16"
  using decode_packet_number_rfc [of 2 "0x9b32" "0xa82f30ea"] by (simp add: pn_len_ok_def)

text \<open>
  C20: a long header (Initial, 0-RTT, Handshake or Retry) written by \<open>write_long_header\<close> is parsed
  back by \<open>parse_long_header\<close>, whatever follows it, with the number of bytes that were written; the
  packet number reads as 0, the placeholder the writer leaves.
\<close>

theorem long_header_roundtrip:
  assumes "long_header_ok h"
  shows "\<exists>wire. write_long_header h buf = (Ok (length wire), buf @ wire) \<and>
     (\<forall>rest. parse_long_header (wire @ rest) =
        Ok (h\<lparr>lh_truncated_pn := map_option (\<lambda>_. 0) (lh_truncated_pn h)\<rparr>, length wire))"
  using write_long_header_ok [OF assms] parse_long_wire [OF assms] by blast

definition example_header :: long_header where
  "example_header = \<lparr>lh_ty = Initial, lh_version = VERSION_1, lh_dst_cid = ConnectionId [1, 2, 3],
     lh_src_cid = ConnectionId [], lh_token = Some [9], lh_length = Some 1200,
     lh_truncated_pn = Some 7, lh_pn_len = Some 2\<rparr>"

theorem long_header_roundtrip_witness:
  "long_header_ok example_header \<and>
   (\<exists>wire. write_long_header example_header [] = (Ok (length wire), wire) \<and>
      parse_long_header (wire @ [5]) =
        Ok (example_header\<lparr>lh_truncated_pn := Some 0\<rparr>, length wire))"
proof -
  have ok: "long_header_ok example_header"
    by (simp add: long_header_ok_def example_header_def VERSION_1_def VERSION_NEGOTIATION_def
        cid_ok_def pn_len_ok_def VARINT_MAX_eq)
  obtain wire where "write_long_header example_header [] = (Ok (length wire), [] @ wire)"
      "\<forall>rest. parse_long_header (wire @ rest) =
        Ok (example_header\<lparr>lh_truncated_pn := map_option (\<lambda>_. 0) (lh_truncated_pn example_header)\<rparr>, length wire)"
    using long_header_roundtrip [OF ok, of "[]"] by blast
  then have "write_long_header example_header [] = (Ok (length wire), wire)"
      "parse_long_header (wire @ [5]) = Ok (example_header\<lparr>lh_truncated_pn := Some 0\<rparr>, length wire)"
    by (simp_all add: example_header_def)
  with ok show ?thesis by blast
qed

text \<open>
  C21: \<open>parse_long_header\<close> on any bytes a machine can hold: it never panics, an error it returns is one
  that the bytes justify (\<open>long_fault\<close>: never a reserved bit, never an unknown type), and a header
  it returns lies within the buffer, has connection IDs of at most 20 bytes and exactly the fields
  of its packet type; version 0 gives a Version Negotiation header.
\<close>

theorem parse_long_header_total:
  assumes "length buf < 2 ^ 62"
  shows "case parse_long_header buf of
      Inl Panic \<Rightarrow> False
    | Inl (Err e) \<Rightarrow> long_fault buf e
    | Inr (h, n) \<Rightarrow> long_header_parsed h \<and> n \<le> length buf"
  using outcome_long_header [OF assms] unfolding outcome_def .

theorem parse_long_header_total_witness:
  "length [0xc0, 0, 0, 0, 1, 21 :: u8] < 2 ^ 62 \<and>
   parse_long_header [0xc0, 0, 0, 0, 1, 21] \<noteq> Panics"
proof
  show len: "length [0xc0, 0, 0, 0, 1, 21 :: u8] < 2 ^ 62" by simp
  show "parse_long_header [0xc0, 0, 0, 0, 1, 21] \<noteq> Panics"
    using parse_long_header_total [OF len] by auto
qed

text \<open>
  A short header with a packet number of 1, 2 or 3 bytes written by \<open>write_short_header\<close> is parsed
  back by \<open>parse_short_header\<close>, whatever follows it, for a connection ID of the length given.
\<close>

theorem short_header_roundtrip:
  assumes "sh_pn_len h \<in> {1, 2, 3}" and "cid_ok (sh_dst_cid h)"
  shows "\<exists>wire. write_short_header h buf = (Ok (length wire), buf @ wire) \<and>
     (\<forall>rest. parse_short_header (wire @ rest) (length (cid_bytes (sh_dst_cid h))) =
        Ok (h\<lparr>sh_truncated_pn := 0\<rparr>, length wire))"
  using write_short_header_ok [of h buf] parse_short_wire [OF assms] by blast

theorem short_header_roundtrip_witness:
  "\<exists>wire. write_short_header \<lparr>sh_spin = True, sh_key_phase = False, sh_dst_cid = ConnectionId [8],
        sh_truncated_pn = 5, sh_pn_len = 3\<rparr> [] = (Ok (length wire), wire) \<and>
     parse_short_header (wire @ [1, 2]) 1 =
       Ok (\<lparr>sh_spin = True, sh_key_phase = False, sh_dst_cid = ConnectionId [8],
            sh_truncated_pn = 0, sh_pn_len = 3\<rparr>, length wire)"
  using short_header_roundtrip [of "\<lparr>sh_spin = True, sh_key_phase = False,
      sh_dst_cid = ConnectionId [8], sh_truncated_pn = 5, sh_pn_len = 3\<rparr>" "[]"]
  by (fastforce simp: cid_ok_def)

text \<open>
  The packet number length 4, which the field documents as allowed, does not survive the wire:
  \<open>write_short_header\<close> puts it into the key phase bit, leaves the length bits 0 and so writes the same
  first byte for both key phases, and \<open>parse_short_header\<close> rejects what was written.
\<close>

theorem short_header_pn_len_4_rejected:
  assumes "sh_pn_len h = 4"
  shows "\<exists>wire. write_short_header h buf = (Ok (length wire), buf @ wire) \<and>
     write_short_header (h\<lparr>sh_key_phase := \<not> sh_key_phase h\<rparr>) buf = (Ok (length wire), buf @ wire) \<and>
     (\<forall>rest k. parse_short_header (wire @ rest) k = Error ReservedBitsSet)"
proof -
  have "short_wire (h\<lparr>sh_key_phase := \<not> sh_key_phase h\<rparr>) = short_wire h"
    using assms by (simp add: short_wire_def)
  moreover have "parse_short_header (short_wire h @ rest) k = Error ReservedBitsSet" for rest k
    using assms by (simp add: short_wire_def parse_short_reserved)
  ultimately show ?thesis
    using write_short_header_ok [of h buf] write_short_header_ok [of "h\<lparr>sh_key_phase := \<not> sh_key_phase h\<rparr>" buf]
    by auto
qed

theorem short_header_pn_len_4_rejected_witness:
  "\<exists>wire. write_short_header \<lparr>sh_spin = False, sh_key_phase = False, sh_dst_cid = ConnectionId [],
        sh_truncated_pn = 0, sh_pn_len = 4\<rparr> [] = (Ok (length wire), wire) \<and>
     parse_short_header (wire @ [1]) 0 = Error ReservedBitsSet"
  using short_header_pn_len_4_rejected [of "\<lparr>sh_spin = False, sh_key_phase = False,
      sh_dst_cid = ConnectionId [], sh_truncated_pn = 0, sh_pn_len = 4\<rparr>" "[]"]
  by fastforce

text \<open>
  C22: \<open>parse_short_header\<close> on any bytes: it never panics, an error it returns is one that the bytes
  justify, and a header it returns lies within the buffer with a connection ID of the length asked
  for and a packet number of 1 to 3 bytes (never 4).
\<close>

theorem parse_short_header_total:
  "case parse_short_header buf k of
      Inl Panic \<Rightarrow> False
    | Inl (Err e) \<Rightarrow> short_fault buf k e
    | Inr (h, n) \<Rightarrow> sh_pn_len h \<in> {1, 2, 3} \<and> length (cid_bytes (sh_dst_cid h)) = k \<and>
        n = 1 + k + unat (sh_pn_len h) \<and> n \<le> length buf"
  using outcome_short_header [of buf k] unfolding outcome_def .

end
