(* ===== verification/Errors.thy ===== *)
theory Errors
  imports Packet
begin

text \<open>
  \<open>src/error.rs\<close>, and the error types of \<open>src/crypto.rs\<close> and \<open>src/handshake.rs\<close> that a connection
  error can hold: transport error codes, their text, and the conversions behind \<open>?\<close>.
\<close>

section \<open>Transport errors\<close>

datatype transport_error =
    NoError
  | InternalError
  | ConnectionRefused
  | FlowControlError
  | StreamLimitError
  | StreamStateError
  | FinalSizeError
  | FrameEncodingError
  | TransportParameterError
  | ConnectionIdLimitError
  | ProtocolViolation
  | InvalidToken
  | ApplicationError
  | CryptoBufferExceeded
  | KeyUpdateError
  | AeadLimitReached
  | NoViablePath
  | VersionNegotiationError
  | CryptoError u8

definition from_code :: "u64 \<Rightarrow> transport_error option" where
  "from_code code =
     (if code = 0x00 then Some NoError
      else if code = 0x01 then Some InternalError
      else if code = 0x02 then Some ConnectionRefused
      else if code = 0x03 then Some FlowControlError
      else if code = 0x04 then Some StreamLimitError
      else if code = 0x05 then Some StreamStateError
      else if code = 0x06 then Some FinalSizeError
      else if code = 0x07 then Some FrameEncodingError
      else if code = 0x08 then Some TransportParameterError
      else if code = 0x09 then Some ConnectionIdLimitError
      else if code = 0x0a then Some ProtocolViolation
      else if code = 0x0b then Some InvalidToken
      else if code = 0x0c then Some ApplicationError
      else if code = 0x0d then Some CryptoBufferExceeded
      else if code = 0x0e then Some KeyUpdateError
      else if code = 0x0f then Some AeadLimitReached
      else if code = 0x10 then Some NoViablePath
      else if code = 0x11 then Some VersionNegotiationError
      else if 0x0100 \<le> code \<and> code \<le> 0x01ff then Some (CryptoError (ucast (code - 0x0100)))
      else None)"

fun to_code :: "transport_error \<Rightarrow> u64" where
  "to_code NoError = 0x00"
| "to_code InternalError = 0x01"
| "to_code ConnectionRefused = 0x02"
| "to_code FlowControlError = 0x03"
| "to_code StreamLimitError = 0x04"
| "to_code StreamStateError = 0x05"
| "to_code FinalSizeError = 0x06"
| "to_code FrameEncodingError = 0x07"
| "to_code TransportParameterError = 0x08"
| "to_code ConnectionIdLimitError = 0x09"
| "to_code ProtocolViolation = 0x0a"
| "to_code InvalidToken = 0x0b"
| "to_code ApplicationError = 0x0c"
| "to_code CryptoBufferExceeded = 0x0d"
| "to_code KeyUpdateError = 0x0e"
| "to_code AeadLimitReached = 0x0f"
| "to_code NoViablePath = 0x10"
| "to_code VersionNegotiationError = 0x11"
| "to_code (CryptoError alert) = 0x0100 + ucast alert"

text \<open>Decimal digits of a number, as \<open>{alert}\<close> prints them.\<close>

fun decimal :: "nat \<Rightarrow> string" where
  "decimal n = (if n < 10 then [char_of (48 + n)] else decimal (n div 10) @ [char_of (48 + n mod 10)])"

declare decimal.simps [simp del]

fun display :: "transport_error \<Rightarrow> string" where
  "display NoError = ''no error''"
| "display InternalError = ''internal error''"
| "display ConnectionRefused = ''connection refused''"
| "display FlowControlError = ''flow control error''"
| "display StreamLimitError = ''stream limit error''"
| "display StreamStateError = ''stream state error''"
| "display FinalSizeError = ''final size error''"
| "display FrameEncodingError = ''frame encoding error''"
| "display TransportParameterError = ''transport parameter error''"
| "display ConnectionIdLimitError = ''connection ID limit error''"
| "display ProtocolViolation = ''protocol violation''"
| "display InvalidToken = ''invalid token''"
| "display ApplicationError = ''application error''"
| "display CryptoBufferExceeded = ''crypto buffer exceeded''"
| "display KeyUpdateError = ''key update error''"
| "display AeadLimitReached = ''AEAD limit reached''"
| "display NoViablePath = ''no viable path''"
| "display VersionNegotiationError = ''version negotiation error''"
| "display (CryptoError alert) = ''crypto error (alert '' @ decimal (unat alert) @ '')''"

section \<open>Errors of the other parts\<close>

text \<open>\<open>rustls::Error\<close> is opaque to the program: it only passes it on and prints it.\<close>

type_synonym tls_error = string

datatype crypto_error = NoQuicSuite | ProviderInstall

datatype handshake_error =
    HsTls tls_error
  | HsCrypto crypto_error
  | HsVarInt varint_error
  | HsFrame frame_error
  | InvalidServerName string
  | Internal string

text \<open>
  \<open>ConnectionError\<close>: the variants \<open>Frame\<close>, \<open>Packet\<close>, \<open>Handshake\<close> and \<open>Closed\<close> are \<open>InFrame\<close>,
  \<open>InPacket\<close>, \<open>InHandshake\<close> and \<open>IsClosed\<close>.
\<close>

datatype connection_error =
    Transport transport_error
  | Application u64 string
  | Tls tls_error
  | InHandshake handshake_error
  | InFrame frame_error
  | InPacket packet_error
  | Timeout string
  | IsClosed

definition from_crypto_error :: "crypto_error \<Rightarrow> connection_error" where
  "from_crypto_error e = Transport InternalError"

definition from_varint_error :: "varint_error \<Rightarrow> connection_error" where
  "from_varint_error e = Transport InternalError"

definition should_send_close :: "connection_error \<Rightarrow> bool" where
  "should_send_close e = (case e of IsClosed \<Rightarrow> False | _ \<Rightarrow> True)"

section \<open>Properties\<close>

lemma alert_code_range: "0x0100 \<le> 0x0100 + (ucast a :: u64)" "0x0100 + (ucast a :: u64) \<le> 0x01ff" for a :: u8
proof -
  have a: "unat a < 256" using unsigned_less [of a] by simp
  have u: "unat (0x0100 + (ucast a :: u64)) = 256 + unat a"
    using a by (simp add: unat_word_ariths unsigned_ucast_eq take_bit_nat_eq_self)
  show "0x0100 \<le> 0x0100 + (ucast a :: u64)" "0x0100 + (ucast a :: u64) \<le> 0x01ff"
    using a by (simp_all add: word_le_nat_alt u)
qed

lemma alert_of_code: "0x0100 \<le> c \<Longrightarrow> c \<le> 0x01ff \<Longrightarrow> 0x0100 + ucast (ucast (c - 0x0100) :: u8) = (c :: u64)"
proof -
  assume c: "0x0100 \<le> c" "c \<le> 0x01ff"
  then have "unat (c - 0x0100) < 256"
    by (simp add: unat_sub word_le_nat_alt)
  then have "ucast (ucast (c - 0x0100) :: u8) = c - 0x0100"
    using take_bit_small [of "c - 0x0100" 8]
    by (simp add: word_less_nat_alt) (simp add: word_unat_eq_iff unsigned_ucast_eq)
  then show ?thesis by simp
qed

lemma from_code_alert: "0x0100 \<le> c \<Longrightarrow> c \<le> 0x01ff \<Longrightarrow> from_code c = Some (CryptoError (ucast (c - 0x0100)))"
  by (auto simp: from_code_def word_le_nat_alt)

lemma from_code_to_code: "from_code (to_code e) = Some e"
proof (cases e)
  case (CryptoError a)
  have "from_code (to_code e) = Some (CryptoError (ucast (0x0100 + ucast a - 0x0100 :: u64)))"
    using from_code_alert [OF alert_code_range, of a] by (simp add: CryptoError)
  moreover have "ucast (ucast a :: u64) = a"
    by (rule bit_word_eqI) (auto simp: bit_simps)
  ultimately show ?thesis by (simp add: CryptoError)
qed (simp_all add: from_code_def)

lemma small_code:
  assumes "\<not> 0x11 < c"
  shows "c \<in> {0, 1, 2, 3, 4, 5, 6, 7, 8, 9, 10, 11, 12, 13, 14, 15, 16, 17 :: u64}"
proof -
  have "unat c \<le> 17" using assms by (simp add: word_less_nat_alt not_less)
  then have "unat c \<in> {0, 1, 2, 3, 4, 5, 6, 7, 8, 9, 10, 11, 12, 13, 14, 15, 16, 17}" by simp arith
  then show ?thesis by (auto simp: word_unat_eq_iff)
qed

text \<open>
  The transport error codes: every error has a code that reads back as that error, a code that
  reads as an error is the code of that error, and the codes that read as none are those above
  \<open>0x11\<close> outside the 256 codes of TLS alerts.
\<close>

theorem error_codes:
  "from_code (to_code e) = Some e \<and>
   (case from_code c of
      Some e' \<Rightarrow> to_code e' = c
    | None \<Rightarrow> 0x11 < c \<and> \<not> (0x0100 \<le> c \<and> c \<le> 0x01ff))"
proof -
  have "case from_code c of
      Some e' \<Rightarrow> to_code e' = c
    | None \<Rightarrow> 0x11 < c \<and> \<not> (0x0100 \<le> c \<and> c \<le> 0x01ff)"
  proof (cases "0x11 < c")
    case True
    then show ?thesis by (auto simp: from_code_def alert_of_code)
  next
    case False
    from small_code [OF this] show ?thesis by (auto simp: from_code_def)
  qed
  with from_code_to_code [of e] show ?thesis by simp
qed

end
