(* ===== verification/Crypto.thy ===== *)
theory Crypto
  imports Errors
begin

text \<open>
  \<open>src/crypto.rs\<close>, and what the program uses of \<open>rustls::quic\<close>. Packet protection is code of
  another library: a \<open>DirectionalKeys\<close> is a record of its functions, of which nothing is assumed in
  the definitions. \<open>None\<close> is a \<open>rustls::Error\<close>. What the library documents of matching keys is the
  predicate \<open>keys_match\<close>, a named hypothesis of the theorems that need it.
\<close>

section \<open>Keys\<close>

text \<open>
  \<open>aead_encrypt pn aad payload\<close> is \<open>packet.encrypt_in_place\<close>: the ciphertext that replaces the payload
  and the tag. \<open>aead_decrypt pn aad payload\<close> is \<open>packet.decrypt_in_place\<close>: the plaintext slice.
  \<open>hp_encrypt sample first pn_bytes\<close> and \<open>hp_decrypt\<close> are \<open>header.encrypt_in_place\<close> and
  \<open>header.decrypt_in_place\<close>: the new first byte and packet number bytes.
\<close>

record dir_keys =
  tag_len :: nat
  sample_len :: nat
  aead_encrypt :: "u64 \<Rightarrow> bytes \<Rightarrow> bytes \<Rightarrow> (bytes \<times> bytes) option"
  aead_decrypt :: "u64 \<Rightarrow> bytes \<Rightarrow> bytes \<Rightarrow> bytes option"
  hp_encrypt :: "bytes \<Rightarrow> u8 \<Rightarrow> bytes \<Rightarrow> (u8 \<times> bytes) option"
  hp_decrypt :: "bytes \<Rightarrow> u8 \<Rightarrow> bytes \<Rightarrow> (u8 \<times> bytes) option"

record quic_keys =
  keys_local :: dir_keys
  keys_remote :: dir_keys

datatype key_change = HandshakeKeys quic_keys | OneRttKeys quic_keys

section \<open>Initial keys\<close>

text \<open>
  A cipher suite, as far as the program looks at one: its number and its QUIC algorithm, if any.
  The crypto provider is a parameter: whether installing it succeeds, its list of suites, and
  \<open>Keys::initial\<close> of a suite, an algorithm and a connection ID, for the client or the server side.
\<close>

record tls13_suite =
  suite_id :: nat
  suite_quic :: "nat option"

datatype tls_side = TlsClient | TlsServer

record crypto_provider =
  install_default :: bool
  default_cipher_suites :: "tls13_suite list"
  keys_initial :: "tls13_suite \<Rightarrow> nat \<Rightarrow> bytes \<Rightarrow> tls_side \<Rightarrow> quic_keys"

definition install_provider :: "crypto_provider \<Rightarrow> (unit, crypto_error) result" where
  "install_provider p = (if install_default p then Ok () else Error ProviderInstall)"

fun first_quic_suite :: "tls13_suite list \<Rightarrow> (tls13_suite, crypto_error) result" where
  "first_quic_suite [] = Error NoQuicSuite"
| "first_quic_suite (tls13 # cs) = (if suite_quic tls13 \<noteq> None then Ok tls13 else first_quic_suite cs)"

definition default_quic_suite :: "crypto_provider \<Rightarrow> (tls13_suite, crypto_error) result" where
  "default_quic_suite p = first_quic_suite (default_cipher_suites p)"

definition client_initial_keys :: "crypto_provider \<Rightarrow> bytes \<Rightarrow> (quic_keys, crypto_error) result" where
  "client_initial_keys p dst_cid =
     andthen (default_quic_suite p) (\<lambda>suite.
     andthen (ok_or NoQuicSuite (suite_quic suite)) (\<lambda>quic_alg.
     Ok (keys_initial p suite quic_alg dst_cid TlsClient)))"

definition server_initial_keys :: "crypto_provider \<Rightarrow> bytes \<Rightarrow> (quic_keys, crypto_error) result" where
  "server_initial_keys p dst_cid =
     andthen (default_quic_suite p) (\<lambda>suite.
     andthen (ok_or NoQuicSuite (suite_quic suite)) (\<lambda>quic_alg.
     Ok (keys_initial p suite quic_alg dst_cid TlsServer)))"

section \<open>What packet protection promises\<close>

text \<open>
  Bytes changed in place keep their number, and a plaintext is no longer than what was decrypted:
  both are facts of the types in Rust.
\<close>

definition keys_typed :: "dir_keys \<Rightarrow> bool" where
  "keys_typed k \<longleftrightarrow>
     (\<forall>s f pn f' pn'. hp_encrypt k s f pn = Some (f', pn') \<longrightarrow> length pn' = length pn) \<and>
     (\<forall>s f pn f' pn'. hp_decrypt k s f pn = Some (f', pn') \<longrightarrow> length pn' = length pn) \<and>
     (\<forall>n aad p c tag. aead_encrypt k n aad p = Some (c, tag) \<longrightarrow>
        length c = length p \<and> length tag = tag_len k) \<and>
     (\<forall>n aad c p. aead_decrypt k n aad c = Some p \<longrightarrow> length p \<le> length c)"

text \<open>
  Matching keys: \<open>a\<close> seals what \<open>b\<close> opens. AEAD decryption under the same packet number and header
  gives the plaintext back. Header protection (RFC 9001, section 5.4.1) changes the low four bits
  of the first byte of a long header, the low five of a short one, and the packet number; removing
  it from the first byte and four bytes, of which the packet number is a prefix, gives both back.
\<close>

definition form_bits :: "u8 \<Rightarrow> u8" where
  "form_bits first = (if first AND 0x80 \<noteq> 0 then first AND 0xf0 else first AND 0xe0)"

definition aead_match :: "dir_keys \<Rightarrow> dir_keys \<Rightarrow> bool" where
  "aead_match a b \<longleftrightarrow>
     (\<forall>n aad p. \<exists>c tag. aead_encrypt a n aad p = Some (c, tag) \<and> length c = length p \<and>
        length tag = tag_len a \<and> aead_decrypt b n aad (c @ tag) = Some p)"

definition hp_match :: "dir_keys \<Rightarrow> dir_keys \<Rightarrow> bool" where
  "hp_match a b \<longleftrightarrow> sample_len b = sample_len a \<and>
     (\<forall>s f pn. length s = sample_len a \<and> pn \<noteq> [] \<and> length pn \<le> 4 \<longrightarrow>
        (\<exists>f' pn'. hp_encrypt a s f pn = Some (f', pn') \<and> length pn' = length pn \<and>
           form_bits f' = form_bits f \<and>
           (\<forall>ext. length (pn' @ ext) = 4 \<longrightarrow>
              (\<exists>junk. length junk = length ext \<and> hp_decrypt b s f' (pn' @ ext) = Some (f, pn @ junk)))))"

definition keys_match :: "dir_keys \<Rightarrow> dir_keys \<Rightarrow> bool" where
  "keys_match a b \<longleftrightarrow> aead_match a b \<and> hp_match a b"

section \<open>A concrete cipher\<close>

text \<open>
  An instance for the witnesses, that the hypotheses can hold: each byte is combined with the packet
  number, the tag holds the sum of the header's bytes, and the mask of header protection is the
  first five bytes of the sample, applied as RFC 9001 says (the number of masked packet number
  bytes comes from the unprotected first byte).
\<close>

definition hp_mask :: "bytes \<Rightarrow> u8 \<Rightarrow> u8 \<Rightarrow> bytes \<Rightarrow> (u8 \<times> bytes) option" where
  "hp_mask m plain first pn =
     (let n = unat (plain AND 3) + 1 in
      Some (first XOR (m ! 0 AND (if first AND 0x80 \<noteq> 0 then 0x0f else 0x1f)),
            map2 (XOR) (take n pn) (take n (drop 1 m)) @ drop n pn))"

definition toy_dir_keys :: dir_keys where
  "toy_dir_keys = \<lparr>
     tag_len = 16,
     sample_len = 16,
     aead_encrypt = (\<lambda>n aad p. Some (map (\<lambda>b. b XOR ucast n) p, replicate 16 (sum_list aad))),
     aead_decrypt = (\<lambda>n aad c.
       let k = length c - 16 in
       if drop k c = replicate 16 (sum_list aad) then Some (map (\<lambda>b. b XOR ucast n) (take k c)) else None),
     hp_encrypt = (\<lambda>s first pn. if length s = 16 \<and> length pn \<le> 4 then hp_mask s first first pn else None),
     hp_decrypt = (\<lambda>s first pn.
       if length s = 16 \<and> length pn \<le> 4
       then hp_mask s (first XOR (s ! 0 AND (if first AND 0x80 \<noteq> 0 then 0x0f else 0x1f))) first pn
       else None)\<rparr>"

definition toy_keys :: quic_keys where
  "toy_keys = \<lparr>keys_local = toy_dir_keys, keys_remote = toy_dir_keys\<rparr>"

lemma toy_aead: "aead_match toy_dir_keys toy_dir_keys"
proof -
  have "map (\<lambda>b. b XOR (ucast n :: u8)) (map (\<lambda>b. b XOR ucast n) p) = p" for n :: u64 and p
    by (simp add: comp_def xor.assoc)
  then show ?thesis by (simp add: aead_match_def toy_dir_keys_def Let_def)
qed

lemma xor_mask_top:
  "(f XOR (m AND 0x0f)) AND 0x80 = f AND (0x80 :: u8)" "(f XOR (m AND 0x1f)) AND 0x80 = f AND (0x80 :: u8)"
  "(f XOR (m AND 0x0f)) AND 0xf0 = f AND (0xf0 :: u8)" "(f XOR (m AND 0x1f)) AND 0xe0 = f AND (0xe0 :: u8)"
proof -
  have z: "(m AND 0x0f) AND 0x80 = 0" "(m AND 0x1f) AND 0x80 = 0" "(m AND 0x0f) AND 0xf0 = 0"
      "(m AND 0x1f) AND 0xe0 = 0"
    by (simp_all add: and.assoc)
  show "(f XOR (m AND 0x0f)) AND 0x80 = f AND (0x80 :: u8)" "(f XOR (m AND 0x1f)) AND 0x80 = f AND (0x80 :: u8)"
    "(f XOR (m AND 0x0f)) AND 0xf0 = f AND (0xf0 :: u8)" "(f XOR (m AND 0x1f)) AND 0xe0 = f AND (0xe0 :: u8)"
    by (simp_all only: bit.conj_xor_distrib2 z xor.right_neutral)
qed

lemma map2_xor_twice:
  "length xs \<le> length ms \<Longrightarrow> map2 (XOR) (map2 (XOR) xs ms) ms = (xs :: bytes)"
proof (induction xs arbitrary: ms)
  case (Cons x xs)
  then show ?case by (cases ms) (simp_all add: xor.assoc)
qed simp

lemma mask_twice:
  fixes pn m :: bytes
  assumes "length m = 4" and "length pn \<le> 4" and "length (pn @ ext) = 4"
  shows "\<exists>junk. length junk = length ext \<and>
     map2 (XOR) (take n (map2 (XOR) (take n pn) (take n m) @ drop n pn @ ext)) (take n m) @
       drop n (map2 (XOR) (take n pn) (take n m) @ drop n pn @ ext) = pn @ junk"
proof (cases "n \<le> length pn")
  case True
  then have l: "length (map2 (XOR) (take n pn) (take n m)) = n" using assms by simp
  then have "take n (map2 (XOR) (take n pn) (take n m) @ drop n pn @ ext) = map2 (XOR) (take n pn) (take n m)"
    "drop n (map2 (XOR) (take n pn) (take n m) @ drop n pn @ ext) = drop n pn @ ext"
    by simp_all
  moreover have "map2 (XOR) (map2 (XOR) (take n pn) (take n m)) (take n m) = take n pn"
    using assms True by (intro map2_xor_twice) simp
  ultimately show ?thesis by (simp flip: append_assoc)
next
  case False
  let ?k = "length pn"
  have m: "take n m = take ?k m @ drop ?k (take n m)"
    using False by (metis append_take_drop_id min.absorb1 nat_le_linear take_take)
  have p: "map2 (XOR) (take n pn) (take n m) = map2 (XOR) pn (take ?k m)"
    using False assms by (subst m) (simp add: zip_append2 min_absorb2)
  have l: "length (map2 (XOR) pn (take ?k m)) = ?k" using assms by simp
  have "map2 (XOR) (take n (map2 (XOR) pn (take ?k m) @ ext)) (take n m) =
      map2 (XOR) (map2 (XOR) pn (take ?k m)) (take ?k m) @
        map2 (XOR) (take (n - ?k) ext) (drop ?k (take n m))"
    using False l by (subst m) (simp add: zip_append)
  also have "map2 (XOR) (map2 (XOR) pn (take ?k m)) (take ?k m) = pn"
    using assms by (intro map2_xor_twice) simp
  finally have "map2 (XOR) (take n (map2 (XOR) pn (take ?k m) @ ext)) (take n m) @
      drop n (map2 (XOR) pn (take ?k m) @ ext) =
      pn @ (map2 (XOR) (take (n - ?k) ext) (drop ?k (take n m)) @ drop (n - ?k) ext)"
    using False l by simp
  moreover have "length (map2 (XOR) (take (n - ?k) ext) (drop ?k (take n m)) @ drop (n - ?k) ext) = length ext"
    using assms False by simp
  ultimately show ?thesis using False unfolding p by auto
qed

lemma toy_hp: "hp_match toy_dir_keys toy_dir_keys"
proof -
  have "\<exists>f' pn'. hp_encrypt toy_dir_keys s f pn = Some (f', pn') \<and> length pn' = length pn \<and>
      form_bits f' = form_bits f \<and>
      (\<forall>ext. length (pn' @ ext) = 4 \<longrightarrow>
         (\<exists>junk. length junk = length ext \<and> hp_decrypt toy_dir_keys s f' (pn' @ ext) = Some (f, pn @ junk)))"
    if s: "length s = 16" and pn: "length pn \<le> 4" for s f pn
  proof -
    let ?b = "if f AND 0x80 \<noteq> 0 then 0x0f else 0x1f :: u8"
    let ?f = "f XOR (s ! 0 AND ?b)"
    let ?n = "unat (f AND 3) + 1"
    let ?m = "take 4 (drop 1 s)"
    have n: "?n \<le> 4" using low_bits_2 [of f] by auto
    let ?pn = "map2 (XOR) (take ?n pn) (take ?n (drop 1 s)) @ drop ?n pn"
    have m: "take ?n (drop 1 s) = take ?n ?m" using n by (simp add: min_absorb1)
    have top: "?f AND 0x80 = f AND 0x80" by (simp add: xor_mask_top)
    have e: "hp_encrypt toy_dir_keys s f pn = Some (?f, ?pn)"
      using s pn by (simp add: toy_dir_keys_def hp_mask_def Let_def)
    have "\<exists>junk. length junk = length ext \<and> hp_decrypt toy_dir_keys s ?f (?pn @ ext) = Some (f, pn @ junk)"
      if "length (?pn @ ext) = 4" for ext
    proof -
      have len: "length (pn @ ext) = 4" using that s n by simp
      have d: "hp_decrypt toy_dir_keys s ?f (?pn @ ext) =
          Some (f, map2 (XOR) (take ?n (?pn @ ext)) (take ?n (drop 1 s)) @ drop ?n (?pn @ ext))"
        using s that top by (simp add: toy_dir_keys_def hp_mask_def Let_def xor.assoc)
      have "length ?m = 4" using s by simp
      from mask_twice [OF this pn len, of ?n] show ?thesis
        unfolding d unfolding m append_assoc by (simp only: option.inject prod.inject simp_thms)
    qed
    moreover have "length ?pn = length pn" using s n pn by simp
    moreover have "form_bits ?f = form_bits f" using top by (simp add: form_bits_def xor_mask_top)
    ultimately show ?thesis using e by blast
  qed
  then show ?thesis by (simp add: hp_match_def toy_dir_keys_def)
qed

lemma toy_match: "keys_match toy_dir_keys toy_dir_keys"
  by (simp add: keys_match_def toy_aead toy_hp)

lemma length_hp_mask:
  assumes "length m = 16" and "hp_mask m p f pn = Some (f', pn')"
  shows "length pn' = length pn"
proof -
  have "unat (p AND 3) + 1 \<le> 4" using low_bits_2 [of p] by auto
  with assms show ?thesis by (auto simp: hp_mask_def Let_def)
qed

lemma toy_typed: "keys_typed toy_dir_keys"
  by (auto simp: keys_typed_def toy_dir_keys_def Let_def length_hp_mask split: if_splits)

end
