(* ===== verification/Contracts.thy ===== *)
theory Contracts
  imports Prelude
begin

text \<open>
  Two contracts that several parts of the program promise.

  \<^item> \<open>pn_source\<close>: a counter that hands out packet numbers. Its user needs that no number comes twice,
    whatever else happens to the state between two draws: the packet number is the nonce of the
    AEAD.
  \<^item> \<open>fifo\<close>: a buffer filled at the end and emptied from the front. Its user needs that nothing is
    lost, repeated or reordered, over any sequence of the two operations.

  The locales are interpreted on a packet number space, on its list of pending acknowledgements, and
  on the application data a connection received.
\<close>

section \<open>Packet numbers that are never reused\<close>

text \<open>
  \<open>draw\<close> hands out a number, \<open>other\<close> is the effect of any other operation, named by an element of
  \<open>'o\<close>. A schedule is a list of both.
\<close>

locale pn_source =
  fixes draw :: "'s \<Rightarrow> u64 \<times> 's"
    and peek :: "'s \<Rightarrow> u64"
    and other :: "'o \<Rightarrow> 's \<Rightarrow> 's"
  assumes draw_peek: "fst (draw s) = peek s"
    and peek_draw: "peek (snd (draw s)) = peek s + 1"
    and peek_other: "peek (other p s) = peek s"
begin

primrec drawn :: "'o option list \<Rightarrow> 's \<Rightarrow> u64 list" where
  "drawn [] s = []"
| "drawn (p # ps) s =
     (case p of None \<Rightarrow> fst (draw s) # drawn ps (snd (draw s)) | Some q \<Rightarrow> drawn ps (other q s))"

primrec after :: "'o option list \<Rightarrow> 's \<Rightarrow> 's" where
  "after [] s = s"
| "after (p # ps) s = (case p of None \<Rightarrow> after ps (snd (draw s)) | Some q \<Rightarrow> after ps (other q s))"

lemma drawn_numbers: "drawn ps s = map (\<lambda>i. peek s + of_nat i) [0..<length (filter (\<lambda>p. p = None) ps)]"
proof (induction ps arbitrary: s)
  case (Cons p ps)
  show ?case
  proof (cases p)
    case None
    have "peek s # map (\<lambda>i. peek s + 1 + of_nat i) [0..<n] = map (\<lambda>i. peek s + of_nat i) [0..<Suc n]" for n
      by (simp add: upt_conv_Cons map_Suc_upt [symmetric] algebra_simps del: upt_Suc)
    with None Cons show ?thesis by (simp add: draw_peek peek_draw del: upt_Suc)
  next
    case (Some q)
    with Cons show ?thesis by (simp add: peek_other)
  qed
qed simp

lemma peek_after: "peek (after ps s) = peek s + of_nat (length (filter (\<lambda>p. p = None) ps))"
  by (induction ps arbitrary: s) (auto simp: peek_draw peek_other algebra_simps split: option.split)

lemma drawn_distinct:
  assumes "length (filter (\<lambda>p. p = None) ps) \<le> 2 ^ 64"
  shows "distinct (drawn ps s)"
proof -
  let ?n = "length (filter (\<lambda>p. p = None) ps)"
  have "inj_on (\<lambda>i. peek s + of_nat i) {0..<?n}"
  proof (rule inj_onI)
    fix i j
    assume ij: "i \<in> {0..<?n}" "j \<in> {0..<?n}" and "peek s + of_nat i = peek s + of_nat j"
    then have "unat (of_nat i :: u64) = unat (of_nat j :: u64)" by simp
    moreover have "i < 2 ^ 64" "j < 2 ^ 64" using assms ij by auto
    ultimately show "i = j" by (simp add: unsigned_of_nat take_bit_nat_eq_self)
  qed
  then show ?thesis by (simp add: drawn_numbers distinct_map)
qed

end

section \<open>Buffers that lose nothing\<close>

locale fifo =
  fixes contents :: "'s \<Rightarrow> 'a list"
    and put :: "'a list \<Rightarrow> 's \<Rightarrow> 's"
    and take_out :: "nat \<Rightarrow> 's \<Rightarrow> 'a list \<times> 's"
  assumes contents_put: "contents (put xs s) = contents s @ xs"
    and take_out_front: "fst (take_out n s) @ contents (snd (take_out n s)) = contents s"
begin

text \<open>A trace of puts (\<open>Inl\<close>) and takes (\<open>Inr\<close>): what came out, and the state it leaves.\<close>

primrec came_out :: "('a list + nat) list \<Rightarrow> 's \<Rightarrow> 'a list" where
  "came_out [] s = []"
| "came_out (c # cs) s = (case c of
       Inl xs \<Rightarrow> came_out cs (put xs s)
     | Inr n \<Rightarrow> fst (take_out n s) @ came_out cs (snd (take_out n s)))"

primrec left_in :: "('a list + nat) list \<Rightarrow> 's \<Rightarrow> 's" where
  "left_in [] s = s"
| "left_in (c # cs) s = (case c of
       Inl xs \<Rightarrow> left_in cs (put xs s)
     | Inr n \<Rightarrow> left_in cs (snd (take_out n s)))"

primrec went_in :: "('a list + nat) list \<Rightarrow> 'a list" where
  "went_in [] = []"
| "went_in (c # cs) = (case c of Inl xs \<Rightarrow> xs @ went_in cs | Inr n \<Rightarrow> went_in cs)"

lemma nothing_lost: "came_out cs s @ contents (left_in cs s) = contents s @ went_in cs"
proof (induction cs arbitrary: s)
  case (Cons c cs)
  show ?case
  proof (cases c)
    case (Inl xs)
    with Cons [of "put xs s"] show ?thesis by (simp add: contents_put)
  next
    case (Inr n)
    then show ?thesis
      using Cons [of "snd (take_out n s)"] take_out_front [of n s] by simp
  qed
qed simp

end

end
