(* ===== verification/Space.thy ===== *)
theory Space
  imports Crypto Contracts
begin

text \<open>
  \<open>src/space.rs\<close>: the state of one packet number space. The clock (\<open>Instant::now()\<close>) is an argument,
  in nanoseconds.
\<close>

record space =
  sp_id :: packet_number_space
  sp_keys :: "quic_keys option"
  sp_next_send_pn :: u64
  sp_largest_recv_pn :: u64
  sp_last_recv_time :: "nat option"
  sp_pending_acks :: "u64 list"

definition space_new :: "packet_number_space \<Rightarrow> space" where
  "space_new i = \<lparr>sp_id = i, sp_keys = None, sp_next_send_pn = 0, sp_largest_recv_pn = 0,
     sp_last_recv_time = None, sp_pending_acks = []\<rparr>"

definition set_keys :: "quic_keys \<Rightarrow> space \<Rightarrow> space" where
  "set_keys k s = s\<lparr>sp_keys := Some k\<rparr>"

definition local_keys :: "space \<Rightarrow> dir_keys option" where
  "local_keys s = map_option keys_local (sp_keys s)"

definition remote_keys :: "space \<Rightarrow> dir_keys option" where
  "remote_keys s = map_option keys_remote (sp_keys s)"

definition has_keys :: "space \<Rightarrow> bool" where
  "has_keys s = (sp_keys s \<noteq> None)"

definition next_send_pn :: "space \<Rightarrow> u64 \<times> space" where
  "next_send_pn s = (let pn = sp_next_send_pn s in (pn, s\<lparr>sp_next_send_pn := pn + 1\<rparr>))"

definition peek_send_pn :: "space \<Rightarrow> u64" where
  "peek_send_pn s = sp_next_send_pn s"

definition largest_recv_pn :: "space \<Rightarrow> u64" where
  "largest_recv_pn s = sp_largest_recv_pn s"

definition record_recv_pn :: "nat \<Rightarrow> u64 \<Rightarrow> space \<Rightarrow> space" where
  "record_recv_pn now pn s =
     (let s = (if pn > sp_largest_recv_pn s then s\<lparr>sp_largest_recv_pn := pn\<rparr> else s) in
      s\<lparr>sp_pending_acks := sp_pending_acks s @ [pn], sp_last_recv_time := Some now\<rparr>)"

definition take_pending_acks :: "space \<Rightarrow> u64 list \<times> space" where
  "take_pending_acks s = (sp_pending_acks s, s\<lparr>sp_pending_acks := []\<rparr>)"

definition time_since_last_recv :: "nat \<Rightarrow> space \<Rightarrow> nat option" where
  "time_since_last_recv now s = map_option (\<lambda>t. now - t) (sp_last_recv_time s)"

section \<open>The operations that draw no packet number\<close>

datatype space_op = SetKeys quic_keys | RecordRecv nat u64 | TakeAcks

fun space_step :: "space_op \<Rightarrow> space \<Rightarrow> space" where
  "space_step (SetKeys k) s = set_keys k s"
| "space_step (RecordRecv now pn) s = record_recv_pn now pn s"
| "space_step TakeAcks s = snd (take_pending_acks s)"

lemmas space_defs = set_keys_def local_keys_def remote_keys_def has_keys_def next_send_pn_def
  peek_send_pn_def largest_recv_pn_def record_recv_pn_def take_pending_acks_def Let_def

interpretation space_pns: pn_source next_send_pn peek_send_pn space_step
proof
  show "peek_send_pn (space_step p s) = peek_send_pn s" for p s
    by (cases p) (auto simp: space_defs)
qed (simp_all add: space_defs)

text \<open>
  Acknowledgements as a buffer: packet numbers are recorded one at a time and taken all at once, so
  that the bound of a take does not matter.
\<close>

definition record_all :: "nat \<Rightarrow> u64 list \<Rightarrow> space \<Rightarrow> space" where
  "record_all now = fold (record_recv_pn now)"

lemma pending_record_all: "sp_pending_acks (record_all now pns s) = sp_pending_acks s @ pns"
  by (induction pns arbitrary: s) (simp_all add: record_all_def record_recv_pn_def Let_def)

interpretation space_acks: fifo sp_pending_acks "record_all now" "\<lambda>_. take_pending_acks" for now
  by unfold_locales (simp_all add: pending_record_all take_pending_acks_def)

lemma largest_record_all:
  "sp_largest_recv_pn (record_all now pns s) = fold max pns (sp_largest_recv_pn s)"
  by (induction pns arbitrary: s) (auto simp: record_all_def record_recv_pn_def Let_def max_def)

section \<open>Properties\<close>

text \<open>
  The packet numbers a space hands out for sending: over any schedule of its operations they are
  consecutive from the current one, and none is used twice before \<open>2 ^ 64\<close> packets were sent.
\<close>

theorem space_numbers_unique:
  assumes "length (filter (\<lambda>p. p = None) ops) \<le> 2 ^ 64"
  shows "space_pns.drawn ops s =
       map (\<lambda>i. sp_next_send_pn s + of_nat i) [0..<length (filter (\<lambda>p. p = None) ops)] \<and>
     distinct (space_pns.drawn ops s)"
  using space_pns.drawn_numbers [of ops s] space_pns.drawn_distinct [OF assms, of s]
  by (simp add: peek_send_pn_def)

theorem space_numbers_unique_witness:
  "space_pns.drawn [None, Some TakeAcks, Some (RecordRecv 5 9), None] (space_new InitialSpace) = [0, 1]"
  using space_numbers_unique [of "[None, Some TakeAcks, Some (RecordRecv 5 9), None]" "space_new InitialSpace"]
  by (simp add: space_new_def upt_rec)

text \<open>
  Every packet number recorded as received is handed out for acknowledgement exactly once and in
  order, over any interleaving of recording and taking: what was taken, followed by what is still
  pending, is what was pending before followed by what was recorded.
\<close>

theorem space_acks_complete:
  "space_acks.came_out now ops s @ sp_pending_acks (space_acks.left_in now ops s) =
     sp_pending_acks s @ space_acks.went_in ops"
  by (rule space_acks.nothing_lost)

text \<open>
  The largest received packet number of a space is the maximum of those recorded since it was
  created, and 0 before the first.
\<close>

theorem space_largest_received:
  "largest_recv_pn (record_all now pns (space_new i)) = Max (insert 0 (set pns))"
proof -
  have "fold max pns 0 = Max (insert 0 (set pns))"
    using Max.set_eq_fold [of 0 pns] by simp
  then show ?thesis by (simp add: largest_recv_pn_def largest_record_all space_new_def)
qed

end
