(* ===== verification/Protection.thy ===== *)
theory Protection
  imports Space Frame_Parse Packet_Proofs
begin

text \<open>
  The free functions of \<open>src/connection.rs\<close> that turn frames into protected packets and back:
  \<open>encrypt_packet\<close>, \<open>encrypt_long\<close>, \<open>encrypt_short\<close>, \<open>build_initial_packet\<close>, the three decryption
  functions, and their helpers. Keys are values of the record \<open>dir_keys\<close>.
\<close>

section \<open>Frames of a payload\<close>

text \<open>\<open>for f in frames { frame::write_frame(f, &mut frames_buf)?; }\<close>\<close>

fun write_frames :: "frame list \<Rightarrow> (bytes, unit, frame_error) act" where
  "write_frames [] = returnA ()"
| "write_frames (f # fs) = seqA (write_frame f) (\<lambda>_. write_frames fs)"

text \<open>
  \<open>while !remaining.is_empty() { .. }\<close>: the loop ends because \<open>parse_frame\<close> consumes at least a byte.
\<close>

function parse_frames :: "bytes \<Rightarrow> (frame list, frame_error) result" where
  "parse_frames remaining =
     (if remaining = [] then Ok []
      else
        andthen (parse_frame remaining) (\<lambda>(frame, consumed).
        andthen (slice_from remaining consumed) (\<lambda>remaining.
        andthen (parse_frames remaining) (\<lambda>frames. Ok (frame # frames)))))"
  by pat_completeness auto
termination
proof (relation "measure length")
  fix remaining rest :: bytes and p frame consumed
  assume "remaining \<noteq> []" and "parse_frame remaining = Inr p" and "(frame, consumed) = p"
    and "(slice_from remaining consumed :: (bytes, frame_error) result) = Inr rest"
  then show "(rest, remaining) \<in> measure length"
    using parse_frame_result(1) [of remaining frame consumed]
    by (auto simp: slice_from_def split: if_splits)
qed simp

declare parse_frames.simps [simp del]

text \<open>\<open>while frames_buf.len() < n { frames_buf.push(0x00); }\<close>\<close>

function pad_to :: "nat \<Rightarrow> bytes \<Rightarrow> bytes" where
  "pad_to n buf = (if length buf < n then pad_to n (buf @ [0]) else buf)"
  by pat_completeness auto
termination by (relation "measure (\<lambda>(n, buf). n - length buf)") auto

declare pad_to.simps [simp del]

section \<open>Packet number bytes\<close>

definition encoded_pn_len :: "u64 \<Rightarrow> nat" where
  "encoded_pn_len pn = (if pn < 256 then 1 else if pn < 65536 then 2 else 4)"

definition write_pn :: "bytes \<Rightarrow> u64 \<Rightarrow> nat \<Rightarrow> (bytes, connection_error) result" where
  "write_pn buf pn len =
     (if len = 1 then store_at buf 0 (ucast pn)
      else if len = 2 then
        andthen (store_at buf 0 (ucast (drop_bit 8 pn))) (\<lambda>buf.
        store_at buf 1 (ucast pn))
      else if len = 3 then
        andthen (store_at buf 0 (ucast (drop_bit 16 pn))) (\<lambda>buf.
        andthen (store_at buf 1 (ucast (drop_bit 8 pn))) (\<lambda>buf.
        store_at buf 2 (ucast pn)))
      else if len = 4 then
        andthen (store_at buf 0 (ucast (drop_bit 24 pn))) (\<lambda>buf.
        andthen (store_at buf 1 (ucast (drop_bit 16 pn))) (\<lambda>buf.
        andthen (store_at buf 2 (ucast (drop_bit 8 pn))) (\<lambda>buf.
        store_at buf 3 (ucast pn))))
      else Ok buf)"

text \<open>\<open>connection::read_pn\<close>, by the length of the slice.\<close>

definition read_pn_bytes :: "bytes \<Rightarrow> u32" where
  "read_pn_bytes bs = (case bs of
       [b0] \<Rightarrow> ucast b0
     | [b0, b1] \<Rightarrow> ucast (be16 b0 b1)
     | [b0, b1, b2] \<Rightarrow> be32 0 b0 b1 b2
     | [b0, b1, b2, b3] \<Rightarrow> be32 b0 b1 b2 b3
     | _ \<Rightarrow> 0)"

section \<open>Header offsets\<close>

definition hdr_pn_offset_long :: "long_header \<Rightarrow> nat" where
  "hdr_pn_offset_long hdr =
     (let prefix = 1 + 4 + 1 + length (cid_bytes (lh_dst_cid hdr)) + 1 + length (cid_bytes (lh_src_cid hdr));
          token_len_size = (if lh_ty hdr = Initial then 1 else 0);
          length_field_size = (case lh_length hdr of None \<Rightarrow> 0 | Some l \<Rightarrow> encoded_len l) in
      prefix + token_len_size + length_field_size)"

definition hdr_pn_offset_short :: "short_header \<Rightarrow> nat" where
  "hdr_pn_offset_short hdr = 1 + length (cid_bytes (sh_dst_cid hdr))"

definition hdr_size_long :: "nat \<Rightarrow> nat \<Rightarrow> nat \<Rightarrow> nat" where
  "hdr_size_long dst_cid_len src_cid_len len =
     (let token_varint_size = 1; length_varint_size = encoded_len (of_nat len) in
      1 + 4 + 1 + dst_cid_len + 1 + src_cid_len + token_varint_size + length_varint_size)"

section \<open>Encryption\<close>

text \<open>\<open>varint::encode(v, &mut header[pos..])?\<close>\<close>

definition encode_at :: "u64 \<Rightarrow> bytes \<Rightarrow> nat \<Rightarrow> (bytes, connection_error) result" where
  "encode_at v header pos =
     andthen (slice_from header pos) (\<lambda>r.
     case encode v r of
       (Inl e, r') \<Rightarrow> map_err from_varint_error (Inl e)
     | (Inr n, r') \<Rightarrow> Ok (take pos header @ r'))"

text \<open>\<open>write_pn(&mut header[pos..], pn, pn_len)\<close>\<close>

definition write_pn_at :: "bytes \<Rightarrow> nat \<Rightarrow> u64 \<Rightarrow> nat \<Rightarrow> (bytes, connection_error) result" where
  "write_pn_at header pos pn pn_len =
     andthen (slice_from header pos) (\<lambda>r.
     andthen (write_pn r pn pn_len) (\<lambda>r'. Ok (take pos header @ r')))"

text \<open>
  The end of \<open>encrypt_long\<close> and \<open>encrypt_short\<close>, which is the same text in both: AEAD encryption of
  the payload under the unprotected header, then header protection.
\<close>

definition seal ::
  "dir_keys \<Rightarrow> bytes \<Rightarrow> nat \<Rightarrow> bytes \<Rightarrow> u64 \<Rightarrow> nat \<Rightarrow> (bytes, connection_error) result" where
  "seal k header pn_offset payload pn pn_len =
     andthen (ok_or (Transport InternalError) (aead_encrypt k pn header payload)) (\<lambda>(payload, tag).
     let payload = payload @ tag;
         sample_start = 4 - pn_len in
     andthen (slice payload sample_start (sample_start + sample_len k)) (\<lambda>sample.
     andthen (index_at header 0) (\<lambda>first_byte.
     andthen (slice header pn_offset (pn_offset + pn_len)) (\<lambda>pn_bytes.
     andthen (ok_or (Transport InternalError) (hp_encrypt k sample first_byte pn_bytes)) (\<lambda>(first_byte, pn_bytes).
     andthen (store_at header 0 first_byte) (\<lambda>header.
     andthen (store_slice header pn_offset pn_bytes) (\<lambda>header.
     Ok (header @ payload))))))))"

definition space_type_bits :: "packet_number_space \<Rightarrow> u8" where
  "space_type_bits s = (case s of InitialSpace \<Rightarrow> 0 | ApplicationData \<Rightarrow> 1 | HandshakeSpace \<Rightarrow> 2)"

definition encrypt_long ::
  "dir_keys \<Rightarrow> packet_number_space \<Rightarrow> u32 \<Rightarrow> bytes \<Rightarrow> bytes \<Rightarrow> bytes \<Rightarrow> u64 \<Rightarrow> nat \<Rightarrow> bytes option \<Rightarrow>
     (bytes, connection_error) result" where
  "encrypt_long k pn_space version dst_cid src_cid frames pn pn_len token =
     (let is_initial = (pn_space = InitialSpace);
          payload = frames;
          hdr_prefix = 1 + 4 + 1 + length dst_cid + 1 + length src_cid;
          token_len = (case token of None \<Rightarrow> 0 | Some t \<Rightarrow> of_nat (length t));
          token_varint_size = (if is_initial then encoded_len token_len else 0);
          length_value = of_nat (pn_len + length payload + tag_len k);
          length_varint_size = encoded_len length_value;
          pn_offset = hdr_prefix + token_varint_size + length_varint_size;
          header = replicate (pn_offset + pn_len) 0;
          type_bits = space_type_bits pn_space in
     andthen (store_at header 0 (0xc0 OR push_bit 4 type_bits OR of_nat (pn_len - 1))) (\<lambda>header.
     andthen (store_slice header 1 (to_be32 version)) (\<lambda>header.
     andthen (store_at header 5 (of_nat (length dst_cid))) (\<lambda>header.
     andthen (store_slice header 6 dst_cid) (\<lambda>header.
     let scid_pos = 6 + length dst_cid in
     andthen (store_at header scid_pos (of_nat (length src_cid))) (\<lambda>header.
     andthen (store_slice header (scid_pos + 1) src_cid) (\<lambda>header.
     andthen
       (if is_initial then
          let token_pos = scid_pos + 1 + length src_cid in
          andthen (encode_at token_len header token_pos) (\<lambda>header.
          let tvs = encoded_len token_len; length_pos = token_pos + tvs in
          encode_at length_value header length_pos)
        else
          let length_pos = scid_pos + 1 + length src_cid in
          encode_at length_value header length_pos) (\<lambda>header.
     andthen (write_pn_at header pn_offset pn pn_len) (\<lambda>header.
     seal k header pn_offset payload pn pn_len)))))))))"

definition encrypt_short ::
  "dir_keys \<Rightarrow> bytes \<Rightarrow> bytes \<Rightarrow> u64 \<Rightarrow> nat \<Rightarrow> bool \<Rightarrow> (bytes, connection_error) result" where
  "encrypt_short k dst_cid frames pn pn_len key_phase =
     (let payload = frames;
          pn_offset = 1 + length dst_cid;
          header = replicate (pn_offset + pn_len) 0;
          pn_len_enc = (if pn_len = 4 then 0 else of_nat pn_len) in
     andthen (store_at header 0 (0x40 OR (if key_phase then 0x04 else 0) OR pn_len_enc)) (\<lambda>header.
     andthen (store_slice header 1 dst_cid) (\<lambda>header.
     andthen (write_pn_at header pn_offset pn pn_len) (\<lambda>header.
     seal k header pn_offset payload pn pn_len))))"

text \<open>\<open>write_frame(..)?\<close> over all frames into an empty buffer.\<close>

definition frames_to_bytes :: "frame list \<Rightarrow> (bytes, connection_error) result" where
  "frames_to_bytes frames = (case write_frames frames [] of
       (Inl e, buf) \<Rightarrow> map_err InFrame (Inl e)
     | (Inr _, buf) \<Rightarrow> Ok buf)"

definition encrypt_packet ::
  "space \<Rightarrow> packet_number_space \<Rightarrow> u32 \<Rightarrow> bytes \<Rightarrow> bytes \<Rightarrow> frame list \<Rightarrow> u64 \<Rightarrow> nat \<Rightarrow> bool \<Rightarrow>
     (bytes, connection_error) result" where
  "encrypt_packet space pn_space version dst_cid src_cid frames pn pn_len is_established =
     andthen (ok_or (Transport InternalError) (local_keys space)) (\<lambda>k.
     let is_long = (pn_space \<noteq> ApplicationData \<or> \<not> is_established) in
     andthen (frames_to_bytes frames) (\<lambda>frames_buf.
     let frames_buf =
           (if pn_space = InitialSpace then
              let hdr_estimate =
                    (if is_long
                     then hdr_size_long (length dst_cid) (length src_cid) (length frames_buf + pn_len + tag_len k)
                     else 1 + length dst_cid + pn_len);
                  min_size = 1200;
                  payload_needed = min_size - (hdr_estimate + tag_len k) in
              pad_to payload_needed frames_buf
            else frames_buf);
         hp_min = sample_len k + 4 - pn_len;
         frames_buf = pad_to hp_min frames_buf in
     if is_long then
       encrypt_long k pn_space version dst_cid src_cid frames_buf pn pn_len
         (if pn_space = InitialSpace then Some [] else None)
     else encrypt_short k dst_cid frames_buf pn pn_len False))"

definition build_initial_packet ::
  "quic_keys \<Rightarrow> bytes \<Rightarrow> bytes \<Rightarrow> bytes \<Rightarrow> (bytes, connection_error) result" where
  "build_initial_packet k dst_cid src_cid client_hello =
     (let pn = 0; pn_len = 1; tl = tag_len (keys_local k);
          crypto_frame = Crypto 0 client_hello in
     andthen (frames_to_bytes [crypto_frame]) (\<lambda>frames_buf.
     let hdr_est = hdr_size_long (length dst_cid) (length src_cid) (length frames_buf + pn_len + tl);
         min_payload = 1200 - (hdr_est + tl);
         frames_buf = pad_to min_payload frames_buf in
     encrypt_long (keys_local k) InitialSpace VERSION_1 dst_cid src_cid frames_buf pn pn_len (Some [])))"

section \<open>Decryption\<close>

text \<open>
  The end of the two decryption functions, which is the same text in both: AEAD decryption under the
  unprotected header, then the frames.
\<close>

definition open_payload ::
  "dir_keys \<Rightarrow> bytes \<Rightarrow> nat \<Rightarrow> u8 \<Rightarrow> bytes \<Rightarrow> nat \<Rightarrow> u64 \<Rightarrow> (u64 \<times> frame list, connection_error) result" where
  "open_payload k packet pn_offset first_byte pn_bytes pn_len full_pn =
     (let aad_len = pn_offset + pn_len in
     andthen (slice packet 0 aad_len) (\<lambda>aad.
     andthen (store_at aad 0 first_byte) (\<lambda>aad.
     andthen (store_slice aad pn_offset pn_bytes) (\<lambda>aad.
     andthen (slice_from packet aad_len) (\<lambda>encrypted.
     andthen (ok_or (Transport ProtocolViolation) (aead_decrypt k full_pn aad encrypted)) (\<lambda>plaintext.
     andthen (map_err InFrame (parse_frames plaintext)) (\<lambda>frames.
     Ok (full_pn, frames))))))))"

definition decrypt_and_parse_long_inner ::
  "bytes \<Rightarrow> nat \<Rightarrow> dir_keys \<Rightarrow> (u64 \<times> frame list, connection_error) result" where
  "decrypt_and_parse_long_inner packet pn_offset k =
     (let sample_start = pn_offset + 4 in
     if length packet < sample_start + sample_len k then
       Error (InPacket (PktBufferTooShort (sample_start + sample_len k) (length packet)))
     else
       andthen (slice packet sample_start (sample_start + sample_len k)) (\<lambda>sample.
       let max_pn = 4; pn_end = min (pn_offset + max_pn) (length packet) in
       andthen (index_at packet 0) (\<lambda>first_byte.
       andthen (slice packet pn_offset pn_end) (\<lambda>pn_bytes.
       let pn_bytes = resize max_pn 0 pn_bytes in
       andthen (ok_or (Transport ProtocolViolation) (hp_decrypt k sample first_byte pn_bytes)) (\<lambda>(first_byte, pn_bytes).
       let pn_len = unat ((first_byte AND 0x03) + 1) in
       andthen (slice pn_bytes 0 pn_len) (\<lambda>pn_bytes.
       let truncated = read_pn_bytes pn_bytes;
           full_pn = decode_packet_number 0 (ucast truncated) (of_nat pn_len) in
       open_payload k packet pn_offset first_byte pn_bytes pn_len full_pn))))))"

definition decrypt_initial ::
  "bytes \<Rightarrow> long_header \<Rightarrow> quic_keys \<Rightarrow> (frame list \<times> u64, connection_error) result" where
  "decrypt_initial packet hdr k =
     (let pn_offset = hdr_pn_offset_long hdr in
     andthen (decrypt_and_parse_long_inner packet pn_offset (keys_remote k)) (\<lambda>(pn, frames).
     Ok (frames, pn)))"

definition decrypt_and_parse_long ::
  "space \<Rightarrow> bytes \<Rightarrow> nat \<Rightarrow> (u64 \<times> frame list, connection_error) result" where
  "decrypt_and_parse_long space packet pn_offset =
     andthen (ok_or (Transport InternalError) (remote_keys space)) (\<lambda>remote.
     decrypt_and_parse_long_inner packet pn_offset remote)"

definition decrypt_and_parse ::
  "space \<Rightarrow> bytes \<Rightarrow> nat \<Rightarrow> (u64 \<times> frame list, connection_error) result" where
  "decrypt_and_parse space packet pn_offset =
     andthen (ok_or (Transport InternalError) (remote_keys space)) (\<lambda>k.
     let sample_start = pn_offset + 4 in
     andthen (slice packet sample_start (sample_start + sample_len k)) (\<lambda>sample.
     let max_pn = 4; pn_end = min (pn_offset + max_pn) (length packet) in
     andthen (index_at packet 0) (\<lambda>first_byte.
     andthen (slice packet pn_offset pn_end) (\<lambda>pn_bytes.
     let pn_bytes = resize max_pn 0 pn_bytes in
     andthen (ok_or (Transport ProtocolViolation) (hp_decrypt k sample first_byte pn_bytes)) (\<lambda>(first_byte, pn_bytes).
     let pn_len = (if first_byte AND 0x03 = 0 then 4 else unat (first_byte AND 0x03)) in
     andthen (slice pn_bytes 0 pn_len) (\<lambda>pn_bytes.
     let truncated = read_pn_bytes pn_bytes;
         full_pn = decode_packet_number (largest_recv_pn space) (ucast truncated) (of_nat pn_len) in
     open_payload k packet pn_offset first_byte pn_bytes pn_len full_pn))))))"

end
