(* ===== verification/Protection_Proofs.thy ===== *)
theory Protection_Proofs
  imports Protection
begin

text \<open>
  Proofs about packet protection: the frame loop as an instance of the codec contract, the header that
  \<open>encrypt_long\<close> fills in, sealing and opening under matching keys, whole packets from frames to bytes
  and back, and what decryption may return on arbitrary bytes.
\<close>

section \<open>Frames of a payload\<close>

lemma parse_frames_step:
  "bs \<noteq> [] \<Longrightarrow> parse_frames bs =
     andthen (next_frame bs) (\<lambda>(x, rest). andthen (parse_frames rest) (\<lambda>xs. Ok (x # xs)))"
  by (subst parse_frames.simps) (auto simp: next_frame_def andthen_def split: sum.split)

lemma parse_frames_Nil [simp]: "parse_frames [] = Ok []"
  by (simp add: parse_frames.simps)

interpretation payload_codec:
  drained_codec frame_wire next_frame "\<lambda>f. frame_ok f \<and> self_delimiting f" parse_frames
  by unfold_locales (simp_all add: parse_frames_step)

definition frames_ok :: "frame list \<Rightarrow> bool" where
  "frames_ok fs \<longleftrightarrow> list_all (\<lambda>f. frame_ok f \<and> self_delimiting f) fs"

definition frames_wire :: "frame list \<Rightarrow> bytes" where
  "frames_wire fs = concat (map frame_wire fs)"

lemma padding_wire: "frames_wire (replicate k Padding) = replicate k 0"
  by (induction k) (simp_all add: frames_wire_def)

lemma padding_ok: "frames_ok (replicate k Padding)"
  by (simp add: frames_ok_def list_all_iff)

lemma parse_frames_wire:
  assumes "frames_ok fs"
  shows "parse_frames (frames_wire fs) = Ok fs"
  using payload_codec.drain_enc [of fs "[]"] assms by (simp add: frames_ok_def frames_wire_def)

lemma parse_frames_padded:
  assumes "frames_ok fs"
  shows "parse_frames (frames_wire fs @ replicate k 0) = Ok (fs @ replicate k Padding)"
proof -
  have "frames_wire fs @ replicate k 0 = frames_wire (fs @ replicate k Padding)"
    using padding_wire [of k] by (simp add: frames_wire_def)
  moreover have "frames_ok (fs @ replicate k Padding)"
    using assms padding_ok [of k] by (simp add: frames_ok_def)
  ultimately show ?thesis by (simp add: parse_frames_wire)
qed

lemma write_frames_ok:
  "frames_ok fs \<Longrightarrow> write_frames fs buf = (Ok (), buf @ frames_wire fs)"
  by (induction fs arbitrary: buf)
    (simp_all add: frames_ok_def frames_wire_def seqA_def write_frame_ok)

lemma frames_to_bytes_ok: "frames_ok fs \<Longrightarrow> frames_to_bytes fs = Ok (frames_wire fs)"
  by (simp add: frames_to_bytes_def write_frames_ok)

lemma pad_to_eq: "pad_to n buf = buf @ replicate (n - length buf) 0"
proof (induction n buf rule: pad_to.induct)
  case (1 n buf)
  show ?case
  proof (cases "length buf < n")
    case True
    then have "replicate (n - length buf) (0 :: u8) = 0 # replicate (n - Suc (length buf)) 0"
      by (simp flip: replicate_Suc add: Suc_diff_Suc)
    with True 1 show ?thesis by (subst pad_to.simps) simp
  next
    case False
    then show ?thesis by (subst pad_to.simps) simp
  qed
qed

lemma length_pad_to [simp]: "length (pad_to n buf) = max n (length buf)"
  by (simp add: pad_to_eq)

section \<open>Packet number bytes\<close>

definition pn_be :: "u64 \<Rightarrow> nat \<Rightarrow> bytes" where
  "pn_be pn n =
     (if n = 1 then [ucast pn]
      else if n = 2 then [ucast (drop_bit 8 pn), ucast pn]
      else if n = 3 then [ucast (drop_bit 16 pn), ucast (drop_bit 8 pn), ucast pn]
      else [ucast (drop_bit 24 pn), ucast (drop_bit 16 pn), ucast (drop_bit 8 pn), ucast pn])"

definition pn_size_ok :: "nat \<Rightarrow> bool" where
  "pn_size_ok n \<longleftrightarrow> n \<in> {1, 2, 3, 4}"

lemma length_pn_be [simp]: "pn_size_ok n \<Longrightarrow> length (pn_be pn n) = n"
  by (auto simp: pn_be_def pn_size_ok_def)

lemma pn_be_not_Nil [simp]: "pn_be pn n \<noteq> []"
  by (simp add: pn_be_def)

lemma write_pn_ok:
  "pn_size_ok n \<Longrightarrow> length r = n \<Longrightarrow> write_pn r pn n = Ok (pn_be pn n)"
  by (auto simp: pn_size_ok_def write_pn_def pn_be_def store_at_def numeral_eq_Suc length_Suc_conv)

lemma be32_u64:
  "(ucast (be32 b0 b1 b2 b3) :: u64) =
     push_bit 24 (ucast b0) OR push_bit 16 (ucast b1) OR push_bit 8 (ucast b2) OR ucast b3"
  by (rule bit_word_eqI) (auto simp: be32_def bit_simps dest: bit_imp_le_length)

lemma be16_u64: "(ucast (ucast (be16 b0 b1) :: u32) :: u64) = push_bit 8 (ucast b0) OR ucast b1"
  by (rule bit_word_eqI) (auto simp: be16_def bit_simps dest: bit_imp_le_length)

lemma read_pn_be:
  assumes "pn_size_ok n"
  shows "(ucast (read_pn_bytes (pn_be pn n)) :: u64) = take_bit (8 * n) pn"
proof -
  have 1: "(ucast (ucast (ucast pn :: u8) :: u32) :: u64) = take_bit 8 pn"
    by (rule bit_word_eqI) (auto simp: bit_simps)
  consider "n = 1" | "n = 2" | "n = 3" | "n = 4" using assms by (auto simp: pn_size_ok_def)
  then show ?thesis
    by cases
      (simp_all add: read_pn_bytes_def pn_be_def be16_u64 be32_u64 byte_of_word 1 join_byte [of 8, simplified]
        join_byte [of 16, simplified] join_byte [of 24, simplified])
qed


section \<open>Filling a zeroed header from the left\<close>

lemma fill_slice:
  "length d = i \<Longrightarrow> length ys \<le> m \<Longrightarrow>
     store_slice (d @ replicate m 0) i ys = Ok ((d @ ys) @ replicate (m - length ys) (0 :: u8))"
  by (auto simp: store_slice_def)

lemma fill_at:
  "length d = i \<Longrightarrow> 0 < m \<Longrightarrow>
     store_at (d @ replicate m 0) i y = Ok ((d @ [y]) @ replicate (m - 1) (0 :: u8))"
  by (cases m) (auto simp: store_at_def list_update_append)

lemma fill_varint:
  "length d = i \<Longrightarrow> v \<le> VARINT_MAX \<Longrightarrow> encoded_len v \<le> m \<Longrightarrow>
     encode_at v (d @ replicate m 0) i = Ok ((d @ varint_bytes v) @ replicate (m - encoded_len v) 0)"
  by (auto simp: encode_at_def slice_from_def encode_eq)

lemma fill_pn:
  "length d = i \<Longrightarrow> pn_size_ok n \<Longrightarrow> write_pn_at (d @ replicate n 0) i pn n = Ok (d @ pn_be pn n)"
  by (auto simp: write_pn_at_def slice_from_def write_pn_ok)

definition space_token :: "packet_number_space \<Rightarrow> bytes option" where
  "space_token sp = (if sp = InitialSpace then Some [] else None)"

definition long_byte :: "packet_number_space \<Rightarrow> nat \<Rightarrow> u8" where
  "long_byte sp n = 0xc0 OR push_bit 4 (space_type_bits sp) OR of_nat (n - 1)"

definition long_head :: "packet_number_space \<Rightarrow> u32 \<Rightarrow> bytes \<Rightarrow> bytes \<Rightarrow> nat \<Rightarrow> varint \<Rightarrow> bytes" where
  "long_head sp v dst src n len =
     long_prefix (long_byte sp n) v (ConnectionId dst) (ConnectionId src) (space_token sp) @ varint_bytes len"

lemma varint_bytes_0: "varint_bytes 0 = [0]"
  by (simp add: varint_bytes_def)

lemma length_long_head:
  "length (long_head sp v dst src n len) =
     7 + length dst + length src + (if sp = InitialSpace then 1 else 0) + encoded_len len"
  by (simp add: long_head_def length_long_prefix space_token_def token_wire_def varint_bytes_0)

text \<open>Both builders write the fixed part of a long header field by field into a zeroed array.\<close>

lemma fill_long_prefix:
  fixes dst src :: bytes and x y :: u8
  assumes x: "x = y" and m: "tot = 7 + length dst + length src + m"
  shows "store_at (replicate tot 0) 0 x = (Ok ([y] @ replicate (tot - 1) 0) :: (bytes, 'e) result)"
    and "store_slice ([y] @ replicate (tot - 1) 0) 1 (to_be32 v) =
      (Ok (([y] @ to_be32 v) @ replicate (tot - 5) 0) :: (bytes, 'e) result)"
    and "store_at (([y] @ to_be32 v) @ replicate (tot - 5) 0) 5 (of_nat (length dst)) =
      (Ok ((([y] @ to_be32 v) @ [of_nat (length dst)]) @ replicate (tot - 6) 0) :: (bytes, 'e) result)"
    and "store_slice ((([y] @ to_be32 v) @ [of_nat (length dst)]) @ replicate (tot - 6) 0) 6 dst =
      (Ok (((([y] @ to_be32 v) @ [of_nat (length dst)]) @ dst) @ replicate (tot - 6 - length dst) 0) :: (bytes,
        'e) result)"
    and "store_at (((([y] @ to_be32 v) @ [of_nat (length dst)]) @ dst) @ replicate (tot - 6 - length dst) 0)
        (6 + length dst) (of_nat (length src)) =
      (Ok ((((([y] @ to_be32 v) @ [of_nat (length dst)]) @ dst) @ [of_nat (length src)]) @ replicate
        (tot - 7 - length dst) 0)
        :: (bytes, 'e) result)"
    and "store_slice ((((([y] @ to_be32 v) @ [of_nat (length dst)]) @ dst) @ [of_nat (length src)]) @ replicate
        (tot - 7 - length dst) 0)
        (6 + length dst + 1) src =
      (Ok (((((([y] @ to_be32 v) @ [of_nat (length dst)]) @ dst) @ [of_nat (length src)]) @ src) @ replicate m 0)
        :: (bytes, 'e) result)"
proof -
  show "store_at (replicate tot 0) 0 x = (Ok ([y] @ replicate (tot - 1) 0) :: (bytes, 'e) result)"
    using fill_at [of "[]" 0 tot y] x m by simp
qed ((subst fill_slice, simp, simp add: m, simp add: m) | (subst fill_at, simp, simp add: m, simp add: m))+

lemma encrypt_long_eq:
  assumes n: "pn_size_ok n"
    and l: "n + length frames + tag_len k < 2 ^ 62"
  defines "len \<equiv> of_nat (n + length frames + tag_len k) :: u64"
  shows "encrypt_long k sp v dst src frames pn n (space_token sp) =
     seal k (long_head sp v dst src n len @ pn_be pn n) (length (long_head sp v dst src n len)) frames pn n"
proof -
  have len: "len \<le> VARINT_MAX" unfolding len_def using l by (rule of_nat_le_VARINT_MAX)
  define t where "t = (if sp = InitialSpace then encoded_len 0 else 0)"
  define off where "off = 7 + length dst + length src + t + encoded_len len"
  have t1: "encoded_len 0 = 1" by (simp add: encoded_len_def)
  let ?d6 = "((((([long_byte sp n] @ to_be32 v) @ [of_nat (length dst)]) @ dst) @ [of_nat (length src)]) @ src)"
  have x: "0xc0 OR push_bit 4 (space_type_bits sp) OR of_nat (n - 1) = long_byte sp n" by (simp add: long_byte_def)
  have m: "off + n = 7 + length dst + length src + (t + encoded_len len + n)" by (simp add: off_def)
  have head: "long_head sp v dst src n len = ?d6 @ token_wire (space_token sp) @ varint_bytes len"
    by (simp add: long_head_def long_prefix_def sized_cid_def)
  have T: "(case space_token sp of None \<Rightarrow> 0 | Some t \<Rightarrow> of_nat (length t)) = (0 :: u64)"
    by (simp add: space_token_def)
  have O: "1 + 4 + 1 + length dst + 1 + length src + (if sp = InitialSpace then encoded_len 0 else 0) +
      encoded_len len = off"
    by (simp add: off_def t_def)
  have e: "(if sp = InitialSpace
        then andthen (encode_at 0 (?d6 @ replicate (t + encoded_len len + n) 0) (6 + length dst + 1 + length src))
          (\<lambda>header. encode_at len header (6 + length dst + 1 + length src + encoded_len 0))
        else encode_at len (?d6 @ replicate (t + encoded_len len + n) 0) (6 + length dst + 1 + length src)) =
      Ok (long_head sp v dst src n len @ replicate n 0)"
  proof (cases "sp = InitialSpace")
    case True
    have "encode_at 0 (?d6 @ replicate (t + encoded_len len + n) 0) (6 + length dst + 1 + length src) =
        Ok ((?d6 @ varint_bytes 0) @ replicate (encoded_len len + n) 0)"
      using True by (subst fill_varint) (simp_all add: t_def t1)
    moreover have "encode_at len ((?d6 @ varint_bytes 0) @ replicate (encoded_len len + n) 0)
        (6 + length dst + 1 + length src + encoded_len 0) =
        Ok (((?d6 @ varint_bytes 0) @ varint_bytes len) @ replicate n 0)"
      using len by (subst fill_varint) (simp_all add: t1)
    ultimately show ?thesis
      unfolding head using True by (simp add: space_token_def token_wire_def)
  next
    case False
    have "encode_at len (?d6 @ replicate (t + encoded_len len + n) 0) (6 + length dst + 1 + length src) =
        Ok ((?d6 @ varint_bytes len) @ replicate n 0)"
      using False len by (subst fill_varint) (simp_all add: t_def)
    then show ?thesis unfolding head using False by (simp add: space_token_def token_wire_def)
  qed
  have off: "length (long_head sp v dst src n len) = off"
    by (simp add: length_long_head off_def t_def t1)
  have w: "write_pn_at (long_head sp v dst src n len @ replicate n 0) off pn n =
      Ok (long_head sp v dst src n len @ pn_be pn n)"
    using off n by (rule fill_pn)
  show ?thesis
    unfolding encrypt_long_def Let_def T len_def [symmetric] O fill_long_prefix [OF x m] e w andthen_Inr off
    by (rule refl)
qed

section \<open>Sealing and opening\<close>

lemma seal_ok:
  assumes ae: "aead_match a b" and hp: "hp_match a b" and h: "h \<noteq> []" and n: "pn_size_ok n" "length p = n"
    and l: "4 - n + sample_len a \<le> length payload + tag_len a"
  shows "\<exists>f' p' c tag. seal a (h @ p) (length h) payload pn n = Ok (f' # tl h @ p' @ c @ tag) \<and>
     form_bits f' = form_bits (hd h) \<and> length p' = n \<and>
     length c = length payload \<and> length tag = tag_len a \<and>
     aead_decrypt b pn (h @ p) (c @ tag) = Some payload \<and>
     (\<forall>ext. length (p' @ ext) = 4 \<longrightarrow> (\<exists>junk. length junk = length ext \<and>
        hp_decrypt b (take (sample_len a) (drop (4 - n) (c @ tag))) f' (p' @ ext) = Some (hd h, p @ junk)))"
proof -
  obtain c tag where c: "aead_encrypt a pn (h @ p) payload = Some (c, tag)" "length c = length payload"
      "length tag = tag_len a" "aead_decrypt b pn (h @ p) (c @ tag) = Some payload"
    using ae unfolding aead_match_def by blast
  let ?s = "take (sample_len a) (drop (4 - n) (c @ tag))"
  have s: "length ?s = sample_len a" using c l by simp
  have p: "p \<noteq> []" "length p \<le> 4" using n by (auto simp: pn_size_ok_def)
  obtain f' p' where e: "hp_encrypt a ?s (hd h) p = Some (f', p')" "length p' = length p"
      "form_bits f' = form_bits (hd h)"
      "\<forall>ext. length (p' @ ext) = 4 \<longrightarrow>
         (\<exists>junk. length junk = length ext \<and> hp_decrypt b ?s f' (p' @ ext) = Some (hd h, p @ junk))"
    using hp s p unfolding hp_match_def by blast
  have "slice (c @ tag) (4 - n) (4 - n + sample_len a) = (Ok ?s :: (bytes, connection_error) result)"
    using c l by (simp add: slice_def)
  moreover have "index_at (h @ p) 0 = (Ok (hd h) :: (u8, connection_error) result)"
    using h by (cases h) (simp_all add: index_at_def)
  moreover have "slice (h @ p) (length h) (length h + n) = (Ok p :: (bytes, connection_error) result)"
    using n by (simp add: slice_def)
  moreover have "store_at (h @ p) 0 f' = (Ok (f' # tl h @ p) :: (bytes, connection_error) result)"
    using h by (cases h) (simp_all add: store_at_def)
  moreover have "store_slice (f' # tl h @ p) (length h) p' =
      (Ok (f' # tl h @ p') :: (bytes, connection_error) result)"
    using h e n by (cases h) (simp_all add: store_slice_def)
  ultimately have "seal a (h @ p) (length h) payload pn n = Ok (f' # tl h @ p' @ c @ tag)"
    by (simp add: seal_def c e Let_def del: append_assoc take_append drop_append)
  with c e n show ?thesis by blast
qed

lemma open_payload_ok:
  assumes h: "h \<noteq> []" and p: "length p' = n" "length p = n"
    and d: "aead_decrypt b pn (h @ p) body = Some payload"
  shows "open_payload b (f' # tl h @ p' @ body) (length h) (hd h) p n pn =
     andthen (map_err InFrame (parse_frames payload)) (\<lambda>fs. Ok (pn, fs))"
proof -
  let ?pkt = "f' # tl h @ p' @ body"
  have "slice ?pkt 0 (length h + n) = (Ok (f' # tl h @ p') :: (bytes, connection_error) result)"
    using h p by (cases h) (simp_all add: slice_def)
  moreover have "store_at (f' # tl h @ p') 0 (hd h) = (Ok (h @ p') :: (bytes, connection_error) result)"
    using h by (cases h) (simp_all add: store_at_def)
  moreover have "store_slice (h @ p') (length h) p = (Ok (h @ p) :: (bytes, connection_error) result)"
    using p by (simp add: store_slice_def)
  moreover have "slice_from ?pkt (length h + n) = (Ok body :: (bytes, connection_error) result)"
    using h p by (cases h) (simp_all add: slice_from_def)
  ultimately show ?thesis
    by (simp add: open_payload_def Let_def d)
qed


lemma sealed_slices:
  fixes h p' body :: bytes and f' :: u8
  assumes h: "h \<noteq> []" and p: "length p' = n" "n \<le> 4" and body: "4 - n + sl \<le> length body"
  defines "pkt \<equiv> f' # tl h @ p' @ body" and "off \<equiv> length h"
  shows "off + 4 + sl \<le> length pkt"
    and "slice pkt (off + 4) (off + 4 + sl) = (Ok (take sl (drop (4 - n) body)) :: (bytes, connection_error) result)"
    and "index_at pkt 0 = (Ok f' :: (u8, connection_error) result)"
    and "slice pkt off (min (off + 4) (length pkt)) =
      (Ok (p' @ take (4 - n) body) :: (bytes, connection_error) result)"
    and "length (p' @ take (4 - n) body) = 4"
proof -
  have pkt: "pkt = (f' # tl h) @ p' @ body" "length (f' # tl h) = off"
    using h by (simp_all add: pkt_def off_def)
  have len_pkt: "length pkt = off + n + length body"
    by (simp only: pkt length_append p add.assoc)
  then show len: "off + 4 + sl \<le> length pkt" using p body by simp
  have d: "drop (off + 4) pkt = drop (4 - n) body" "take 4 (drop off pkt) = p' @ take (4 - n) body"
    unfolding pkt(1) drop_append take_append pkt(2) using p pkt(2) by simp_all
  show "slice pkt (off + 4) (off + 4 + sl) = (Ok (take sl (drop (4 - n) body)) :: (bytes, connection_error) result)"
    using len by (simp add: slice_def d)
  show "index_at pkt 0 = (Ok f' :: (u8, connection_error) result)" by (simp add: index_at_def pkt)
  show "slice pkt off (min (off + 4) (length pkt)) =
      (Ok (p' @ take (4 - n) body) :: (bytes, connection_error) result)"
    using len d(2) by (simp add: slice_def min_absorb1)
  show "length (p' @ take (4 - n) body) = 4" using p body by simp
qed

lemma open_long:
  assumes k: "keys_match a b" and h: "h \<noteq> []" and n: "pn_size_ok n" "hd h AND 3 = of_nat (n - 1)"
    and l: "4 - n + sample_len a \<le> length payload + tag_len a"
    and pn: "decode_packet_number 0 (take_bit (8 * n) pn) (of_nat n) = pn"
  shows "\<exists>f' rest. seal a (h @ pn_be pn n) (length h) payload pn n = Ok (f' # tl h @ rest) \<and>
     form_bits f' = form_bits (hd h) \<and> length rest = n + length payload + tag_len a \<and>
     decrypt_and_parse_long_inner (f' # tl h @ rest) (length h) b =
       andthen (map_err InFrame (parse_frames payload)) (\<lambda>fs. Ok (pn, fs))"
proof -
  have sl: "sample_len b = sample_len a" using k by (simp add: keys_match_def hp_match_def)
  obtain f' p' c tag where s: "seal a (h @ pn_be pn n) (length h) payload pn n = Ok (f' # tl h @ p' @ c @ tag)"
      "form_bits f' = form_bits (hd h)" "length p' = n" "length c = length payload" "length tag = tag_len a"
      "aead_decrypt b pn (h @ pn_be pn n) (c @ tag) = Some payload"
      "\<forall>ext. length (p' @ ext) = 4 \<longrightarrow> (\<exists>junk. length junk = length ext \<and>
         hp_decrypt b (take (sample_len a) (drop (4 - n) (c @ tag))) f' (p' @ ext) = Some (hd h, pn_be pn n @ junk))"
    using seal_ok [of a b h n "pn_be pn n" payload pn] k h n l by (auto simp: keys_match_def)
  let ?pkt = "f' # tl h @ p' @ c @ tag"
  have n4: "n \<le> 4" using n by (auto simp: pn_size_ok_def)
  have body: "4 - n + sample_len b \<le> length (c @ tag)" using l s sl by simp
  note sls = sealed_slices [OF h s(3) n4 body]
  obtain junk where hp: "hp_decrypt b (take (sample_len b) (drop (4 - n) (c @ tag))) f' (p' @ take (4 - n) (c @ tag)) =
      Some (hd h, pn_be pn n @ junk)"
    using s(7) sls(5) unfolding sl by blast
  have len: "(hd h AND 3) + 1 = of_nat n" "unat (of_nat n :: u8) = n"
    using n by (auto simp: pn_size_ok_def)
  have "slice (pn_be pn n @ junk) 0 n = (Ok (pn_be pn n) :: (bytes, connection_error) result)"
    using n by (simp add: slice_def)
  then have "decrypt_and_parse_long_inner ?pkt (length h) b =
      open_payload b ?pkt (length h) (hd h) (pn_be pn n) n pn"
    using sls hp
    by (simp add: decrypt_and_parse_long_inner_def Let_def resize_id len read_pn_be [OF n(1)] pn
        del: append_assoc take_append drop_append length_append min.bounded_iff)
  also have "\<dots> = andthen (map_err InFrame (parse_frames payload)) (\<lambda>fs. Ok (pn, fs))"
    using h s n by (intro open_payload_ok) simp_all
  finally show ?thesis using s by (intro exI [of _ f'] exI [of _ "p' @ c @ tag"]) simp
qed

lemma open_short:
  assumes k: "keys_match a b" and h: "h \<noteq> []" and n: "pn_size_ok n"
    and f: "hd h AND 3 = (if n = 4 then 0 else of_nat n)"
    and r: "remote_keys space = Some b"
    and l: "4 - n + sample_len a \<le> length payload + tag_len a"
    and pn: "decode_packet_number (largest_recv_pn space) (take_bit (8 * n) pn) (of_nat n) = pn"
  shows "\<exists>f' rest. seal a (h @ pn_be pn n) (length h) payload pn n = Ok (f' # tl h @ rest) \<and>
     form_bits f' = form_bits (hd h) \<and> length rest = n + length payload + tag_len a \<and>
     decrypt_and_parse space (f' # tl h @ rest) (length h) =
       andthen (map_err InFrame (parse_frames payload)) (\<lambda>fs. Ok (pn, fs))"
proof -
  have sl: "sample_len b = sample_len a" using k by (simp add: keys_match_def hp_match_def)
  obtain f' p' c tag where s: "seal a (h @ pn_be pn n) (length h) payload pn n = Ok (f' # tl h @ p' @ c @ tag)"
      "form_bits f' = form_bits (hd h)" "length p' = n" "length c = length payload" "length tag = tag_len a"
      "aead_decrypt b pn (h @ pn_be pn n) (c @ tag) = Some payload"
      "\<forall>ext. length (p' @ ext) = 4 \<longrightarrow> (\<exists>junk. length junk = length ext \<and>
         hp_decrypt b (take (sample_len a) (drop (4 - n) (c @ tag))) f' (p' @ ext) = Some (hd h, pn_be pn n @ junk))"
    using seal_ok [of a b h n "pn_be pn n" payload pn] k h n l by (auto simp: keys_match_def)
  let ?pkt = "f' # tl h @ p' @ c @ tag"
  have n4: "n \<le> 4" using n by (auto simp: pn_size_ok_def)
  have body: "4 - n + sample_len b \<le> length (c @ tag)" using l s sl by simp
  note sls = sealed_slices [OF h s(3) n4 body]
  obtain junk where hp: "hp_decrypt b (take (sample_len b) (drop (4 - n) (c @ tag))) f' (p' @ take (4 - n) (c @ tag)) =
      Some (hd h, pn_be pn n @ junk)"
    using s(7) sls(5) unfolding sl by blast
  have len: "(if hd h AND 3 = 0 then 4 else unat (hd h AND 3)) = n"
    using n f by (auto simp: pn_size_ok_def)
  have "slice (pn_be pn n @ junk) 0 n = (Ok (pn_be pn n) :: (bytes, connection_error) result)"
    using n by (simp add: slice_def)
  then have "decrypt_and_parse space ?pkt (length h) =
      open_payload b ?pkt (length h) (hd h) (pn_be pn n) n pn"
    using sls hp
    by (simp add: decrypt_and_parse_def Let_def resize_id len read_pn_be [OF n(1)] pn r
        del: append_assoc take_append drop_append length_append min.bounded_iff split del: if_split)
  also have "\<dots> = andthen (map_err InFrame (parse_frames payload)) (\<lambda>fs. Ok (pn, fs))"
    using h s n by (intro open_payload_ok) simp_all
  finally show ?thesis using s by (intro exI [of _ f'] exI [of _ "p' @ c @ tag"]) simp
qed

section \<open>Packets\<close>

lemma encoded_pn_len_ok: "pn_size_ok (encoded_pn_len pn)"
  by (simp add: pn_size_ok_def encoded_pn_len_def)

lemma encoded_pn_len_fits: "unat pn < 2 ^ 32 \<Longrightarrow> unat pn < 2 ^ (8 * encoded_pn_len pn)"
  by (simp add: encoded_pn_len_def word_less_nat_alt)

lemma take_bit_unat_small: "unat w < 2 ^ k \<Longrightarrow> take_bit k w = w" for w :: "'a::len word"
  by (metis take_bit_nat_eq_self unsigned_take_bit_eq unsigned_word_eqI)

lemma decode_first_pn:
  assumes n: "pn_size_ok n" and pn: "unat pn < 2 ^ (8 * n)"
  shows "decode_packet_number 0 (take_bit (8 * n) pn) (of_nat n) = pn"
proof -
  have nn: "n = 1 \<or> n = 2 \<or> n = 3 \<or> n = 4" using n by (simp add: pn_size_ok_def)
  have k: "unat (of_nat n :: u8) = n" "pn_len_ok (of_nat n)" using nn by (auto simp: pn_len_ok_def)
  have w: "(2 :: nat) ^ (8 * n) \<in> {256, 65536, 16777216, 4294967296}" using nn by auto
  have "unat (decode_packet_number 0 pn (of_nat n)) = rfc_decode_pn 0 (unat pn) (8 * n)"
    using decode_pn_nat [of "of_nat n" pn 0] k pn w by auto
  also have "\<dots> = unat pn" using pn w by (auto simp: rfc_decode_pn_def Let_def)
  finally show ?thesis using pn by (simp add: take_bit_unat_small word_unat_eq_iff)
qed

lemma encrypt_packet_eq:
  assumes k: "local_keys space = Some k" and fs: "frames_ok fs"
  obtains m where "sample_len k + 4 - n \<le> length (frames_wire fs) + m" and "m \<le> 1204 + sample_len k"
    and "length (frames_wire fs) + m \<le> max 1200 (length (frames_wire fs) + sample_len k + 4)"
    and "sp = InitialSpace \<Longrightarrow>
      1200 \<le> hdr_size_long (length dst) (length src) (length (frames_wire fs) + n + tag_len k) + tag_len k +
        length (frames_wire fs) + m"
    and "encrypt_packet space sp v dst src fs pn n est =
      (let payload = frames_wire fs @ replicate m 0 in
       if sp \<noteq> ApplicationData \<or> \<not> est then encrypt_long k sp v dst src payload pn n (space_token sp)
       else encrypt_short k dst payload pn n False)"
proof -
  let ?w = "frames_wire fs"
  define a where "a = (if sp = InitialSpace
     then 1200 - (hdr_size_long (length dst) (length src) (length ?w + n + tag_len k) + tag_len k) - length ?w else 0)"
  define m where "m = a + (sample_len k + 4 - n - (length ?w + a))"
  have "encrypt_packet space sp v dst src fs pn n est =
      (let payload = ?w @ replicate m 0 in
       if sp \<noteq> ApplicationData \<or> \<not> est then encrypt_long k sp v dst src payload pn n (space_token sp)
       else encrypt_short k dst payload pn n False)"
    using k fs
    by (cases "sp = InitialSpace")
      (simp_all add: encrypt_packet_def frames_to_bytes_ok pad_to_eq Let_def space_token_def a_def m_def
        flip: replicate_add)
  moreover have "sample_len k + 4 - n \<le> length ?w + m" by (simp add: m_def)
  moreover have "a \<le> 1200" "m \<le> a + (sample_len k + 4)" by (simp_all add: a_def m_def)
  moreover have "length ?w + m \<le> max 1200 (length ?w + sample_len k + 4)" by (auto simp: a_def m_def)
  moreover have "1200 \<le> hdr_size_long (length dst) (length src) (length ?w + n + tag_len k) + tag_len k + length ?w + m"
    if "sp = InitialSpace"
    using that by (simp add: m_def a_def)
  ultimately show thesis by (intro that [of m]) simp_all
qed

lemma encoded_len_mono: "a \<le> b \<Longrightarrow> b < 2 ^ 62 \<Longrightarrow> encoded_len (of_nat a) \<le> encoded_len (of_nat b)"
  by (simp add: encoded_len_def word_le_nat_alt unat_of_nat_u64)

fun space_long_type :: "packet_number_space \<Rightarrow> long_type" where
  "space_long_type InitialSpace = Initial"
| "space_long_type HandshakeSpace = Handshake"
| "space_long_type ApplicationData = ZeroRtt"

lemma long_byte_low: "pn_size_ok n \<Longrightarrow> long_byte sp n AND 3 = of_nat (n - 1)"
  by (cases sp) (auto simp: pn_size_ok_def long_byte_def space_type_bits_def)

lemma form_bits_long:
  assumes "form_bits f' = form_bits f" and "f AND 0x80 \<noteq> 0"
  shows "f' AND 0x80 \<noteq> 0" and "f' AND 0xf0 = f AND 0xf0"
proof -
  have f: "form_bits f' = f AND 0xf0" using assms by (simp add: form_bits_def)
  have "(f AND 0xf0) AND 0x80 = f AND 0x80" by (simp add: and.assoc)
  then have "form_bits f' AND 0x80 \<noteq> 0" using assms(2) f by simp
  moreover have "(f' AND 0xe0) AND 0x80 = f' AND 0x80" by (simp add: and.assoc)
  ultimately show 1: "f' AND 0x80 \<noteq> 0" by (auto simp: form_bits_def split: if_splits)
  show "f' AND 0xf0 = f AND 0xf0" using f 1 by (simp add: form_bits_def)
qed

lemma long_byte_masked:
  assumes "form_bits f' = form_bits (long_byte sp n)" and n: "pn_size_ok n"
  shows "f' AND 0x80 \<noteq> 0" and "f' AND 0x40 \<noteq> 0"
    and "long_type_from_bits (drop_bit 4 f' AND 3) = Some (space_long_type sp)"
proof -
  have top: "long_byte sp n AND 0x80 \<noteq> 0" "long_byte sp n AND 0xf0 = 0xc0 OR push_bit 4 (space_type_bits sp)"
    using n by (cases sp; auto simp: pn_size_ok_def long_byte_def space_type_bits_def)+
  from form_bits_long [OF assms(1) top(1)] show "f' AND 0x80 \<noteq> 0" by blast
  have f': "f' AND 0xf0 = 0xc0 OR push_bit 4 (space_type_bits sp)"
    using form_bits_long [OF assms(1) top(1)] top(2) by simp
  have "f' AND 0x40 = (f' AND 0xf0) AND 0x40" by (simp add: and.assoc)
  also have "\<dots> \<noteq> 0" unfolding f' by (cases sp) (simp_all add: space_type_bits_def)
  finally show "f' AND 0x40 \<noteq> 0" .
  have "drop_bit 4 f' AND 3 = drop_bit 4 (f' AND 0x30)" by (simp add: drop_bit_and)
  also have "f' AND 0x30 = (f' AND 0xf0) AND 0x30" by (simp add: and.assoc)
  finally show "long_type_from_bits (drop_bit 4 f' AND 3) = Some (space_long_type sp)"
    unfolding f' by (cases sp) (simp_all add: space_type_bits_def long_type_from_bits_def)
qed

lemma low_bits_len: "pn_len_ok ((f AND 3) + 1)" "unat ((f AND 3) + 1) \<le> 4" for f :: u8
  using low_bits_2 [of f] by (auto simp: pn_len_ok_def)

text \<open>The header of a protected packet, first byte and packet number masked, still parses.\<close>

lemma parse_protected_header:
  assumes f: "form_bits f' = form_bits (long_byte sp n)" and n: "pn_size_ok n"
    and v: "v \<noteq> VERSION_NEGOTIATION" and d: "length dst \<le> 20" "length src \<le> 20"
    and len: "len \<le> VARINT_MAX" and rest: "4 \<le> length rest"
  shows "\<exists>hdr i. parse_long_header (f' # tl (long_head sp v dst src n len) @ rest) = Ok (hdr, i) \<and>
     lh_ty hdr = space_long_type sp \<and> lh_version hdr = v \<and> lh_dst_cid hdr = ConnectionId dst \<and>
     lh_src_cid hdr = ConnectionId src \<and>
     hdr_pn_offset_long hdr = length (long_head sp v dst src n len)"
proof -
  let ?d = "ConnectionId dst" and ?s = "ConnectionId src" and ?t = "space_token sp"
  note bits = long_byte_masked [OF f n]
  have c: "cid_ok ?d" "cid_ok ?s" using d by (simp_all add: cid_ok_def)
  have b: "f' # tl (long_head sp v dst src n len) @ rest = long_prefix f' v ?d ?s ?t @ varint_bytes len @ rest"
    by (simp add: long_head_def long_prefix_def)
  have tok: "token_ok (space_long_type sp) ?t" by (cases sp) (simp_all add: space_token_def)
  obtain x where x: "read_pn rest ((f' AND 3) + 1) = Ok x"
    using read_pn_total [OF low_bits_len(1) [of f'], of rest] low_bits_len(2) [of f'] rest by auto
  have p: "parse_long_header (f' # tl (long_head sp v dst src n len) @ rest) =
      parse_long_rest (space_long_type sp) v ?d ?s (f' AND 3)
        (long_prefix f' v ?d ?s ?t @ varint_bytes len @ rest) (7 + length dst + length src)"
    unfolding b using parse_long_prefix [OF bits v c] by simp
  have "unat ((f' AND 3) + 1) \<le> length rest" using low_bits_len(2) [of f'] rest by linarith
  moreover have "space_long_type sp \<noteq> Retry" by (cases sp) simp_all
  ultimately have r: "parse_long_rest (space_long_type sp) v ?d ?s (f' AND 3)
      ((f' # to_be32 v @ sized_cid ?d @ sized_cid ?s) @ token_wire ?t @ varint_bytes len @ rest)
      (7 + length dst + length src) =
     Ok (\<lparr>lh_ty = space_long_type sp, lh_version = v, lh_dst_cid = ?d, lh_src_cid = ?s, lh_token = ?t,
          lh_length = Some len, lh_truncated_pn = Some x, lh_pn_len = Some ((f' AND 3) + 1)\<rparr>,
         7 + length dst + length src + length (token_wire ?t) + encoded_len len + unat ((f' AND 3) + 1))"
    using tok len x by (intro parse_long_rest_ok) (simp_all add: sized_cid_def)
  have e: "long_prefix f' v ?d ?s ?t @ varint_bytes len @ rest =
      (f' # to_be32 v @ sized_cid ?d @ sized_cid ?s) @ token_wire ?t @ varint_bytes len @ rest"
    by (simp add: long_prefix_def)
  have "7 + length dst + length src + (if space_long_type sp = Initial then 1 else 0) + encoded_len len =
      length (long_head sp v dst src n len)"
    by (cases sp) (simp_all add: length_long_head)
  then show ?thesis
    unfolding p e r by (intro exI conjI) (rule refl, simp_all add: hdr_pn_offset_long_def Let_def)
qed

lemma long_head_facts:
  "long_head sp v dst src n len \<noteq> []" "hd (long_head sp v dst src n len) = long_byte sp n"
  by (simp_all add: long_head_def long_prefix_def)

lemma encrypt_long_opens:
  assumes k: "keys_match a b" and n: "pn_size_ok n" and pn: "unat pn < 2 ^ (8 * n)"
    and v: "v \<noteq> VERSION_NEGOTIATION" and d: "length dst \<le> 20" "length src \<le> 20"
    and l: "4 - n + sample_len a \<le> length payload + tag_len a" "n + length payload + tag_len a < 2 ^ 62"
  shows "\<exists>pkt hdr i. encrypt_long a sp v dst src payload pn n (space_token sp) = Ok pkt \<and>
     parse_long_header pkt = Ok (hdr, i) \<and> lh_ty hdr = space_long_type sp \<and> lh_version hdr = v \<and>
     lh_dst_cid hdr = ConnectionId dst \<and> lh_src_cid hdr = ConnectionId src \<and>
     decrypt_and_parse_long_inner pkt (hdr_pn_offset_long hdr) b =
       andthen (map_err InFrame (parse_frames payload)) (\<lambda>fs. Ok (pn, fs)) \<and>
     length pkt = 7 + length dst + length src + (if sp = InitialSpace then 1 else 0) +
       encoded_len (of_nat (n + length payload + tag_len a)) + n + length payload + tag_len a"
proof -
  define len where "len = (of_nat (n + length payload + tag_len a) :: u64)"
  have len: "len \<le> VARINT_MAX" unfolding len_def using l(2) by (rule of_nat_le_VARINT_MAX)
  let ?h = "long_head sp v dst src n len"
  have e: "encrypt_long a sp v dst src payload pn n (space_token sp) =
      seal a (?h @ pn_be pn n) (length ?h) payload pn n"
    unfolding len_def using n l(2) by (rule encrypt_long_eq)
  have "hd ?h AND 3 = of_nat (n - 1)" using n by (simp add: long_head_facts long_byte_low)
  then obtain f' rest where s: "seal a (?h @ pn_be pn n) (length ?h) payload pn n = Ok (f' # tl ?h @ rest)"
      "form_bits f' = form_bits (hd ?h)" "length rest = n + length payload + tag_len a"
      "decrypt_and_parse_long_inner (f' # tl ?h @ rest) (length ?h) b =
        andthen (map_err InFrame (parse_frames payload)) (\<lambda>fs. Ok (pn, fs))"
    using open_long [OF k _ n _ l(1) decode_first_pn [OF n pn], of ?h] long_head_facts(1) by blast
  have "4 \<le> length rest" using l(1) s(3) by linarith
  then obtain hdr i where p: "parse_long_header (f' # tl ?h @ rest) = Ok (hdr, i)"
      "lh_ty hdr = space_long_type sp" "lh_version hdr = v" "lh_dst_cid hdr = ConnectionId dst"
      "lh_src_cid hdr = ConnectionId src" "hdr_pn_offset_long hdr = length ?h"
    using parse_protected_header [OF _ n v d len, of f' sp rest] s(2) by (auto simp: long_head_facts)
  have "length (f' # tl ?h @ rest) = length ?h + length rest"
    using long_head_facts(1) [of sp v dst src n len] by (cases ?h) simp_all
  then have "length (f' # tl ?h @ rest) = 7 + length dst + length src + (if sp = InitialSpace then 1 else 0) +
       encoded_len len + n + length payload + tag_len a"
    using s(3) by (simp add: length_long_head)
  then show ?thesis
    using e s p unfolding len_def [symmetric] by (intro exI [of _ "f' # tl ?h @ rest"] exI [of _ hdr] exI [of _ i]) simp
qed

text \<open>No packet is longer than its header, its padding and its tag make it.\<close>

definition packet_bound :: "dir_keys \<Rightarrow> nat \<Rightarrow> nat" where
  "packet_bound k payload = 60 + tag_len k + max 1200 (payload + sample_len k + 4)"

lemma long_packet_sized:
  assumes k: "keys_match a b" and ks: "local_keys s = Some a" "remote_keys r = Some b"
    and fs: "frames_ok fs" and v: "v \<noteq> VERSION_NEGOTIATION" and d: "length dst \<le> 20" "length src \<le> 20"
    and long: "sp \<noteq> ApplicationData \<or> \<not> est" and pn: "unat pn < 2 ^ 32"
    and size: "length (frames_wire fs) + sample_len a + tag_len a + 2000 < 2 ^ 62"
  shows "\<exists>pkt hdr i m. encrypt_packet s sp v dst src fs pn (encoded_pn_len pn) est = Ok pkt \<and>
     parse_long_header pkt = Ok (hdr, i) \<and> lh_ty hdr = space_long_type sp \<and>
     lh_dst_cid hdr = ConnectionId dst \<and> lh_src_cid hdr = ConnectionId src \<and>
     decrypt_and_parse_long r pkt (hdr_pn_offset_long hdr) = Ok (pn, fs @ replicate m Padding) \<and>
     (sp = InitialSpace \<longrightarrow> 1200 \<le> length pkt) \<and> length pkt \<le> packet_bound a (length (frames_wire fs))"
proof -
  let ?n = "encoded_pn_len pn"
  have n: "pn_size_ok ?n" "?n \<le> 4" "0 < ?n" by (rule encoded_pn_len_ok) (simp_all add: encoded_pn_len_def)
  obtain m where m: "sample_len a + 4 - ?n \<le> length (frames_wire fs) + m" "m \<le> 1204 + sample_len a"
      "length (frames_wire fs) + m \<le> max 1200 (length (frames_wire fs) + sample_len a + 4)"
      "sp = InitialSpace \<Longrightarrow>
        1200 \<le> hdr_size_long (length dst) (length src) (length (frames_wire fs) + ?n + tag_len a) + tag_len a +
          length (frames_wire fs) + m"
      "encrypt_packet s sp v dst src fs pn ?n est =
        encrypt_long a sp v dst src (frames_wire fs @ replicate m 0) pn ?n (space_token sp)"
    using encrypt_packet_eq [OF ks(1) fs, of ?n sp dst src v pn est] long by (auto simp: Let_def)
  let ?p = "frames_wire fs @ replicate m 0"
  have l: "4 - ?n + sample_len a \<le> length ?p + tag_len a" "?n + length ?p + tag_len a < 2 ^ 62"
    using m(1,2) n size by simp_all
  obtain pkt hdr i where e: "encrypt_long a sp v dst src ?p pn ?n (space_token sp) = Ok pkt"
      "parse_long_header pkt = Ok (hdr, i)" "lh_ty hdr = space_long_type sp"
      "lh_dst_cid hdr = ConnectionId dst" "lh_src_cid hdr = ConnectionId src"
      "decrypt_and_parse_long_inner pkt (hdr_pn_offset_long hdr) b =
        andthen (map_err InFrame (parse_frames ?p)) (\<lambda>fs. Ok (pn, fs))"
      "length pkt = 7 + length dst + length src + (if sp = InitialSpace then 1 else 0) +
         encoded_len (of_nat (?n + length ?p + tag_len a)) + ?n + length ?p + tag_len a"
    using encrypt_long_opens [OF k n(1) encoded_pn_len_fits [OF pn] v d l, of sp] by blast
  have "1200 \<le> length pkt" if "sp = InitialSpace"
  proof -
    have "encoded_len (of_nat (length (frames_wire fs) + ?n + tag_len a)) \<le>
        encoded_len (of_nat (?n + length ?p + tag_len a))"
      using l(2) by (intro encoded_len_mono) simp_all
    then show ?thesis using m(4) [OF that] that e(7) by (simp add: hdr_size_long_def Let_def)
  qed
  moreover have size_bound: "length pkt \<le> packet_bound a (length (frames_wire fs))"
    using m(3) d n(2) encoded_len_le_8 [of "of_nat (?n + length ?p + tag_len a)"]
    unfolding e(7) packet_bound_def by simp
  moreover have "decrypt_and_parse_long r pkt (hdr_pn_offset_long hdr) = Ok (pn, fs @ replicate m Padding)"
    using ks(2) e(6) parse_frames_padded [OF fs, of m] by (simp add: decrypt_and_parse_long_def)
  ultimately show ?thesis using m(5) e size_bound by auto
qed

lemma long_packet:
  assumes k: "keys_match a b" and ks: "local_keys s = Some a" "remote_keys r = Some b"
    and fs: "frames_ok fs" and v: "v \<noteq> VERSION_NEGOTIATION" and d: "length dst \<le> 20" "length src \<le> 20"
    and long: "sp \<noteq> ApplicationData \<or> \<not> est" and pn: "unat pn < 2 ^ 32"
    and size: "length (frames_wire fs) + sample_len a + tag_len a + 2000 < 2 ^ 62"
  shows "\<exists>pkt hdr i m. encrypt_packet s sp v dst src fs pn (encoded_pn_len pn) est = Ok pkt \<and>
     parse_long_header pkt = Ok (hdr, i) \<and> lh_ty hdr = space_long_type sp \<and>
     lh_dst_cid hdr = ConnectionId dst \<and> lh_src_cid hdr = ConnectionId src \<and>
     decrypt_and_parse_long r pkt (hdr_pn_offset_long hdr) = Ok (pn, fs @ replicate m Padding) \<and>
     (sp = InitialSpace \<longrightarrow> 1200 \<le> length pkt)"
  using long_packet_sized [OF assms] by blast

lemma initial_packet_sized:
  assumes k: "keys_match (keys_local ck) (keys_remote sk)" and d: "length dst \<le> 20" "length src \<le> 20"
    and size: "length ch + sample_len (keys_local ck) + tag_len (keys_local ck) + 2000 < 2 ^ 62"
    and min: "4 + sample_len (keys_local ck) \<le> 1100"
  shows "\<exists>pkt hdr i m. build_initial_packet ck dst src ch = Ok pkt \<and> 1200 \<le> length pkt \<and>
     length pkt \<le> packet_bound (keys_local ck) (length ch + 10) \<and>
     parse_long_header pkt = Ok (hdr, i) \<and> lh_ty hdr = Initial \<and> lh_version hdr = VERSION_1 \<and>
     lh_dst_cid hdr = ConnectionId dst \<and> lh_src_cid hdr = ConnectionId src \<and>
     decrypt_initial pkt hdr sk = Ok (Crypto 0 ch # replicate m Padding, 0)"
proof -
  let ?a = "keys_local ck"
  let ?fs = "[Crypto 0 ch]"
  have ok: "frames_ok ?fs" using size by (simp add: frames_ok_def length_ok_def)
  let ?w = "frames_wire ?fs"
  have w: "length ?w \<le> length ch + 10"
    using encoded_len_le_8 [of "of_nat (length ch)"]
    by (simp add: frames_wire_def sized_bytes_def varint_bytes_0)
  define est where "est = hdr_size_long (length dst) (length src) (length ?w + 1 + tag_len ?a)"
  define m where "m = 1200 - (est + tag_len ?a) - length ?w"
  let ?p = "?w @ replicate m 0"
  have est: "est \<le> 56" using d encoded_len_le_8 [of "of_nat (length ?w + 1 + tag_len ?a)"]
    by (simp add: est_def hdr_size_long_def Let_def)
  have l: "4 - 1 + sample_len ?a \<le> length ?p + tag_len ?a" "1 + length ?p + tag_len ?a < 2 ^ 62"
    using est min size w by (simp_all add: m_def)
  have b: "build_initial_packet ck dst src ch =
      encrypt_long ?a InitialSpace VERSION_1 dst src ?p 0 1 (space_token InitialSpace)"
    by (simp add: build_initial_packet_def frames_to_bytes_ok [OF ok] pad_to_eq Let_def space_token_def m_def est_def)
  have "VERSION_1 \<noteq> VERSION_NEGOTIATION" by (simp add: VERSION_1_def VERSION_NEGOTIATION_def)
  then obtain pkt hdr i where e: "encrypt_long ?a InitialSpace VERSION_1 dst src ?p 0 1 (space_token InitialSpace)
      = Ok pkt"
      "parse_long_header pkt = Ok (hdr, i)" "lh_ty hdr = Initial" "lh_version hdr = VERSION_1"
      "lh_dst_cid hdr = ConnectionId dst" "lh_src_cid hdr = ConnectionId src"
      "decrypt_and_parse_long_inner pkt (hdr_pn_offset_long hdr) (keys_remote sk) =
        andthen (map_err InFrame (parse_frames ?p)) (\<lambda>fs. Ok (0, fs))"
      "length pkt = 7 + length dst + length src + 1 +
         encoded_len (of_nat (1 + length ?p + tag_len ?a)) + 1 + length ?p + tag_len ?a"
    using encrypt_long_opens [OF k _ _ _ d l, of 0 VERSION_1 InitialSpace] by (auto simp: pn_size_ok_def)
  have "encoded_len (of_nat (length ?w + 1 + tag_len ?a)) \<le> encoded_len (of_nat (1 + length ?p + tag_len ?a))"
    using l(2) by (intro encoded_len_mono) simp_all
  then have "1200 \<le> length pkt"
    unfolding e(8) by (simp add: m_def est_def hdr_size_long_def Let_def)
  moreover have "length ?w + m \<le> max 1200 (length ch + 10)" using w by (simp add: m_def)
  then have "length pkt \<le> packet_bound ?a (length ch + 10)"
    using d encoded_len_le_8 [of "of_nat (1 + length ?p + tag_len ?a)"] unfolding e(8) packet_bound_def by simp
  moreover have "decrypt_initial pkt hdr sk = Ok (?fs @ replicate m Padding, 0)"
    using e(7) parse_frames_padded [OF ok, of m] by (simp add: decrypt_initial_def)
  ultimately show ?thesis using e b by auto
qed

lemma initial_packet:
  assumes "keys_match (keys_local ck) (keys_remote sk)" and "length dst \<le> 20" and "length src \<le> 20"
    and "length ch + sample_len (keys_local ck) + tag_len (keys_local ck) + 2000 < 2 ^ 62"
    and "4 + sample_len (keys_local ck) \<le> 1100"
  shows "\<exists>pkt hdr i m. build_initial_packet ck dst src ch = Ok pkt \<and> 1200 \<le> length pkt \<and>
     parse_long_header pkt = Ok (hdr, i) \<and> lh_ty hdr = Initial \<and> lh_version hdr = VERSION_1 \<and>
     lh_dst_cid hdr = ConnectionId dst \<and> lh_src_cid hdr = ConnectionId src \<and>
     decrypt_initial pkt hdr sk = Ok (Crypto 0 ch # replicate m Padding, 0)"
  using initial_packet_sized [OF assms] by blast

definition short_byte :: "bool \<Rightarrow> nat \<Rightarrow> u8" where
  "short_byte phase n = 0x40 OR (if phase then 0x04 else 0) OR (if n = 4 then 0 else of_nat n)"

lemma encrypt_short_eq:
  assumes n: "pn_size_ok n"
  shows "encrypt_short k dst frames pn n phase =
     seal k ((short_byte phase n # dst) @ pn_be pn n) (length (short_byte phase n # dst)) frames pn n"
proof -
  have s0: "store_at (replicate (1 + length dst + n) 0) 0 (0x40 OR (if phase then 0x04 else 0) OR (if n =
      4 then 0 else of_nat n)) =
      (Ok ([short_byte phase n] @ replicate (length dst + n) 0) :: (bytes, connection_error) result)"
    using fill_at [of "[]" 0 "1 + length dst + n" "short_byte phase n"] by (simp add: short_byte_def)
  have s1: "store_slice ([short_byte phase n] @ replicate (length dst + n) 0) 1 dst =
      (Ok ((short_byte phase n # dst) @ replicate n 0) :: (bytes, connection_error) result)"
    using fill_slice [of "[short_byte phase n]" 1 dst "length dst + n"] by simp
  have s2: "write_pn_at ((short_byte phase n # dst) @ replicate n 0) (1 + length dst) pn n =
      Ok ((short_byte phase n # dst) @ pn_be pn n)"
    using n by (intro fill_pn) simp_all
  show ?thesis
    unfolding encrypt_short_def Let_def s0 andthen_Inr s1 s2 by simp
qed

lemma short_byte_low: "pn_size_ok n \<Longrightarrow> short_byte phase n AND 3 = (if n = 4 then 0 else of_nat n)"
  by (auto simp: short_byte_def pn_size_ok_def)

lemma short_form_bits: "pn_size_ok n \<Longrightarrow> form_bits f = form_bits (short_byte phase n) \<Longrightarrow> f AND 0x80 = 0"
proof -
  assume n: "pn_size_ok n" and f: "form_bits f = form_bits (short_byte phase n)"
  have s: "short_byte phase n AND 0x80 = 0"
    using n by (auto simp: short_byte_def pn_size_ok_def bit.conj_disj_distrib2)
  have "form_bits (short_byte phase n) AND 0x80 = 0"
    using s by (simp add: form_bits_def and.assoc)
  then have "form_bits f AND 0x80 = 0" unfolding f .
  then show "f AND 0x80 = 0"
    by (auto simp: form_bits_def and.assoc split: if_splits)
qed

lemma short_fixed_bit: "pn_size_ok n \<Longrightarrow> form_bits f = form_bits (short_byte phase n) \<Longrightarrow> f AND 0x40 \<noteq> 0"
proof -
  assume n: "pn_size_ok n" and f: "form_bits f = form_bits (short_byte phase n)"
  have b: "form_bits g AND 0x40 = g AND 0x40" for g by (simp add: form_bits_def and.assoc)
  have "short_byte phase n AND 0x40 \<noteq> 0"
    using n by (auto simp: short_byte_def pn_size_ok_def bit.conj_disj_distrib2)
  then show "f AND 0x40 \<noteq> 0" using b [of f] b [of "short_byte phase n"] f by simp
qed

lemma decrypt_short_length: "decrypt_and_parse s packet off = Ok x \<Longrightarrow> off + 4 \<le> length packet"
  by (auto simp: decrypt_and_parse_def Let_def slice_def result_dest split: if_splits)

lemma short_packet_sized:
  assumes k: "keys_match a b" and ks: "local_keys s = Some a" "remote_keys r = Some b"
    and fs: "frames_ok fs" and n: "n = encoded_pn_len pn"
    and pn: "decode_packet_number (largest_recv_pn r) (take_bit (8 * n) pn) (of_nat n) = pn"
  shows "\<exists>pkt m. encrypt_packet s ApplicationData v dst src fs pn n True = Ok pkt \<and>
     decrypt_and_parse r pkt (1 + length dst) = Ok (pn, fs @ replicate m Padding) \<and>
     length pkt \<le> length dst + packet_bound a (length (frames_wire fs)) \<and> pkt \<noteq> [] \<and> pkt ! 0 AND 0x80 = 0 \<and>
     pkt ! 0 AND 0x40 \<noteq> 0"
proof -
  have nn: "pn_size_ok n" "n \<le> 4" "0 < n" using n encoded_pn_len_ok by (simp_all add: encoded_pn_len_def)
  obtain m where m: "sample_len a + 4 - n \<le> length (frames_wire fs) + m"
      "length (frames_wire fs) + m \<le> max 1200 (length (frames_wire fs) + sample_len a + 4)"
      "encrypt_packet s ApplicationData v dst src fs pn n True =
        encrypt_short a dst (frames_wire fs @ replicate m 0) pn n False"
    using encrypt_packet_eq [OF ks(1) fs, of n ApplicationData dst src v pn True] by (auto simp: Let_def)
  let ?p = "frames_wire fs @ replicate m 0"
  let ?h = "short_byte False n # dst"
  have l: "4 - n + sample_len a \<le> length ?p + tag_len a" using m(1) nn by simp
  have "hd ?h AND 3 = (if n = 4 then 0 else of_nat n)" using nn by (simp add: short_byte_low)
  then obtain f' rest where "seal a (?h @ pn_be pn n) (length ?h) ?p pn n = Ok (f' # tl ?h @ rest)"
      "form_bits f' = form_bits (hd ?h)" "length rest = n + length ?p + tag_len a"
      "decrypt_and_parse r (f' # tl ?h @ rest) (length ?h) =
        andthen (map_err InFrame (parse_frames ?p)) (\<lambda>fs. Ok (pn, fs))"
    using open_short [OF k _ nn(1) _ ks(2) l pn, of ?h] by blast
  moreover have "f' AND 0x80 = 0" "f' AND 0x40 \<noteq> 0"
    using short_form_bits [OF nn(1)] short_fixed_bit [OF nn(1)] \<open>form_bits f' = form_bits (hd ?h)\<close> by simp_all
  moreover have "length (f' # tl ?h @ rest) \<le> length dst + packet_bound a (length (frames_wire fs))"
    using m(2) nn(2) \<open>length rest = n + length ?p + tag_len a\<close> by (simp add: packet_bound_def)
  ultimately show ?thesis
    unfolding m(3) encrypt_short_eq [OF nn(1)] parse_frames_padded [OF fs]
    by (intro exI [of _ "f' # tl ?h @ rest"] exI [of _ m]) simp
qed

lemma short_packet:
  assumes k: "keys_match a b" and ks: "local_keys s = Some a" "remote_keys r = Some b"
    and fs: "frames_ok fs" and n: "n = encoded_pn_len pn"
    and pn: "decode_packet_number (largest_recv_pn r) (take_bit (8 * n) pn) (of_nat n) = pn"
  shows "\<exists>pkt m. encrypt_packet s ApplicationData v dst src fs pn n True = Ok pkt \<and>
     decrypt_and_parse r pkt (1 + length dst) = Ok (pn, fs @ replicate m Padding)"
  using short_packet_sized [OF assms] by blast

section \<open>Decryption of arbitrary bytes\<close>

lemma open_payload_okD:
  assumes "open_payload k packet off f pn_bytes n pn = Ok (pn', fs)"
  shows "pn' = pn \<and> (\<exists>aad plaintext. aead_decrypt k pn aad (drop (off + n) packet) = Some plaintext \<and>
     parse_frames plaintext = Ok fs)"
  using assms
  by (auto simp: open_payload_def Let_def result_dest slice_from_def split: if_splits)

lemma open_payload_safe:
  assumes "0 < off" and "length pn_bytes = n" and "off + n \<le> length packet"
  shows "open_payload k packet off f pn_bytes n pn =
     (case aead_decrypt k pn ((take off packet)[0 := f] @ pn_bytes) (drop (off + n) packet) of
        None \<Rightarrow> Error (Transport ProtocolViolation)
      | Some plaintext \<Rightarrow> andthen (map_err InFrame (parse_frames plaintext)) (\<lambda>fs. Ok (pn, fs)))"
proof -
  have s: "slice packet 0 (off + n) = (Ok (take (off + n) packet) :: (bytes, connection_error) result)"
    using assms by (simp add: slice_def)
  have a: "store_at (take (off + n) packet) 0 f =
      (Ok ((take (off + n) packet)[0 := f]) :: (bytes, connection_error) result)"
    using assms by (simp add: store_at_def)
  have t: "take off ((take (off + n) packet)[0 := f]) = (take off packet)[0 := f]"
    by (simp add: take_update_swap min_absorb1)
  have p: "store_slice ((take (off + n) packet)[0 := f]) off pn_bytes =
      (Ok ((take off packet)[0 := f] @ pn_bytes) :: (bytes, connection_error) result)"
    using assms by (simp add: store_slice_def t)
  have d: "slice_from packet (off + n) = (Ok (drop (off + n) packet) :: (bytes, connection_error) result)"
    using assms by (simp add: slice_from_def)
  show ?thesis
    unfolding open_payload_def Let_def s andthen_Inr a p d by (simp split: option.split)
qed

definition authenticated :: "dir_keys \<Rightarrow> bytes \<Rightarrow> u64 \<Rightarrow> bytes \<Rightarrow> bool" where
  "authenticated k packet pn plaintext \<longleftrightarrow>
     (\<exists>aad i. aead_decrypt k pn aad (drop i packet) = Some plaintext)"

lemma authenticatedI: "aead_decrypt k pn aad (drop i packet) = Some p \<Longrightarrow> authenticated k packet pn p"
  by (auto simp: authenticated_def)

text \<open>What the rest of the program sees of a packet: frames of an authenticated plaintext, or an error.\<close>

definition opened :: "dir_keys \<Rightarrow> bytes \<Rightarrow> (u64 \<times> frame list, connection_error) result \<Rightarrow> bool" where
  "opened k packet r \<longleftrightarrow> (case r of
       Inl Panic \<Rightarrow> (\<exists>pn p. authenticated k packet pn p \<and> parse_frames p = Panics)
     | Inl (Err e) \<Rightarrow> e = Transport ProtocolViolation \<or>
         (\<exists>pn p fe. authenticated k packet pn p \<and> parse_frames p = Error fe \<and> e = InFrame fe)
     | Inr (pn, fs) \<Rightarrow> \<exists>p. authenticated k packet pn p \<and> parse_frames p = Ok fs)"

lemma open_payload_opened:
  assumes "0 < off" and "length pn_bytes = n" and "off + n \<le> length packet"
  shows "opened k packet (open_payload k packet off f pn_bytes n pn)"
proof (cases "aead_decrypt k pn ((take off packet)[0 := f] @ pn_bytes) (drop (off + n) packet)")
  case None
  then show ?thesis by (simp add: open_payload_safe [OF assms] opened_def)
next
  case (Some p)
  then have "authenticated k packet pn p" by (rule authenticatedI)
  then show ?thesis
    using Some unfolding open_payload_safe [OF assms]
    by (cases "parse_frames p"; cases "projl (parse_frames p)") (auto simp: opened_def)
qed

lemma length_4_slice: "off + 4 \<le> length packet \<Longrightarrow> length (take 4 (drop off packet)) = 4"
  by simp

lemma unprotect_opened:
  assumes k: "keys_typed k" and off: "0 < off" and len: "off + 4 + sample_len k \<le> length packet"
    and n: "\<And>f. 1 \<le> pn_len f \<and> pn_len f \<le> (4 :: nat)"
  shows "opened k packet
     (andthen (ok_or (Transport ProtocolViolation)
         (hp_decrypt k sample first (resize 4 0 (take 4 (drop off packet))))) (\<lambda>(f, p).
      andthen (slice p 0 (pn_len f)) (\<lambda>p. open_payload k packet off f p (pn_len f) (full f p))))"
proof (cases "hp_decrypt k sample first (resize 4 0 (take 4 (drop off packet)))")
  case None
  then show ?thesis by (simp add: opened_def)
next
  case (Some fp)
  obtain f p where fp: "fp = (f, p)" by (cases fp)
  have "length p = 4" using Some fp k unfolding keys_typed_def by (metis length_resize)
  then have "slice p 0 (pn_len f) = (Ok (take (pn_len f) p) :: (bytes, connection_error) result)"
    "length (take (pn_len f) p) = pn_len f"
    using n [of f] by (simp_all add: slice_def)
  moreover have "off + pn_len f \<le> length packet" using n [of f] len by linarith
  ultimately show ?thesis
    using Some fp off by (simp add: open_payload_opened)
qed

lemma decrypt_long_opened:
  assumes k: "keys_typed k" and off: "0 < off"
  shows "(if length packet < off + 4 + sample_len k
      then decrypt_and_parse_long_inner packet off k =
        Error (InPacket (PktBufferTooShort (off + 4 + sample_len k) (length packet)))
      else opened k packet (decrypt_and_parse_long_inner packet off k))"
proof (cases "length packet < off + 4 + sample_len k")
  case True
  then show ?thesis by (simp add: decrypt_and_parse_long_inner_def)
next
  case False
  then have len: "off + 4 + sample_len k \<le> length packet" by simp
  then have ne: "packet \<noteq> []" by auto
  have "1 \<le> unat ((f AND 3) + 1) \<and> unat ((f AND 3) + 1) \<le> 4" for f :: u8
    using low_bits_2 [of f] by auto
  from unprotect_opened [OF k off len this] len show ?thesis
    by (simp add: decrypt_and_parse_long_inner_def Let_def slice_def index_at_def min_absorb1 ne)
qed

lemma decrypt_short_opened:
  assumes r: "remote_keys space = Some k" and k: "keys_typed k" and off: "0 < off"
  shows "(if length packet < off + 4 + sample_len k
      then decrypt_and_parse space packet off = Panics
      else opened k packet (decrypt_and_parse space packet off))"
proof (cases "length packet < off + 4 + sample_len k")
  case True
  then show ?thesis by (simp add: decrypt_and_parse_def r Let_def slice_def)
next
  case False
  then have len: "off + 4 + sample_len k \<le> length packet" by simp
  then have ne: "packet \<noteq> []" by auto
  have "1 \<le> (if f AND 3 = 0 then 4 else unat (f AND 3)) \<and> (if f AND 3 = 0 then 4 else unat (f AND 3)) \<le> 4" for f :: u8
    using low_bits_2 [of f] by auto
  from unprotect_opened [where pn_len = "\<lambda>f. if f AND 3 = 0 then 4 else unat (f AND 3)", OF k off len this] len
  show ?thesis
    by (simp add: decrypt_and_parse_def r Let_def slice_def index_at_def min_absorb1 ne)
qed
section \<open>Properties\<close>

definition toy_space :: "packet_number_space \<Rightarrow> space" where
  "toy_space sp = set_keys toy_keys (space_new sp)"

lemma toy_space_keys [simp]:
  "local_keys (toy_space sp) = Some toy_dir_keys" "remote_keys (toy_space sp) = Some toy_dir_keys"
  "largest_recv_pn (toy_space sp) = 0" "sample_len toy_dir_keys = 16" "tag_len toy_dir_keys = 16"
  "keys_local toy_keys = toy_dir_keys" "keys_remote toy_keys = toy_dir_keys"
  by (simp_all add: toy_space_def set_keys_def local_keys_def remote_keys_def space_new_def
      largest_recv_pn_def toy_keys_def toy_dir_keys_def)

text \<open>
  C12: a packet built by \<open>encrypt_packet\<close> with a long header (any space, before the connection is
  established) reaches a peer with matching keys: the protected header parses to the type of its
  space and the two connection IDs, the packet number is found where the receiver computes it, and
  decryption gives the packet number and the frames that were sent, followed by PADDING only; an
  Initial packet has at least 1200 bytes. Holds for every packet number below \<open>2 ^ 32\<close>.
\<close>

theorem long_packet_roundtrip:
  assumes "keys_match a b" and "local_keys s = Some a" and "remote_keys r = Some b"
    and "frames_ok fs" and "v \<noteq> VERSION_NEGOTIATION" and "length dst \<le> 20" and "length src \<le> 20"
    and "sp \<noteq> ApplicationData \<or> \<not> est" and "unat pn < 2 ^ 32"
    and "length (frames_wire fs) + sample_len a + tag_len a + 2000 < 2 ^ 62"
  shows "\<exists>pkt hdr i m. encrypt_packet s sp v dst src fs pn (encoded_pn_len pn) est = Ok pkt \<and>
     parse_long_header pkt = Ok (hdr, i) \<and> lh_ty hdr = space_long_type sp \<and>
     lh_dst_cid hdr = ConnectionId dst \<and> lh_src_cid hdr = ConnectionId src \<and>
     decrypt_and_parse_long r pkt (hdr_pn_offset_long hdr) = Ok (pn, fs @ replicate m Padding) \<and>
     (sp = InitialSpace \<longrightarrow> 1200 \<le> length pkt)"
  using assms by (rule long_packet)

theorem long_packet_roundtrip_witness:
  "\<exists>pkt hdr i m. encrypt_packet (toy_space InitialSpace) InitialSpace VERSION_1 [1] [2]
       [Ping, Crypto 0 [7]] 300 2 False = Ok pkt \<and>
     parse_long_header pkt = Ok (hdr, i) \<and>
     decrypt_and_parse_long (toy_space InitialSpace) pkt (hdr_pn_offset_long hdr) =
       Ok (300, [Ping, Crypto 0 [7]] @ replicate m Padding) \<and> 1200 \<le> length pkt"
  using long_packet_roundtrip [OF toy_match, of "toy_space InitialSpace" "toy_space InitialSpace"
      "[Ping, Crypto 0 [7]]" VERSION_1 "[1]" "[2]" InitialSpace False 300]
  by (fastforce simp: frames_ok_def frames_wire_def length_ok_def sized_bytes_def varint_bytes_def
      VERSION_1_def VERSION_NEGOTIATION_def encoded_pn_len_def)

text \<open>
  The first packet of a client, built by \<open>build_initial_packet\<close>: it has at least 1200 bytes, its
  header parses as an Initial packet of version 1 with the connection IDs given, and a server whose
  keys match decrypts it (\<open>decrypt_initial\<close>) to packet number 0 and the CRYPTO frame at offset 0 with
  the ClientHello, followed by PADDING only.
\<close>

theorem initial_packet_opens:
  assumes "keys_match (keys_local ck) (keys_remote sk)" and "length dst \<le> 20" and "length src \<le> 20"
    and "length ch + sample_len (keys_local ck) + tag_len (keys_local ck) + 2000 < 2 ^ 62"
    and "4 + sample_len (keys_local ck) \<le> 1100"
  shows "\<exists>pkt hdr i m. build_initial_packet ck dst src ch = Ok pkt \<and> 1200 \<le> length pkt \<and>
     parse_long_header pkt = Ok (hdr, i) \<and> lh_ty hdr = Initial \<and> lh_version hdr = VERSION_1 \<and>
     lh_dst_cid hdr = ConnectionId dst \<and> lh_src_cid hdr = ConnectionId src \<and>
     decrypt_initial pkt hdr sk = Ok (Crypto 0 ch # replicate m Padding, 0)"
  using assms by (rule initial_packet)

theorem initial_packet_opens_witness:
  "\<exists>pkt hdr i m. build_initial_packet toy_keys [1, 2] [3] [22, 3, 1] = Ok pkt \<and> 1200 \<le> length pkt \<and>
     parse_long_header pkt = Ok (hdr, i) \<and>
     decrypt_initial pkt hdr toy_keys = Ok (Crypto 0 [22, 3, 1] # replicate m Padding, 0)"
  using initial_packet_opens [of toy_keys toy_keys "[1, 2]" "[3]" "[22, 3, 1]"] toy_match by fastforce

text \<open>
  C13: a packet built by \<open>encrypt_packet\<close> on an established connection (short header) is decrypted by a
  peer with matching keys to its packet number and its frames, followed by PADDING only, whenever
  the packet number lies in the window that the receiver's largest number allows.
\<close>

theorem short_packet_roundtrip:
  assumes "keys_match a b" and "local_keys s = Some a" and "remote_keys r = Some b"
    and "frames_ok fs" and "n = encoded_pn_len pn"
    and "decode_packet_number (largest_recv_pn r) (take_bit (8 * n) pn) (of_nat n) = pn"
  shows "\<exists>pkt m. encrypt_packet s ApplicationData v dst src fs pn n True = Ok pkt \<and>
     decrypt_and_parse r pkt (1 + length dst) = Ok (pn, fs @ replicate m Padding)"
  using assms by (rule short_packet)

theorem short_packet_roundtrip_witness:
  "\<exists>pkt m. encrypt_packet (toy_space ApplicationData) ApplicationData 1 [5] [] [HandshakeDone] 9 1 True = Ok pkt \<and>
     decrypt_and_parse (toy_space ApplicationData) pkt (Suc (Suc 0)) = Ok (9, [HandshakeDone] @ replicate m Padding)"
proof -
  have "decode_packet_number 0 (take_bit (8 * 1) 9) (of_nat 1) = 9"
    by (rule decode_first_pn) (simp_all add: pn_size_ok_def)
  then have "decode_packet_number (largest_recv_pn (toy_space ApplicationData)) (take_bit (8 * 1) 9) (of_nat 1) = 9"
    by simp
  from short_packet_roundtrip [OF toy_match _ _ _ _ this, of "toy_space ApplicationData" "[HandshakeDone]" 1 "[5]" "[]"]
  show ?thesis by (simp add: frames_ok_def encoded_pn_len_def word_less_nat_alt)
qed

text \<open>
  C14: decryption of arbitrary bytes as a long packet: a buffer too short for the sample is the error
  that says so; otherwise frames come only out of a plaintext that the AEAD authenticated, an error
  is a protocol violation or a frame error of an authenticated plaintext, and a panic needs an
  authenticated plaintext whose frames make the parser panic.
\<close>

theorem decrypt_long_authenticated:
  assumes "keys_typed k" and "0 < off"
  shows "(if length packet < off + 4 + sample_len k
      then decrypt_and_parse_long_inner packet off k =
        Error (InPacket (PktBufferTooShort (off + 4 + sample_len k) (length packet)))
      else opened k packet (decrypt_and_parse_long_inner packet off k))"
  using assms by (rule decrypt_long_opened)

theorem decrypt_long_authenticated_witness:
  "decrypt_and_parse_long_inner [0xc0, 1, 2] 1 toy_dir_keys = Error (InPacket (PktBufferTooShort 21 3))"
  using decrypt_long_authenticated [OF toy_typed, of 1 "[0xc0, 1, 2]"] by simp

text \<open>
  A payload of frames written one after the other is parsed back by the loop over the payload, as
  long as none of them is an empty STREAM frame, and zero bytes behind it are PADDING frames.
\<close>

theorem payload_roundtrip:
  assumes "frames_ok fs"
  shows "\<exists>payload. frames_to_bytes fs = Ok payload \<and>
     parse_frames (pad_to n payload) = Ok (fs @ replicate (n - length payload) Padding)"
  using frames_to_bytes_ok [OF assms] parse_frames_padded [OF assms] by (simp add: pad_to_eq)

theorem payload_roundtrip_witness:
  "\<exists>payload. frames_to_bytes [Ping, MaxData 70] = Ok payload \<and>
     parse_frames (pad_to 9 payload) = Ok ([Ping, MaxData 70] @ replicate (9 - length payload) Padding)"
  by (rule payload_roundtrip) (simp add: frames_ok_def VARINT_MAX_eq)

end
