(* ===== verification/Platform.thy ===== *)
theory Platform
  imports Crypto
begin

text \<open>
  What the program takes from its environment, as parameters: the crypto provider, the TLS machine
  (\<open>rustls::quic::ClientConnection\<close> and \<open>ServerConnection\<close>, both values of \<open>'t\<close>), server
  configurations (\<open>'c\<close>) and random bytes. Nothing is assumed of them in the definitions.
\<close>

text \<open>
  How a client checks the server's certificate: \<open>connect\<close> skips the check, \<open>client_initial\<close> has no
  trust anchors.
\<close>

datatype verifier = SkipVerify | EmptyRoots

record ('t, 'c) platform =
  pf_provider :: crypto_provider
  server_name_ok :: "string \<Rightarrow> bool"
  client_new :: "verifier \<Rightarrow> string \<Rightarrow> (tls_error, 't) sum"
  server_new :: "'c \<Rightarrow> (tls_error, 't) sum"
  tls_read_hs :: "'t \<Rightarrow> bytes \<Rightarrow> tls_error option \<times> 't"
  tls_write_hs :: "'t \<Rightarrow> bytes \<times> key_change option \<times> 't"
  entropy :: "nat \<Rightarrow> bytes option"

text \<open>\<open>?\<close> on a \<open>Result\<close> of the TLS library.\<close>

definition tls_result :: "(tls_error \<Rightarrow> 'e) \<Rightarrow> (tls_error, 'a) sum \<Rightarrow> ('a, 'e) result" where
  "tls_result f r = (case r of Inl e \<Rightarrow> Error (f e) | Inr x \<Rightarrow> Ok x)"

text \<open>
  \<open>read_hs\<close> on the TLS machine behind a \<open>&mut\<close> reference: its error is passed on, its state is kept.
\<close>

definition read_hs :: "('t, 'c) platform \<Rightarrow> bytes \<Rightarrow> ('t, unit, tls_error) act" where
  "read_hs pf data t = (case tls_read_hs pf t data of
       (Some e, t') \<Rightarrow> (Error e, t')
     | (None, t') \<Rightarrow> (Ok (), t'))"

text \<open>
  \<open>random_bytes(len)\<close>, the \<open>i\<close>-th call of a run: a buffer of \<open>len\<close> zero bytes filled by the system,
  with a panic when the system has no entropy.
\<close>

definition random_bytes :: "('t, 'c) platform \<Rightarrow> nat \<Rightarrow> nat \<Rightarrow> (bytes, 'e) result" where
  "random_bytes pf i len =
     (case entropy pf i of None \<Rightarrow> Panics | Some bs \<Rightarrow> Ok (resize len 0 bs))"

lemma length_random_bytes: "random_bytes pf i len = Ok bs \<Longrightarrow> length bs = len"
  by (auto simp: random_bytes_def split: option.splits)

end
