(* ===== verification/Handshake.thy ===== *)
theory Handshake
  imports Platform Protection_Proofs
begin

text \<open>
  \<open>src/handshake.rs\<close>: the first Initial packet of a client, built without a connection. It lays the
  header out with two bytes for the Length field, whatever the length is.
\<close>

definition MIN_INITIAL_SIZE :: nat where
  "MIN_INITIAL_SIZE = 1200"

text \<open>\<open>varint::encode(v, &mut header[pos..])?\<close>\<close>

definition hs_encode_at :: "u64 \<Rightarrow> bytes \<Rightarrow> nat \<Rightarrow> (bytes, handshake_error) result" where
  "hs_encode_at v header pos =
     andthen (slice_from header pos) (\<lambda>r.
     case encode v r of
       (Inl e, r') \<Rightarrow> map_err HsVarInt (Inl e)
     | (Inr n, r') \<Rightarrow> Ok (take pos header @ r'))"

text \<open>
  AEAD encryption and header protection. The text of an \<open>Internal\<close> error leaves out what the library's
  own error prints.
\<close>

definition hs_seal :: "dir_keys \<Rightarrow> bytes \<Rightarrow> nat \<Rightarrow> bytes \<Rightarrow> u64 \<Rightarrow> nat \<Rightarrow> (bytes, handshake_error) result" where
  "hs_seal k header pn_offset payload pn pn_len =
     andthen (ok_or (Internal ''AEAD encrypt'') (aead_encrypt k pn header payload)) (\<lambda>(payload, tag).
     let payload = payload @ tag;
         sample_start = 4 - pn_len in
     andthen (slice payload sample_start (sample_start + sample_len k)) (\<lambda>sample.
     andthen (index_at header 0) (\<lambda>first_byte.
     andthen (index_at header pn_offset) (\<lambda>pn_byte.
     andthen (ok_or (Internal ''header protection'') (hp_encrypt k sample first_byte [pn_byte]))
         (\<lambda>(first_byte, pn_bytes).
     andthen (store_at header 0 first_byte) (\<lambda>header.
     andthen (index_at pn_bytes 0) (\<lambda>pn_byte.
     andthen (store_at header pn_offset pn_byte) (\<lambda>header.
     Ok (header @ payload)))))))))"

definition build_and_protect_initial ::
  "quic_keys \<Rightarrow> bytes \<Rightarrow> bytes \<Rightarrow> bytes \<Rightarrow> (bytes, handshake_error) result" where
  "build_and_protect_initial k dst_cid src_cid client_hello =
     (let pn = 0; pn_len = 1; tl = tag_len (keys_local k);
          crypto_frame = Crypto 0 client_hello in
     case write_frame crypto_frame [] of
       (Inl e, buf) \<Rightarrow> map_err HsFrame (Inl e)
     | (Inr _, frames_buf) \<Rightarrow>
        let hdr_prefix_len = 1 + 4 + 1 + length dst_cid + 1 + length src_cid;
            token_len_varint_size = 1;
            length_field_size = 2;
            pn_offset = hdr_prefix_len + token_len_varint_size + length_field_size;
            header_total = pn_offset + pn_len;
            plaintext_min = MIN_INITIAL_SIZE - (header_total + tl);
            plaintext_len = max (length frames_buf) plaintext_min in
        andthen (store_slice (replicate plaintext_len 0) 0 frames_buf) (\<lambda>payload.
        let payload = take (length frames_buf) payload @ map (\<lambda>_. 0) (drop (length frames_buf) payload);
            length_value = of_nat (pn_len + plaintext_len + tl);
            header = replicate header_total 0 in
        andthen (store_at header 0 (0xc0 OR of_nat (pn_len - 1))) (\<lambda>header.
        andthen (store_slice header 1 (to_be32 VERSION_1)) (\<lambda>header.
        andthen (store_at header 5 (of_nat (length dst_cid))) (\<lambda>header.
        andthen (store_slice header 6 dst_cid) (\<lambda>header.
        let scid_pos = 6 + length dst_cid in
        andthen (store_at header scid_pos (of_nat (length src_cid))) (\<lambda>header.
        andthen (store_slice header (scid_pos + 1) src_cid) (\<lambda>header.
        let token_pos = scid_pos + 1 + length src_cid in
        andthen (hs_encode_at 0 header token_pos) (\<lambda>header.
        let length_pos = token_pos + token_len_varint_size in
        andthen (hs_encode_at length_value header length_pos) (\<lambda>header.
        andthen (store_at header pn_offset 0) (\<lambda>header.
        hs_seal (keys_local k) header pn_offset payload pn pn_len)))))))))))"

definition client_initial :: "('t, 'c) platform \<Rightarrow> string \<Rightarrow> (bytes, handshake_error) result" where
  "client_initial pf server_name =
     (if \<not> server_name_ok pf server_name then Error (InvalidServerName server_name)
      else
        andthen (tls_result HsTls (client_new pf EmptyRoots server_name)) (\<lambda>tls.
        case tls_write_hs pf tls of (client_hello, _, tls) \<Rightarrow>
        if client_hello = [] then Error (Internal ''TLS produced no ClientHello'')
        else
          andthen (random_bytes pf 0 8) (\<lambda>dst_cid.
          andthen (random_bytes pf 1 8) (\<lambda>src_cid.
          andthen (map_err HsCrypto (client_initial_keys (pf_provider pf) dst_cid)) (\<lambda>k.
          build_and_protect_initial k dst_cid src_cid client_hello)))))"


section \<open>The header and the packet\<close>

lemma hs_fill_varint:
  "length d = i \<Longrightarrow> v \<le> VARINT_MAX \<Longrightarrow>
     hs_encode_at v (d @ replicate m 0) i =
       (if encoded_len v \<le> m then Ok ((d @ varint_bytes v) @ replicate (m - encoded_len v) 0)
        else Error (HsVarInt (BufferTooShort (encoded_len v) m)))"
  by (auto simp: hs_encode_at_def slice_from_def encode_eq encode_too_short)

lemma hs_seal_eq:
  assumes "seal k (h @ [x]) (length h) payload pn 1 = Ok pkt" and "keys_typed k"
  shows "hs_seal k (h @ [x]) (length h) payload pn 1 = Ok pkt"
proof -
  have s: "slice (h @ [x]) (length h) (length h + 1) = (Ok [x] :: (bytes, connection_error) result)"
    by (simp add: slice_def)
  obtain c tag sample f f' p' h1 h2 where
    1: "aead_encrypt k pn (h @ [x]) payload = Some (c, tag)"
    and 2: "slice (c @ tag) (4 - 1) (4 - 1 + sample_len k) = (Ok sample :: (bytes, connection_error) result)"
    and 3: "index_at (h @ [x]) 0 = (Ok f :: (u8, connection_error) result)"
    and 4: "hp_encrypt k sample f [x] = Some (f', p')"
    and 5: "store_at (h @ [x]) 0 f' = (Ok h1 :: (bytes, connection_error) result)"
    and 6: "store_slice h1 (length h) p' = (Ok h2 :: (bytes, connection_error) result)"
    and 7: "pkt = h2 @ c @ tag"
    using assms(1) unfolding seal_def Let_def s by (auto simp: result_dest)
  have "length p' = 1" using assms(2) 4 unfolding keys_typed_def by fastforce
  then obtain y where y: "p' = [y]" by (cases p') auto
  have l: "length h1 = length h + 1" using 5 by (auto simp: store_at_def)
  have h2: "h2 = h1[length h := y]" using 6 l y by (auto simp: store_slice_def upd_conv_take_nth_drop split: if_splits)
  show ?thesis
    using 1 2 3 4 5 7 l
    by (simp add: hs_seal_def Let_def slice_def index_at_def store_at_def y h2 split: if_splits)
qed

lemma build_and_protect_eq:
  fixes k :: quic_keys and dst src ch :: bytes
  assumes d: "length dst \<le> 20" "length src \<le> 20" and ch: "length_ok ch"
  defines "w \<equiv> frame_wire (Crypto 0 ch)"
  defines "tot \<equiv> 7 + length dst + length src + 4"
  defines "n \<equiv> max (length w) (1200 - (tot + tag_len (keys_local k)))"
  assumes l: "1 + n + tag_len (keys_local k) < 2 ^ 62"
  defines "len \<equiv> of_nat (1 + n + tag_len (keys_local k)) :: u64"
  shows "build_and_protect_initial k dst src ch =
     (if len < 16384
      then hs_seal (keys_local k) (long_head InitialSpace VERSION_1 dst src 1 len @ [0])
        (length (long_head InitialSpace VERSION_1 dst src 1 len)) (w @ replicate (n - length w) 0) 0 1
      else Error (HsVarInt (BufferTooShort (encoded_len len) 3)))"
proof -
  have len: "len \<le> VARINT_MAX" unfolding len_def using l by (rule of_nat_le_VARINT_MAX)
  have un: "unat len = 1 + n + tag_len (keys_local k)" unfolding len_def using l by (rule unat_of_nat_u64)
  have big: "63 < len"
    using d un by (simp add: word_less_nat_alt n_def tot_def)
  have wf: "write_frame (Crypto 0 ch) [] = (Ok (length w), w)"
    using ch write_frame_ok [of "Crypto 0 ch" "[]"] by (simp add: w_def length_ok_def)
  have pay: "store_slice (replicate n 0) 0 w = (Ok (w @ replicate (n - length w) 0) :: (bytes, handshake_error) result)"
    by (simp add: store_slice_def n_def)
  have zero: "take (length w) (w @ replicate m 0) @ map (\<lambda>_. 0) (drop (length w) (w @ replicate m 0)) =
      w @ replicate m (0 :: u8)" for m
    by (simp add: map_replicate_const)
  let ?d6 = "((((([long_byte InitialSpace 1] @ to_be32 VERSION_1) @ [of_nat (length dst)]) @ dst) @
      [of_nat (length src)]) @ src)"
  have x: "0xc0 OR of_nat (1 - 1) = long_byte InitialSpace 1" by (simp add: long_byte_def space_type_bits_def)
  have m: "tot = 7 + length dst + length src + 4" by (simp add: tot_def)
  have s6: "hs_encode_at 0 (?d6 @ replicate 4 0) (6 + length dst + 1 + length src) =
      Ok ((?d6 @ [0]) @ replicate 3 0)"
    by (subst hs_fill_varint) (simp_all add: varint_bytes_0 encoded_len_def)
  have s7: "hs_encode_at len ((?d6 @ [0]) @ replicate 3 0) (6 + length dst + 1 + length src + 1) =
      (if encoded_len len \<le> 3 then Ok (((?d6 @ [0]) @ varint_bytes len) @ replicate (3 - encoded_len len) 0)
       else Error (HsVarInt (BufferTooShort (encoded_len len) 3)))"
    using len by (subst hs_fill_varint) simp_all
  have T: "1 + 4 + 1 + length dst + 1 + length src + 1 + 2 + 1 = tot" by (simp add: tot_def)
  have step: "build_and_protect_initial k dst src ch =
      andthen (hs_encode_at len ((?d6 @ [0]) @ replicate 3 0) (6 + length dst + 1 + length src + 1)) (\<lambda>header.
      andthen (store_at header (1 + 4 + 1 + length dst + 1 + length src + 1 + 2) 0) (\<lambda>header.
      hs_seal (keys_local k) header (1 + 4 + 1 + length dst + 1 + length src + 1 + 2)
        (w @ replicate (n - length w) 0) 0 1))"
    unfolding build_and_protect_initial_def Let_def wf prod.case sum.case T MIN_INITIAL_SIZE_def
      n_def [symmetric] pay andthen_Inr zero fill_long_prefix [OF x m] s6 len_def [symmetric]
    by (rule refl)
  show ?thesis
  proof (cases "len < 16384")
    case True
    then have e: "encoded_len len = 2"
      using big by (auto simp: encoded_len_def word_less_nat_alt word_le_nat_alt)
    have head: "long_head InitialSpace VERSION_1 dst src 1 len = (?d6 @ [0]) @ varint_bytes len"
      by (simp add: long_head_def long_prefix_def sized_cid_def space_token_def token_wire_def varint_bytes_0)
    have P: "1 + 4 + 1 + length dst + 1 + length src + 1 + 2 = length (long_head InitialSpace VERSION_1 dst src 1 len)"
      by (simp add: length_long_head e)
    have z: "store_at (h @ [0]) (length h) 0 = (Ok (h @ [0]) :: (bytes, handshake_error) result)"
      for h :: bytes
      by (simp add: store_at_def)
    show ?thesis
      using True unfolding step s7 e P head [symmetric] by (simp add: z [simplified])
  next
    case False
    then have "\<not> encoded_len len \<le> 3"
      by (auto simp: encoded_len_def word_less_nat_alt word_le_nat_alt)
    with False show ?thesis unfolding step s7 by simp
  qed
qed

lemma handshake_initial:
  assumes k: "keys_match (keys_local ck) (keys_remote sk)" "keys_typed (keys_local ck)"
    and d: "length dst \<le> 20" "length src \<le> 20"
    and size: "length ch + tag_len (keys_local ck) \<le> 14000"
    and min: "4 + sample_len (keys_local ck) \<le> 1100"
  shows "\<exists>pkt hdr i m. build_and_protect_initial ck dst src ch = Ok pkt \<and> 1200 \<le> length pkt \<and>
     parse_long_header pkt = Ok (hdr, i) \<and> lh_ty hdr = Initial \<and> lh_version hdr = VERSION_1 \<and>
     lh_dst_cid hdr = ConnectionId dst \<and> lh_src_cid hdr = ConnectionId src \<and>
     decrypt_initial pkt hdr sk = Ok (Crypto 0 ch # replicate m Padding, 0)"
proof -
  let ?a = "keys_local ck"
  let ?w = "frame_wire (Crypto 0 ch)"
  have ch: "length_ok ch" using size by (simp add: length_ok_def)
  have w: "length ?w \<le> length ch + 10"
    using encoded_len_le_8 [of "of_nat (length ch)"] by (simp add: sized_bytes_def varint_bytes_0)
  define n where "n = max (length ?w) (1200 - (7 + length dst + length src + 4 + tag_len ?a))"
  define len where "len = (of_nat (1 + n + tag_len ?a) :: u64)"
  have l62: "1 + n + tag_len ?a < 2 ^ 62" using w size by (simp add: n_def)
  have un: "unat len = 1 + n + tag_len ?a" unfolding len_def using l62 by (rule unat_of_nat_u64)
  have small: "len < 16384" using w size by (simp add: word_less_nat_alt un n_def)
  let ?p = "?w @ replicate (n - length ?w) 0"
  have p: "length ?p = n" by (simp add: n_def)
  let ?h = "long_head InitialSpace VERSION_1 dst src 1 len"
  have b: "build_and_protect_initial ck dst src ch = hs_seal ?a (?h @ [0]) (length ?h) ?p 0 1"
    using build_and_protect_eq [OF d ch, of ck] small l62 by (simp add: n_def len_def)
  have l: "4 - 1 + sample_len ?a \<le> length ?p + tag_len ?a" "1 + length ?p + tag_len ?a < 2 ^ 62"
    using p l62 d min by (simp_all add: n_def)
  have pn1: "pn_size_ok 1" "unat (0 :: u64) < 2 ^ (8 * 1)" by (simp_all add: pn_size_ok_def)
  have "VERSION_1 \<noteq> VERSION_NEGOTIATION" by (simp add: VERSION_1_def VERSION_NEGOTIATION_def)
  from encrypt_long_opens [OF k(1) pn1 this d l, of InitialSpace] obtain pkt hdr i where
    e: "encrypt_long ?a InitialSpace VERSION_1 dst src ?p 0 1 (space_token InitialSpace) = Ok pkt"
      "parse_long_header pkt = Ok (hdr, i)" "lh_ty hdr = Initial" "lh_version hdr = VERSION_1"
      "lh_dst_cid hdr = ConnectionId dst" "lh_src_cid hdr = ConnectionId src"
      "decrypt_and_parse_long_inner pkt (hdr_pn_offset_long hdr) (keys_remote sk) =
        andthen (map_err InFrame (parse_frames ?p)) (\<lambda>fs. Ok (0, fs))"
      "length pkt = 7 + length dst + length src + 1 +
         encoded_len (of_nat (1 + length ?p + tag_len ?a)) + 1 + length ?p + tag_len ?a"
    by auto
  have "seal ?a (?h @ [0]) (length ?h) ?p 0 1 = Ok pkt"
    using encrypt_long_eq [OF pn1(1) l(2), of InitialSpace VERSION_1 dst src 0] e(1) p
    by (simp add: len_def pn_be_def)
  then have hs: "build_and_protect_initial ck dst src ch = Ok pkt"
    unfolding b using k(2) by (rule hs_seal_eq)
  have "encoded_len len = 2"
    using small un d by (auto simp: encoded_len_def word_less_nat_alt word_le_nat_alt n_def)
  then have "1200 \<le> length pkt" using e(8) unfolding p len_def [symmetric] by (simp add: n_def)
  moreover have "parse_frames ?p = Ok ([Crypto 0 ch] @ replicate (n - length ?w) Padding)"
    using parse_frames_padded [of "[Crypto 0 ch]" "n - length ?w"] ch
    by (simp add: frames_ok_def frames_wire_def length_ok_def)
  then have "decrypt_initial pkt hdr sk = Ok (Crypto 0 ch # replicate (n - length ?w) Padding, 0)"
    using e(7) by (simp add: decrypt_initial_def)
  ultimately show ?thesis using e hs by blast
qed

section \<open>Properties\<close>

text \<open>
  \<open>build_and_protect_initial\<close> for a ClientHello of up to 14000 bytes less the tag: the packet has at
  least 1200 bytes, its header parses as an Initial packet of version 1 with the connection IDs
  given, and a server with matching keys decrypts it to packet number 0 and the CRYPTO frame at
  offset 0 with the ClientHello, followed by PADDING only.
\<close>

theorem handshake_initial_opens:
  assumes "keys_match (keys_local ck) (keys_remote sk)" and "keys_typed (keys_local ck)"
    and "length dst \<le> 20" and "length src \<le> 20"
    and "length ch + tag_len (keys_local ck) \<le> 14000" and "4 + sample_len (keys_local ck) \<le> 1100"
  shows "\<exists>pkt hdr i m. build_and_protect_initial ck dst src ch = Ok pkt \<and> 1200 \<le> length pkt \<and>
     parse_long_header pkt = Ok (hdr, i) \<and> lh_ty hdr = Initial \<and> lh_version hdr = VERSION_1 \<and>
     lh_dst_cid hdr = ConnectionId dst \<and> lh_src_cid hdr = ConnectionId src \<and>
     decrypt_initial pkt hdr sk = Ok (Crypto 0 ch # replicate m Padding, 0)"
  using assms by (rule handshake_initial)

theorem handshake_initial_opens_witness:
  "\<exists>pkt hdr i m. build_and_protect_initial toy_keys [1, 2] [3] [22, 3, 1] = Ok pkt \<and> 1200 \<le> length pkt \<and>
     parse_long_header pkt = Ok (hdr, i) \<and>
     decrypt_initial pkt hdr toy_keys = Ok (Crypto 0 [22, 3, 1] # replicate m Padding, 0)"
  using handshake_initial_opens [of toy_keys toy_keys "[1, 2]" "[3]" "[22, 3, 1]"] toy_match toy_typed by fastforce

text \<open>
  A ClientHello too long for the two bytes laid out for the Length field: from 16384 bytes of
  packet number, plaintext and tag on, \<open>build_and_protect_initial\<close> fails with a varint error about
  its own header buffer instead of building a packet with a longer Length field.
\<close>

theorem handshake_initial_too_long:
  assumes "length dst \<le> 20" and "length src \<le> 20" and "length ch < 2 ^ 61" and "tag_len (keys_local k) < 2 ^ 60"
    and "16384 \<le> length ch + tag_len (keys_local k)"
  shows "\<exists>need. build_and_protect_initial k dst src ch = Error (HsVarInt (BufferTooShort need 3)) \<and>
     need \<in> {4, 8}"
proof -
  let ?w = "frame_wire (Crypto 0 ch)"
  define n where "n = max (length ?w) (1200 - (7 + length dst + length src + 4 + tag_len (keys_local k)))"
  define len where "len = (of_nat (1 + n + tag_len (keys_local k)) :: u64)"
  have w: "length ch \<le> length ?w" "length ?w \<le> length ch + 10"
    using encoded_len_le_8 [of "of_nat (length ch)"] by (simp_all add: sized_bytes_def varint_bytes_0)
  have ch: "length_ok ch" using assms(3) by (simp add: length_ok_def)
  have l: "1 + n + tag_len (keys_local k) < 2 ^ 62" using assms w by (simp add: n_def)
  have un: "unat len = 1 + n + tag_len (keys_local k)" unfolding len_def using l by (rule unat_of_nat_u64)
  have big: "\<not> len < 16384" using w assms(5) by (simp add: word_less_nat_alt un n_def)
  then have "encoded_len len \<in> {4, 8}"
    by (auto simp: encoded_len_def word_less_nat_alt word_le_nat_alt)
  moreover have "build_and_protect_initial k dst src ch = Error (HsVarInt (BufferTooShort (encoded_len len) 3))"
    using build_and_protect_eq [OF assms(1,2) ch, of k] big l by (simp add: n_def len_def)
  ultimately show ?thesis by blast
qed

theorem handshake_initial_too_long_witness:
  "\<exists>need. build_and_protect_initial toy_keys [] [] (replicate 20000 0) = Error (HsVarInt (BufferTooShort need 3))"
  using handshake_initial_too_long [of "[]" "[]" "replicate 20000 0" toy_keys] by (auto simp del: replicate.simps)

end
