(* ===== verification/Connection.thy ===== *)
theory Connection
  imports Platform Protection_Proofs
begin

text \<open>
  \<open>src/connection.rs\<close>: the connection state machine. A method with \<open>&mut self\<close> is an action on the
  record \<open>conn\<close> (the state reached is kept when it returns early with an error); \<open>connect\<close> and
  \<open>accept\<close> build the record. TLS, entropy and the crypto provider are the parameter \<open>pf\<close>; the clock
  is the argument \<open>now\<close>.
\<close>

section \<open>State\<close>

datatype side = Client | Server

datatype conn_state = Connecting | Handshaking | Established | Closed

text \<open>
  \<open>pending_crypto\<close> and \<open>crypto_recv_offset\<close> are arrays of three elements in Rust; that the lists keep
  this length is an invariant.
\<close>

record 't conn =
  side :: side
  state :: conn_state
  tls :: 't
  version :: u32
  dst_cid :: bytes
  src_cid :: bytes
  initial_space :: space
  handshake_space :: space
  appdata_space :: space
  pending_crypto :: "bytes list"
  crypto_recv_offset :: "u64 list"
  pending_app_data :: bytes
  received_app_data :: bytes
  stream_send_offset :: u64
  close_reason :: "connection_error option"

type_synonym ('t, 'a) step = "('t conn, 'a, connection_error) act"

section \<open>TLS output\<close>

definition process_tls_output ::
  "(bytes \<times> key_change option) option \<Rightarrow> nat \<Rightarrow> (nat \<times> bytes) list \<times> quic_keys option" where
  "process_tls_output tls_out current_level = (case tls_out of
       None \<Rightarrow> ([], None)
     | Some (data, key_change) \<Rightarrow>
         (if data \<noteq> [] then [(current_level, data)] else [],
          case key_change of
            Some (HandshakeKeys k) \<Rightarrow> Some k
          | Some (OneRttKeys k) \<Rightarrow> Some k
          | None \<Rightarrow> None))"

fun pn_space_to_level :: "packet_number_space \<Rightarrow> nat" where
  "pn_space_to_level InitialSpace = 0"
| "pn_space_to_level HandshakeSpace = 1"
| "pn_space_to_level ApplicationData = 2"

text \<open>\<open>for (lvl, data) in out { if lvl < 3 { pending[lvl] = data } }\<close>, and the same with \<open>extend\<close>.\<close>

fun store_crypto :: "(nat \<times> bytes) list \<Rightarrow> bytes list \<Rightarrow> bytes list" where
  "store_crypto [] pending = pending"
| "store_crypto ((lvl, data) # out) pending =
     store_crypto out (if lvl < 3 then pending[lvl := data] else pending)"

fun extend_crypto :: "(nat \<times> bytes) list \<Rightarrow> bytes list \<Rightarrow> bytes list" where
  "extend_crypto [] pending = pending"
| "extend_crypto ((lvl, data) # out) pending =
     extend_crypto out (if lvl < 3 then pending[lvl := pending ! lvl @ data] else pending)"

section \<open>Spaces of a connection\<close>

definition get_space :: "packet_number_space \<Rightarrow> 't conn \<Rightarrow> space" where
  "get_space i c = (case i of
       InitialSpace \<Rightarrow> initial_space c
     | HandshakeSpace \<Rightarrow> handshake_space c
     | ApplicationData \<Rightarrow> appdata_space c)"

text \<open>\<open>space_mut\<close>: an update through the reference it returns.\<close>

definition space_mut :: "packet_number_space \<Rightarrow> (space \<Rightarrow> space) \<Rightarrow> 't conn \<Rightarrow> 't conn" where
  "space_mut i f c = (case i of
       InitialSpace \<Rightarrow> c\<lparr>initial_space := f (initial_space c)\<rparr>
     | HandshakeSpace \<Rightarrow> c\<lparr>handshake_space := f (handshake_space c)\<rparr>
     | ApplicationData \<Rightarrow> c\<lparr>appdata_space := f (appdata_space c)\<rparr>)"

section \<open>Handling CRYPTO output\<close>

text \<open>\<open>self.tls.write_hs(&mut buf)\<close>, which is \<open>write_hs\<close> of whichever side it is.\<close>

definition write_hs :: "('t, 'c) platform \<Rightarrow> 't conn \<Rightarrow> bytes \<times> key_change option \<times> 't conn" where
  "write_hs pf c = (case tls_write_hs pf (tls c) of (buf, kc, t) \<Rightarrow> (buf, kc, c\<lparr>tls := t\<rparr>))"

text \<open>The three ways new keys are installed.\<close>

definition install_handshake :: "quic_keys \<Rightarrow> 't conn \<Rightarrow> 't conn" where
  "install_handshake k c =
     (if \<not> has_keys (handshake_space c)
      then c\<lparr>handshake_space := set_keys k (handshake_space c)\<rparr> else c)"

definition install_one_rtt :: "quic_keys \<Rightarrow> 't conn \<Rightarrow> 't conn" where
  "install_one_rtt k c =
     (if \<not> has_keys (appdata_space c)
      then c\<lparr>appdata_space := set_keys k (appdata_space c), state := Established\<rparr> else c)"

definition replace_one_rtt :: "quic_keys \<Rightarrow> 't conn \<Rightarrow> 't conn" where
  "replace_one_rtt k c = c\<lparr>appdata_space := set_keys k (appdata_space c)\<rparr>"

text \<open>
  The second \<open>write_hs\<close> of both arms: its data is buffered for level \<open>lvl\<close>, its keys are installed by
  \<open>install\<close>.
\<close>

definition more_output ::
  "('t, 'c) platform \<Rightarrow> nat \<Rightarrow> (quic_keys \<Rightarrow> 't conn \<Rightarrow> 't conn) \<Rightarrow> 't conn \<Rightarrow> 't conn" where
  "more_output pf lvl install c =
     (case write_hs pf c of (buf2, kc2, c) \<Rightarrow>
      if buf2 \<noteq> [] \<or> kc2 \<noteq> None then
        case process_tls_output (Some (buf2, kc2)) lvl of (crypto_out2, keys2) \<Rightarrow>
        let c = c\<lparr>pending_crypto := extend_crypto crypto_out2 (pending_crypto c)\<rparr> in
        case keys2 of None \<Rightarrow> c | Some k \<Rightarrow> install k c
      else c)"

definition handle_crypto_output ::
  "('t, 'c) platform \<Rightarrow> (nat \<times> bytes) list \<Rightarrow> quic_keys option \<Rightarrow> nat \<Rightarrow> 't conn \<Rightarrow> 't conn" where
  "handle_crypto_output pf crypto_out new_keys level c =
     (let c = c\<lparr>pending_crypto := extend_crypto crypto_out (pending_crypto c)\<rparr> in
      case new_keys of
        None \<Rightarrow> c
      | Some k \<Rightarrow>
          if level = 0 then more_output pf 1 install_one_rtt (install_handshake k c)
          else if level = 1 then more_output pf 2 replace_one_rtt (install_one_rtt k c)
          else c)"

section \<open>Processing frames\<close>

text \<open>
  A CRYPTO frame at the offset expected next is fed to TLS; on its error the offset stays. A CRYPTO
  frame at another offset is dropped.
\<close>

definition process_crypto ::
  "('t, 'c) platform \<Rightarrow> nat \<Rightarrow> u64 \<Rightarrow> bytes \<Rightarrow> ('t, unit) step" where
  "process_crypto pf level offset data c =
     (let expected = crypto_recv_offset c ! level in
      if offset = expected then
        case read_hs pf data (tls c) of
          (Inl e, t) \<Rightarrow> (map_err Tls (Inl e), c\<lparr>tls := t\<rparr>)
        | (Inr _, t) \<Rightarrow>
            case write_hs pf (c\<lparr>tls := t\<rparr>) of (out_buf, kc, c) \<Rightarrow>
            case process_tls_output (Some (out_buf, kc)) level of (crypto_out, new_keys) \<Rightarrow>
            let c = handle_crypto_output pf crypto_out new_keys level c in
            (Ok (), c\<lparr>crypto_recv_offset :=
               (crypto_recv_offset c)[level := crypto_recv_offset c ! level + of_nat (length data)]\<rparr>)
      else (Ok (), c))"

definition process_frame ::
  "('t, 'c) platform \<Rightarrow> nat \<Rightarrow> frame \<Rightarrow> ('t, unit) step" where
  "process_frame pf level frame c = (case frame of
       Crypto offset data \<Rightarrow>
         if level \<le> 2 then process_crypto pf level offset data c else (Ok (), c)
     | ConnectionClose error_code _ _ \<Rightarrow>
         (Ok (), c\<lparr>state := Closed,
            close_reason := Some (Transport
              (case from_code error_code of Some e \<Rightarrow> e | None \<Rightarrow> InternalError))\<rparr>)
     | HandshakeDone \<Rightarrow>
         if side c = Client then (Ok (), c\<lparr>state := Established\<rparr>) else (Ok (), c)
     | Stream _ _ data _ \<Rightarrow> (Ok (), c\<lparr>received_app_data := received_app_data c @ data\<rparr>)
     | _ \<Rightarrow> (Ok (), c))"

fun process_frames_at ::
  "('t, 'c) platform \<Rightarrow> nat \<Rightarrow> frame list \<Rightarrow> ('t, unit) step" where
  "process_frames_at pf level [] = returnA ()"
| "process_frames_at pf level (f # fs) =
     seqA (process_frame pf level f) (\<lambda>_. process_frames_at pf level fs)"

definition process_frames ::
  "('t, 'c) platform \<Rightarrow> frame list \<Rightarrow> packet_number_space \<Rightarrow> ('t, unit) step" where
  "process_frames pf frames pn_space_id = process_frames_at pf (pn_space_to_level pn_space_id) frames"

section \<open>Ingest\<close>

definition long_space :: "long_type \<Rightarrow> packet_number_space option" where
  "long_space ty = (case ty of
       Initial \<Rightarrow> Some InitialSpace
     | Handshake \<Rightarrow> Some HandshakeSpace
     | ZeroRtt \<Rightarrow> Some ApplicationData
     | _ \<Rightarrow> None)"

text \<open>The header and the payload: the space the packet belongs to, its number and its frames.\<close>

definition ingest_packet ::
  "bytes \<Rightarrow> 't conn \<Rightarrow> (packet_number_space \<times> u64 \<times> frame list, connection_error) result" where
  "ingest_packet buf c =
     andthen (index_at buf 0) (\<lambda>first.
     let is_long = (first AND 0x80 \<noteq> 0) in
     if \<not> is_long then
       andthen (map_err InPacket (parse_short_header buf (length (dst_cid c)))) (\<lambda>(hdr, hdr_len).
       let pn_offset = hdr_pn_offset_short hdr in
       andthen (decrypt_and_parse (appdata_space c) buf pn_offset) (\<lambda>(pn, frames).
       Ok (ApplicationData, pn, frames)))
     else
       andthen (map_err InPacket (parse_long_header buf)) (\<lambda>(hdr, hdr_len).
       let pn_offset = hdr_pn_offset_long hdr in
       case long_space (lh_ty hdr) of
         None \<Rightarrow> Error (Transport ProtocolViolation)
       | Some i \<Rightarrow>
           andthen (decrypt_and_parse_long (get_space i c) buf pn_offset) (\<lambda>(pn, frames).
           Ok (i, pn, frames))))"

definition ingest :: "('t, 'c) platform \<Rightarrow> nat \<Rightarrow> bytes \<Rightarrow> ('t, nat) step" where
  "ingest pf now buf c =
     (if state c = Closed then (Error IsClosed, c)
      else if buf = [] then (Ok 0, c)
      else case ingest_packet buf c of
        Inl e \<Rightarrow> (Inl e, c)
      | Inr (pn_space_id, pn, frames) \<Rightarrow>
          let c = space_mut pn_space_id (record_recv_pn now pn) c in
          seqA (process_frames pf frames pn_space_id) (\<lambda>_. returnA (length buf)) c)"

section \<open>Egest\<close>

text \<open>The ACK frame for the packet numbers taken from a space.\<close>

definition ack_frame :: "u64 list \<Rightarrow> frame" where
  "ack_frame acks =
     (let largest = fold max acks 0; first_range = of_nat (length acks - 1) in
      Ack largest 0 [\<lparr>ar_gap = 0, ar_range = first_range\<rparr>] None)"

text \<open>
  The frames that one turn of the loop collects for a space. \<open>st\<close> is \<open>self.state\<close> as it was when
  \<open>egest\<close> was called. What is taken is gone from the state.
\<close>

definition collect_frames ::
  "packet_number_space \<Rightarrow> conn_state \<Rightarrow> 't conn \<Rightarrow> frame list \<times> 't conn" where
  "collect_frames i st c =
     (let crypto_idx = pn_space_to_level i;
          crypto_data = pending_crypto c ! crypto_idx;
          c = c\<lparr>pending_crypto := (pending_crypto c)[crypto_idx := []]\<rparr>;
          frames = (if crypto_data \<noteq> [] then [Crypto 0 crypto_data] else []);
          acks = fst (take_pending_acks (get_space i c));
          c = space_mut i (\<lambda>s. snd (take_pending_acks s)) c;
          frames = (if acks \<noteq> [] then frames @ [ack_frame acks] else frames);
          (frames, c) =
            (if i = ApplicationData \<and> side c = Server \<and> st = Handshaking
             then (frames @ [HandshakeDone], c\<lparr>state := Established\<rparr>) else (frames, c)) in
      if i = ApplicationData \<and> st = Established \<and> pending_app_data c \<noteq> []
      then (frames @ [Stream 0 (stream_send_offset c) (pending_app_data c) False],
            c\<lparr>pending_app_data := [],
              stream_send_offset := stream_send_offset c + of_nat (length (pending_app_data c))\<rparr>)
      else (frames, c))"

text \<open>
  One turn of \<open>for (space, pn_space, crypto_idx) in spaces\<close>: \<open>None\<close> is \<open>continue\<close>, a packet is what the
  turn returns from \<open>egest\<close> before it is copied out.
\<close>

definition egest_space ::
  "packet_number_space \<Rightarrow> conn_state \<Rightarrow> ('t, bytes option) step" where
  "egest_space i st c =
     (if \<not> has_keys (get_space i c) then (Ok None, c)
      else
        case collect_frames i st c of (frames, c) \<Rightarrow>
        if frames = [] then (Ok None, c)
        else
          let pn = fst (next_send_pn (get_space i c));
              c = space_mut i (\<lambda>s. snd (next_send_pn s)) c;
              pn_len = encoded_pn_len pn in
          (andthen (encrypt_packet (get_space i c) i (version c) (dst_cid c) (src_cid c) frames pn
              pn_len (st = Established)) (\<lambda>packet. Ok (Some packet)), c))"

fun egest_spaces ::
  "packet_number_space list \<Rightarrow> conn_state \<Rightarrow> ('t, bytes option) step" where
  "egest_spaces [] st = returnA None"
| "egest_spaces (i # is) st =
     seqA (egest_space i st) (\<lambda>r. case r of None \<Rightarrow> egest_spaces is st | Some p \<Rightarrow> returnA (Some p))"

text \<open>
  \<open>egest(buf)\<close> with a buffer of \<open>cap\<close> bytes: the bytes written to its front, none for \<open>Ok(0)\<close>. A
  packet that does not fit is dropped.
\<close>

definition egest :: "nat \<Rightarrow> ('t, bytes) step" where
  "egest cap c =
     (if state c = Closed then (Error IsClosed, c)
      else
        seqA (egest_spaces [InitialSpace, HandshakeSpace, ApplicationData] (state c)) (\<lambda>r.
        case r of
          None \<Rightarrow> returnA []
        | Some packet \<Rightarrow> if cap < length packet then returnA [] else returnA packet) c)"

section \<open>Queries and application data\<close>

definition next_timeout :: "'t conn \<Rightarrow> nat option" where
  "next_timeout c = None"

definition on_timeout :: "'t conn \<Rightarrow> 't conn" where
  "on_timeout c = c"

definition is_established :: "'t conn \<Rightarrow> bool" where
  "is_established c = (state c = Established)"

definition is_closed :: "'t conn \<Rightarrow> bool" where
  "is_closed c = (state c = Closed)"

definition send_data :: "bytes \<Rightarrow> 't conn \<Rightarrow> 't conn" where
  "send_data data c = c\<lparr>pending_app_data := pending_app_data c @ data\<rparr>"

text \<open>\<open>recv_data(buf)\<close> with a buffer of \<open>cap\<close> bytes: the bytes copied to its front.\<close>

definition recv_data :: "nat \<Rightarrow> 't conn \<Rightarrow> bytes \<times> 't conn" where
  "recv_data cap c =
     (let n = min (length (received_app_data c)) cap in
      (take n (received_app_data c), c\<lparr>received_app_data := drop n (received_app_data c)\<rparr>))"

section \<open>Constructors\<close>

definition connect ::
  "('t, 'c) platform \<Rightarrow> string \<Rightarrow> ('t conn \<times> bytes, connection_error) result" where
  "connect pf server_name =
     (if \<not> server_name_ok pf server_name then Error (Transport InternalError)
      else
        andthen (tls_result Tls (client_new pf SkipVerify server_name)) (\<lambda>tls_client.
        case tls_write_hs pf tls_client of (client_hello, _, tls_client) \<Rightarrow>
        andthen (random_bytes pf 0 8) (\<lambda>dcid.
        andthen (random_bytes pf 1 8) (\<lambda>scid.
        andthen (map_err from_crypto_error (client_initial_keys (pf_provider pf) dcid)) (\<lambda>k.
        andthen (build_initial_packet k dcid scid client_hello) (\<lambda>packet.
        let initial = set_keys k (space_new InitialSpace);
            initial = snd (next_send_pn initial) in
        Ok (\<lparr>side = Client, state = Connecting, tls = tls_client, version = VERSION_1,
             dst_cid = dcid, src_cid = scid, initial_space = initial,
             handshake_space = space_new HandshakeSpace, appdata_space = space_new ApplicationData,
             pending_crypto = [[], [], []], crypto_recv_offset = [0, 0, 0],
             pending_app_data = [], received_app_data = [], stream_send_offset = 0,
             close_reason = None\<rparr>, packet)))))))"

text \<open>The ClientHello: the data of the CRYPTO frames at offset 0.\<close>

fun client_hello_of :: "frame list \<Rightarrow> bytes" where
  "client_hello_of [] = []"
| "client_hello_of (f # fs) =
     (case f of Crypto offset data \<Rightarrow> (if offset = 0 then data else []) | _ \<Rightarrow> []) @ client_hello_of fs"

text \<open>The second \<open>write_hs\<close> of \<open>accept\<close>, for data of the Handshake level and the keys of the next.\<close>

definition accept_handshake_output ::
  "('t, 'c) platform \<Rightarrow> 't \<Rightarrow> bytes list \<Rightarrow> space \<Rightarrow> 't \<times> bytes list \<times> space" where
  "accept_handshake_output pf machine pending app =
     (case tls_write_hs pf machine of (buf2, kc2, machine) \<Rightarrow>
      if buf2 \<noteq> [] \<or> kc2 \<noteq> None then
        case process_tls_output (Some (buf2, kc2)) 1 of (crypto_out2, one_rtt_keys) \<Rightarrow>
        (machine, store_crypto crypto_out2 pending,
         case one_rtt_keys of None \<Rightarrow> app | Some k \<Rightarrow> set_keys k app)
      else (machine, pending, app))"

text \<open>The server connection, once TLS has read the ClientHello.\<close>

definition accepted_conn ::
  "('t, 'c) platform \<Rightarrow> nat \<Rightarrow> long_header \<Rightarrow> quic_keys \<Rightarrow> bytes \<Rightarrow> 't \<Rightarrow> 't conn" where
  "accepted_conn pf now hdr server_keys client_hello tls_server =
     (case tls_write_hs pf tls_server of (buf, kc, machine) \<Rightarrow>
      case process_tls_output (Some (buf, kc)) 0 of (crypto_out, hs_keys) \<Rightarrow>
      let pending = store_crypto crypto_out [[], [], []];
          initial = set_keys server_keys (space_new InitialSpace);
          hs = (case hs_keys of None \<Rightarrow> space_new HandshakeSpace
                              | Some k \<Rightarrow> set_keys k (space_new HandshakeSpace));
          app = space_new ApplicationData;
          has_hs = (hs_keys \<noteq> None);
          (machine, pending, app) =
            (if has_hs then accept_handshake_output pf machine pending app
             else (machine, pending, app));
          initial = record_recv_pn now 0 initial in
      \<lparr>side = Server, state = Handshaking, tls = machine, version = lh_version hdr,
       dst_cid = cid_bytes (lh_src_cid hdr), src_cid = cid_bytes (lh_dst_cid hdr),
       initial_space = initial, handshake_space = hs, appdata_space = app,
       pending_crypto = pending,
       crypto_recv_offset = [of_nat (length client_hello), 0, 0],
       pending_app_data = [], received_app_data = [], stream_send_offset = 0,
       close_reason = None\<rparr>)"

definition accept ::
  "('t, 'c) platform \<Rightarrow> nat \<Rightarrow> bytes \<Rightarrow> 'c \<Rightarrow> ('t conn, connection_error) result" where
  "accept pf now initial_packet server_config =
     andthen (map_err InPacket (parse_long_header initial_packet)) (\<lambda>(hdr, hdr_len).
     let dcid = cid_bytes (lh_dst_cid hdr) in
     andthen (map_err from_crypto_error (server_initial_keys (pf_provider pf) dcid)) (\<lambda>server_keys.
     andthen (decrypt_initial initial_packet hdr server_keys) (\<lambda>(frames, _).
     let client_hello = client_hello_of frames in
     andthen (tls_result Tls (server_new pf server_config)) (\<lambda>tls_server.
     case read_hs pf client_hello tls_server of (r, tls_server) \<Rightarrow>
     andthen (map_err Tls r) (\<lambda>_.
     Ok (accepted_conn pf now hdr server_keys client_hello tls_server))))))"

end
