(* ===== verification/Connection_Proofs.thy ===== *)
theory Connection_Proofs
  imports Connection
begin

text \<open>
  The machinery behind the theorems about connections: what a whole call keeps is reduced to what its
  pieces keep (\<open>handle_crypto_output_rel\<close>, \<open>process_frame_rel\<close>, \<open>ingest_rel\<close>, \<open>egest_spaces_rel\<close>),
  \<open>egest\<close> is written as explicit updates, and the invariant \<open>conn_ok\<close> is proved for every reachable
  connection.
\<close>

section \<open>What no operation changes\<close>

text \<open>
  \<open>evolves c c'\<close>: what every operation keeps (the two arrays' length, the side, version and connection
  IDs, which space is which), what only grows (keys are never dropped, packet numbers are only
  handed out), and the state moves that a call can make.
\<close>

definition sends_more :: "space \<Rightarrow> space \<Rightarrow> bool" where
  "sends_more s s' \<longleftrightarrow> sp_id s' = sp_id s \<and> (has_keys s \<longrightarrow> has_keys s')"

definition same_peer :: "'t conn \<Rightarrow> 't conn \<Rightarrow> bool" where
  "same_peer c c' \<longleftrightarrow> side c' = side c \<and> version c' = version c \<and> dst_cid c' = dst_cid c \<and>
     src_cid c' = src_cid c \<and> length (pending_crypto c') = length (pending_crypto c) \<and>
     length (crypto_recv_offset c') = length (crypto_recv_offset c) \<and>
     (\<forall>i. sends_more (get_space i c) (get_space i c'))"

lemma sends_more_refl [simp]: "sends_more s s"
  by (simp add: sends_more_def)

lemma same_peer_refl [simp]: "same_peer c c"
  by (simp add: same_peer_def)

lemma same_peer_trans: "same_peer a b \<Longrightarrow> same_peer b c \<Longrightarrow> same_peer a c"
  by (auto simp: same_peer_def sends_more_def)

lemma length_extend_crypto [simp]: "length (extend_crypto out p) = length p"
  by (induction out p rule: extend_crypto.induct) auto

lemma length_store_crypto [simp]: "length (store_crypto out p) = length p"
  by (induction out p rule: store_crypto.induct) auto

lemma write_hs_conn: "write_hs pf c = (buf, kc, c') \<Longrightarrow> \<exists>t. c' = c\<lparr>tls := t\<rparr>"
  by (auto simp: write_hs_def split: prod.splits)

lemma get_space_simps [simp]:
  "get_space i (c\<lparr>tls := t\<rparr>) = get_space i c"
  "get_space i (c\<lparr>state := s\<rparr>) = get_space i c"
  "get_space i (c\<lparr>pending_crypto := p\<rparr>) = get_space i c"
  "get_space i (c\<lparr>crypto_recv_offset := r\<rparr>) = get_space i c"
  "get_space i (c\<lparr>close_reason := e\<rparr>) = get_space i c"
  "get_space i (c\<lparr>received_app_data := d\<rparr>) = get_space i c"
  "get_space i (c\<lparr>pending_app_data := d\<rparr>) = get_space i c"
  "get_space i (c\<lparr>stream_send_offset := n\<rparr>) = get_space i c"
  by (cases i; simp add: get_space_def)+

lemma get_space_mut: "get_space j (space_mut i f c) = (if i = j then f (get_space i c) else get_space j c)"
  by (cases i; cases j) (simp_all add: get_space_def space_mut_def)

lemma get_space_set:
  "get_space j (c\<lparr>handshake_space := s\<rparr>) = (if j = HandshakeSpace then s else get_space j c)"
  "get_space j (c\<lparr>appdata_space := s\<rparr>) = (if j = ApplicationData then s else get_space j c)"
  "get_space j (c\<lparr>initial_space := s\<rparr>) = (if j = InitialSpace then s else get_space j c)"
  by (cases j; simp add: get_space_def)+

lemma get_space_eqs:
  "get_space InitialSpace c = initial_space c" "get_space HandshakeSpace c = handshake_space c"
  "get_space ApplicationData c = appdata_space c"
  by (simp_all add: get_space_def)

lemma sends_more_ops [simp]:
  "sends_more s (set_keys k s)" "sends_more s (record_recv_pn now pn s)"
  "sends_more s (snd (take_pending_acks s))" "sends_more s (snd (next_send_pn s))"
  by (simp_all add: sends_more_def space_defs)

lemma space_mut_fields [simp]:
  "side (space_mut i f c) = side c" "state (space_mut i f c) = state c" "tls (space_mut i f c) = tls c"
  "version (space_mut i f c) = version c" "dst_cid (space_mut i f c) = dst_cid c"
  "src_cid (space_mut i f c) = src_cid c" "pending_crypto (space_mut i f c) = pending_crypto c"
  "crypto_recv_offset (space_mut i f c) = crypto_recv_offset c"
  "pending_app_data (space_mut i f c) = pending_app_data c"
  "received_app_data (space_mut i f c) = received_app_data c"
  "stream_send_offset (space_mut i f c) = stream_send_offset c"
  "close_reason (space_mut i f c) = close_reason c"
  by (cases i; simp add: space_mut_def)+

lemma same_peer_mut: "sends_more (get_space i c) (f (get_space i c)) \<Longrightarrow> same_peer c (space_mut i f c)"
  by (auto simp: same_peer_def get_space_mut)

text \<open>
  A relation between states that holds across the pieces of \<open>handle_crypto_output\<close> holds across the
  whole, and so does one that holds across the pieces of a frame. \<open>K\<close> is what may be assumed of the
  keys that TLS hands out.
\<close>

definition tls_keys :: "(quic_keys \<Rightarrow> bool) \<Rightarrow> ('t, 'c) platform \<Rightarrow> bool" where
  "tls_keys K pf \<longleftrightarrow> (\<forall>t b k t'. tls_write_hs pf t = (b, Some (HandshakeKeys k), t') \<or>
     tls_write_hs pf t = (b, Some (OneRttKeys k), t') \<longrightarrow> K k)"

lemma tls_keys_True [simp]: "tls_keys (\<lambda>_. True) pf"
  by (simp add: tls_keys_def)

lemma write_hs_keys:
  "write_hs pf c = (buf, kc, c') \<Longrightarrow> process_tls_output (Some (buf, kc)) lvl = (out, Some k) \<Longrightarrow>
     tls_keys K pf \<Longrightarrow> K k"
  by (auto simp: write_hs_def process_tls_output_def tls_keys_def split: prod.splits option.splits key_change.splits)

lemma more_output_rel:
  assumes trans: "\<And>a b c. R a b \<Longrightarrow> R b c \<Longrightarrow> R a c" and K: "tls_keys K pf"
    and R: "\<And>c. R c c" "\<And>c t. R c (c\<lparr>tls := t\<rparr>)"
      "\<And>c out. R c (c\<lparr>pending_crypto := extend_crypto out (pending_crypto c)\<rparr>)"
      "\<And>k c. K k \<Longrightarrow> R c (install k c)"
  shows "R c (more_output pf lvl install c)"
proof -
  obtain buf kc t where w: "write_hs pf c = (buf, kc, c\<lparr>tls := t\<rparr>)"
    by (metis prod_cases3 write_hs_conn)
  obtain out ks where p: "process_tls_output (Some (buf, kc)) lvl = (out, ks)" by fastforce
  let ?d = "(c\<lparr>tls := t\<rparr>)\<lparr>pending_crypto := extend_crypto out (pending_crypto (c\<lparr>tls := t\<rparr>))\<rparr>"
  have 1: "R c (c\<lparr>tls := t\<rparr>)" by (rule R)
  have 2: "R c ?d" by (rule trans [OF 1 R(3)])
  have 3: "R c (install k ?d)" if "ks = Some k" for k
    by (rule trans [OF 2 R(4) [OF write_hs_keys [OF w p [unfolded that] K]]])
  from 1 2 3 show ?thesis
    unfolding more_output_def w p prod.case Let_def
    by (cases "buf \<noteq> [] \<or> kc \<noteq> None"; cases ks) (simp_all only: if_True if_False option.case)
qed

lemma handle_crypto_output_rel:
  assumes trans: "\<And>a b c. R a b \<Longrightarrow> R b c \<Longrightarrow> R a c"
    and K: "tls_keys K pf" "\<And>k. ks = Some k \<Longrightarrow> K k"
    and R: "\<And>c. R c c" "\<And>c t. R c (c\<lparr>tls := t\<rparr>)"
      "\<And>c out. R c (c\<lparr>pending_crypto := extend_crypto out (pending_crypto c)\<rparr>)"
    and I: "\<And>k c. K k \<Longrightarrow> R c (install_handshake k c)" "\<And>k c. K k \<Longrightarrow> R c (install_one_rtt k c)"
      "\<And>k c. K k \<Longrightarrow> R c (replace_one_rtt k c)"
  shows "R c (handle_crypto_output pf out ks level c)"
proof -
  let ?c = "c\<lparr>pending_crypto := extend_crypto out (pending_crypto c)\<rparr>"
  have m: "R x (more_output pf 1 install_one_rtt x)" "R x (more_output pf 2 replace_one_rtt x)" for x
    by (rule more_output_rel [where R = R and K = K]; (rule R K(1) | erule I | erule (1) trans))+
  have 1: "R c ?c" by (rule R)
  have "R c (more_output pf 1 install_one_rtt (install_handshake k ?c))" if "ks = Some k" for k
    by (rule trans [OF trans [OF 1 I(1) [OF K(2) [OF that]]] m(1)])
  moreover have "R c (more_output pf 2 replace_one_rtt (install_one_rtt k ?c))" if "ks = Some k" for k
    by (rule trans [OF trans [OF 1 I(2) [OF K(2) [OF that]]] m(2)])
  ultimately show ?thesis
    using 1 unfolding handle_crypto_output_def Let_def
    by (cases ks) (simp_all split: if_splits)
qed

lemma process_crypto_rel:
  assumes trans: "\<And>a b c. R a b \<Longrightarrow> R b c \<Longrightarrow> R a c" and K: "tls_keys K pf"
    and R: "\<And>c. R c c" "\<And>c t. R c (c\<lparr>tls := t\<rparr>)"
      "\<And>c out. R c (c\<lparr>pending_crypto := extend_crypto out (pending_crypto c)\<rparr>)"
    and I: "\<And>k c. K k \<Longrightarrow> R c (install_handshake k c)" "\<And>k c. K k \<Longrightarrow> R c (install_one_rtt k c)"
      "\<And>k c. K k \<Longrightarrow> R c (replace_one_rtt k c)"
    and F: "\<And>c l x. R c (c\<lparr>crypto_recv_offset := (crypto_recv_offset c)[l := x]\<rparr>)"
  shows "R c (snd (process_crypto pf level offset data c))"
proof (cases "offset = crypto_recv_offset c ! level")
  case False
  then show ?thesis by (simp add: process_crypto_def R)
next
  case True
  obtain r t where t: "read_hs pf data (tls c) = (r, t)" by fastforce
  show ?thesis
  proof (cases r)
    case (Inl e)
    with True t show ?thesis by (simp add: process_crypto_def R)
  next
    case (Inr u)
    obtain buf kc t' where w: "write_hs pf (c\<lparr>tls := t\<rparr>) = (buf, kc, (c\<lparr>tls := t\<rparr>)\<lparr>tls := t'\<rparr>)"
      by (metis prod_cases3 write_hs_conn)
    obtain out ks where p: "process_tls_output (Some (buf, kc)) level = (out, ks)" by fastforce
    let ?d = "handle_crypto_output pf out ks level ((c\<lparr>tls := t\<rparr>)\<lparr>tls := t'\<rparr>)"
    have new: "K k" if "ks = Some k" for k
      by (rule write_hs_keys [OF w p [unfolded that] K])
    have "R x (handle_crypto_output pf out ks level x)" for x
      by (rule handle_crypto_output_rel [where R = R and K = K]; (rule R K | erule new I | erule (1) trans))
    then have h: "R c ?d"
      by (rule trans [OF trans [OF R(2) R(2)]])
    have "snd (process_crypto pf level offset data c) =
        ?d\<lparr>crypto_recv_offset := (crypto_recv_offset ?d)[level := crypto_recv_offset ?d ! level + of_nat
            (length data)]\<rparr>"
      using True Inr unfolding process_crypto_def Let_def t w p prod.case by simp
    then show ?thesis using trans [OF h F] by simp
  qed
qed

lemma process_frame_rel:
  assumes trans: "\<And>a b c. R a b \<Longrightarrow> R b c \<Longrightarrow> R a c" and K: "tls_keys K pf"
    and R: "\<And>c. R c c" "\<And>c t. R c (c\<lparr>tls := t\<rparr>)"
      "\<And>c out. R c (c\<lparr>pending_crypto := extend_crypto out (pending_crypto c)\<rparr>)"
    and I: "\<And>k c. K k \<Longrightarrow> R c (install_handshake k c)" "\<And>k c. K k \<Longrightarrow> R c (install_one_rtt k c)"
      "\<And>k c. K k \<Longrightarrow> R c (replace_one_rtt k c)"
    and F: "\<And>c l x. R c (c\<lparr>crypto_recv_offset := (crypto_recv_offset c)[l := x]\<rparr>)"
      "\<And>c e. R c (c\<lparr>state := Closed, close_reason := e\<rparr>)" "\<And>c. R c (c\<lparr>state := Established\<rparr>)"
      "\<And>c d. R c (c\<lparr>received_app_data := received_app_data c @ d\<rparr>)"
  shows "R c (snd (process_frame pf level f c))"
proof (cases f)
  case (Crypto offset data)
  have "R c (snd (process_crypto pf level offset data c))"
    by (rule process_crypto_rel [where R = R and K = K]; (rule R K F | erule I | erule (1) trans))
  then show ?thesis by (simp add: Crypto process_frame_def R)
qed (simp_all add: process_frame_def R F)

lemma process_frames_rel:
  assumes "\<And>a b c. R a b \<Longrightarrow> R b c \<Longrightarrow> R a c" and "\<And>c. R c c"
    and "\<And>f c. R c (snd (process_frame pf level f c))"
  shows "R c (snd (process_frames_at pf level fs c))"
proof (induction fs arbitrary: c)
  case (Cons f fs)
  obtain r d where d: "process_frame pf level f c = (r, d)" by fastforce
  have "R c d" using assms(3) [of c f] d by simp
  then show ?case
    using Cons [of d] assms(1) d by (cases r) (auto simp: seqA_def)
qed (simp add: assms(2))


section \<open>Egest, piece by piece\<close>

text \<open>The state behind \<open>collect_frames\<close>: four updates, each only where its condition holds.\<close>

definition take_crypto_acks :: "packet_number_space \<Rightarrow> 't conn \<Rightarrow> 't conn" where
  "take_crypto_acks i c = space_mut i (\<lambda>s. snd (take_pending_acks s))
     (c\<lparr>pending_crypto := (pending_crypto c)[pn_space_to_level i := []]\<rparr>)"

definition crypto_part :: "packet_number_space \<Rightarrow> 't conn \<Rightarrow> frame list" where
  "crypto_part i c = (let d = pending_crypto c ! pn_space_to_level i in if d \<noteq> [] then [Crypto 0 d] else [])"

definition ack_part :: "packet_number_space \<Rightarrow> 't conn \<Rightarrow> frame list" where
  "ack_part i c = (let a = sp_pending_acks (get_space i c) in if a \<noteq> [] then [ack_frame a] else [])"

definition done_part :: "packet_number_space \<Rightarrow> conn_state \<Rightarrow> 't conn \<Rightarrow> frame list" where
  "done_part i st c =
     (if i = ApplicationData \<and> side c = Server \<and> st = Handshaking then [HandshakeDone] else [])"

definition stream_part :: "packet_number_space \<Rightarrow> conn_state \<Rightarrow> 't conn \<Rightarrow> frame list" where
  "stream_part i st c =
     (if i = ApplicationData \<and> st = Established \<and> pending_app_data c \<noteq> []
      then [Stream 0 (stream_send_offset c) (pending_app_data c) False] else [])"

definition collected :: "packet_number_space \<Rightarrow> conn_state \<Rightarrow> 't conn \<Rightarrow> 't conn" where
  "collected i st c =
     (let c1 = take_crypto_acks i c;
          c2 = (if done_part i st c \<noteq> [] then c1\<lparr>state := Established\<rparr> else c1) in
      if stream_part i st c \<noteq> []
      then c2\<lparr>pending_app_data := [],
             stream_send_offset := stream_send_offset c + of_nat (length (pending_app_data c))\<rparr>
      else c2)"

lemma collect_frames_eq:
  "collect_frames i st c =
     (crypto_part i c @ ack_part i c @ done_part i st c @ stream_part i st c, collected i st c)"
  by (simp add: collect_frames_def Let_def crypto_part_def ack_part_def done_part_def stream_part_def
      collected_def take_crypto_acks_def take_pending_acks_def)

lemma take_crypto_acks_fields [simp]:
  "side (take_crypto_acks i c) = side c" "state (take_crypto_acks i c) = state c"
  "version (take_crypto_acks i c) = version c" "dst_cid (take_crypto_acks i c) = dst_cid c"
  "src_cid (take_crypto_acks i c) = src_cid c" "tls (take_crypto_acks i c) = tls c"
  "pending_crypto (take_crypto_acks i c) = (pending_crypto c)[pn_space_to_level i := []]"
  "crypto_recv_offset (take_crypto_acks i c) = crypto_recv_offset c"
  "pending_app_data (take_crypto_acks i c) = pending_app_data c"
  "received_app_data (take_crypto_acks i c) = received_app_data c"
  "stream_send_offset (take_crypto_acks i c) = stream_send_offset c"
  "close_reason (take_crypto_acks i c) = close_reason c"
  by (simp_all add: take_crypto_acks_def)

lemma get_take_crypto_acks:
  "get_space j (take_crypto_acks i c) =
     (if i = j then snd (take_pending_acks (get_space i c)) else get_space j c)"
  by (simp add: take_crypto_acks_def get_space_mut)

lemma collected_fields [simp]:
  "side (collected i st c) = side c" "version (collected i st c) = version c"
  "dst_cid (collected i st c) = dst_cid c" "src_cid (collected i st c) = src_cid c"
  "pending_crypto (collected i st c) = (pending_crypto c)[pn_space_to_level i := []]"
  "crypto_recv_offset (collected i st c) = crypto_recv_offset c"
  "received_app_data (collected i st c) = received_app_data c"
  "tls (collected i st c) = tls c"  "close_reason (collected i st c) = close_reason c"
  "state (collected i st c) = (if done_part i st c \<noteq> [] then Established else state c)"
  "pending_app_data (collected i st c) = (if stream_part i st c \<noteq> [] then [] else pending_app_data c)"
  "stream_send_offset (collected i st c) =
     (if stream_part i st c \<noteq> [] then stream_send_offset c + of_nat (length (pending_app_data c))
      else stream_send_offset c)"
  by (simp_all add: collected_def Let_def)

lemma get_collected:
  "get_space j (collected i st c) =
     (if i = j then snd (take_pending_acks (get_space i c)) else get_space j c)"
  by (simp add: collected_def Let_def get_take_crypto_acks)

definition space_frames :: "packet_number_space \<Rightarrow> conn_state \<Rightarrow> 't conn \<Rightarrow> frame list" where
  "space_frames i st c = crypto_part i c @ ack_part i c @ done_part i st c @ stream_part i st c"

text \<open>The state a turn leaves when it has something to send.\<close>

definition sent :: "packet_number_space \<Rightarrow> conn_state \<Rightarrow> 't conn \<Rightarrow> 't conn" where
  "sent i st c = space_mut i (\<lambda>s. snd (next_send_pn s)) (collected i st c)"

text \<open>A turn without frames leaves the state it found.\<close>

lemma collected_idle: "space_frames i st c = [] \<Longrightarrow> length (pending_crypto c) = 3 \<Longrightarrow> collected i st c = c"
proof -
  assume f: "space_frames i st c = []" and l: "length (pending_crypto c) = 3"
  then have p: "pending_crypto c ! pn_space_to_level i = []" and a: "sp_pending_acks (get_space i c) = []"
    and d: "done_part i st c = []" "stream_part i st c = []"
    by (auto simp: space_frames_def crypto_part_def ack_part_def Let_def split: if_splits)
  have "(pending_crypto c)[pn_space_to_level i := []] = pending_crypto c"
    using p by (metis list_update_id)
  moreover have "snd (take_pending_acks (get_space i c)) = get_space i c"
    using a by (simp add: take_pending_acks_def)
  ultimately have "take_crypto_acks i c = c"
    by (cases i) (simp_all add: take_crypto_acks_def space_mut_def get_space_def)
  with d show ?thesis by (simp add: collected_def)
qed

lemma egest_space_eq:
  "egest_space i st c =
     (if \<not> has_keys (get_space i c) then (Ok None, c)
      else if space_frames i st c = [] then (Ok None, collected i st c)
      else
        let pn = sp_next_send_pn (get_space i c) in
        (andthen (encrypt_packet (get_space i (sent i st c)) i (version c) (dst_cid c) (src_cid c)
           (space_frames i st c) pn (encoded_pn_len pn) (st = Established)) (\<lambda>p. Ok (Some p)),
         sent i st c))"
proof -
  have "fst (next_send_pn (get_space i (collected i st c))) = sp_next_send_pn (get_space i c)"
    by (simp add: get_collected next_send_pn_def take_pending_acks_def Let_def)
  then show ?thesis
    by (simp add: egest_space_def collect_frames_eq space_frames_def [symmetric] sent_def Let_def)
qed

lemma sent_fields [simp]:
  "side (sent i st c) = side c" "version (sent i st c) = version c"
  "dst_cid (sent i st c) = dst_cid c" "src_cid (sent i st c) = src_cid c"
  "length (pending_crypto (sent i st c)) = length (pending_crypto c)"
  "crypto_recv_offset (sent i st c) = crypto_recv_offset c"
  "received_app_data (sent i st c) = received_app_data c"
  "state (sent i st c) = (if done_part i st c \<noteq> [] then Established else state c)"
  by (simp_all add: sent_def)

lemma get_sent:
  "get_space j (sent i st c) =
     (if i = j then snd (next_send_pn (snd (take_pending_acks (get_space i c)))) else get_space j c)"
  by (simp add: sent_def get_space_mut get_collected)


section \<open>Relations kept by a whole call\<close>

lemma ingest_rel:
  assumes trans: "\<And>a b c. R a b \<Longrightarrow> R b c \<Longrightarrow> R a c" and refl: "\<And>c. R c c"
    and rec: "\<And>i c pn. R c (space_mut i (record_recv_pn now pn) c)"
    and f: "\<And>f l c. R c (snd (process_frame pf l f c))"
  shows "R c (snd (ingest pf now buf c))"
proof -
  have p: "R c (snd (process_frames_at pf l fs c))" for l fs c
    by (rule process_frames_rel [where R = R]; (rule refl f | erule (1) trans))
  show ?thesis
  proof (cases "state c = Closed \<or> buf = []")
    case True
    then show ?thesis by (auto simp: ingest_def refl)
  next
    case False
    show ?thesis
    proof (cases "ingest_packet buf c")
      case (Inl e)
      with False show ?thesis by (simp add: ingest_def refl)
    next
      case (Inr x)
      obtain i pn fs where x: "x = (i, pn, fs)" by (cases x)
      let ?c = "space_mut i (record_recv_pn now pn) c"
      obtain r d where d: "process_frames_at pf (pn_space_to_level i) fs ?c = (r, d)" by fastforce
      have "snd (ingest pf now buf c) = d"
        using False Inr x d by (cases r) (simp_all add: ingest_def seqA_def process_frames_def)
      moreover have "R ?c d" using p [of ?c "pn_space_to_level i" fs] d by simp
      ultimately show ?thesis using trans [OF rec] by simp
    qed
  qed
qed

lemma egest_spaces_rel:
  assumes trans: "\<And>a b c. R a b \<Longrightarrow> R b c \<Longrightarrow> R a c" and refl: "\<And>c. R c c"
    and t: "\<And>i c. i \<in> set is \<Longrightarrow> R c (snd (egest_space i st c))"
  shows "R c (snd (egest_spaces is st c))"
  using t
proof (induction "is" arbitrary: c)
  case (Cons i "is")
  obtain r d where d: "egest_space i st c = (r, d)" by fastforce
  have 1: "R c d" using Cons.prems [of i c] d by simp
  have 2: "R d (snd (egest_spaces is st d))" using Cons by simp
  show ?case
    using d 1 trans [OF 1 2] by (cases r) (auto simp: seqA_def split: option.split)
qed (simp add: refl)

lemma snd_egest:
  "snd (egest cap c) =
     (if state c = Closed then c
      else snd (egest_spaces [InitialSpace, HandshakeSpace, ApplicationData] (state c) c))"
  by (auto simp: egest_def seqA_def split: prod.split sum.split option.split)

lemma install_same_peer: "same_peer c (install_handshake k c)" "same_peer c (install_one_rtt k c)"
  "same_peer c (replace_one_rtt k c)"
  by (simp_all add: install_handshake_def install_one_rtt_def replace_one_rtt_def same_peer_def
      get_space_set get_space_eqs)

lemma process_frame_same_peer: "same_peer c (snd (process_frame pf level f c))"
  by (rule process_frame_rel [where R = same_peer and K =
      "\<lambda>_. True"]; (rule install_same_peer tls_keys_True | erule (1) same_peer_trans)?)
    (simp_all add: same_peer_def)

lemma ingest_same_peer: "same_peer c (snd (ingest pf now buf c))"
  by (rule ingest_rel [where R = same_peer];
      (rule same_peer_refl process_frame_same_peer | erule (1) same_peer_trans)?)
    (simp add: same_peer_mut)

lemma egest_space_same_peer: "same_peer c (snd (egest_space i st c))"
proof -
  have "sends_more s (snd (next_send_pn (snd (take_pending_acks s))))" for s
    by (simp add: sends_more_def space_defs)
  then have "same_peer c (sent i st c)" "same_peer c (collected i st c)"
    by (simp_all add: same_peer_def get_sent get_collected)
  then show ?thesis by (simp add: egest_space_eq Let_def)
qed

lemma egest_same_peer: "same_peer c (snd (egest cap c))"
proof -
  have "same_peer c (snd (egest_spaces is (state c) c))" for "is"
    by (rule egest_spaces_rel [where R = same_peer];
        (rule same_peer_refl egest_space_same_peer | erule (1) same_peer_trans))
  then show ?thesis by (simp add: snd_egest del: egest_spaces.simps)
qed

section \<open>Runs of a connection\<close>

text \<open>The calls of the owner of a connection: a datagram with the time it arrived, a buffer to send from, and application data.\<close>

datatype call = Ingest nat bytes | Egest nat | SendData bytes | RecvData nat

fun after_call :: "('t, 'c) platform \<Rightarrow> call \<Rightarrow> 't conn \<Rightarrow> 't conn" where
  "after_call pf (Ingest now buf) c = snd (ingest pf now buf c)"
| "after_call pf (Egest cap) c = snd (egest cap c)"
| "after_call pf (SendData d) c = send_data d c"
| "after_call pf (RecvData cap) c = snd (recv_data cap c)"

inductive reachable :: "('t, 'c) platform \<Rightarrow> 't conn \<Rightarrow> bool" for pf where
  connected: "connect pf name = Ok (c, packet) \<Longrightarrow> reachable pf c"
| accepted: "accept pf now packet cfg = Ok c \<Longrightarrow> reachable pf c"
| called: "reachable pf c \<Longrightarrow> reachable pf (after_call pf k c)"

lemma call_same_peer: "same_peer c (after_call pf k c)"
proof (cases k)
  case (Ingest now buf)
  then show ?thesis by (simp add: ingest_same_peer)
next
  case (Egest cap)
  then show ?thesis by (simp add: egest_same_peer)
qed (simp_all add: same_peer_def send_data_def recv_data_def Let_def)

text \<open>Moves of the state during one call.\<close>

definition moves_on :: "'t conn \<Rightarrow> 't conn \<Rightarrow> bool" where
  "moves_on c c' \<longleftrightarrow> state c' = state c \<or> state c' \<in> {Established, Closed}"

lemma moves_on_trans: "moves_on a b \<Longrightarrow> moves_on b c \<Longrightarrow> moves_on a c"
  by (auto simp: moves_on_def)

lemma moves_on_refl [simp]: "moves_on c c"
  by (simp add: moves_on_def)

lemma process_frame_moves: "moves_on c (snd (process_frame pf level f c))"
  by (rule process_frame_rel [where R = moves_on and K = "\<lambda>_. True"]; (rule tls_keys_True | erule (1) moves_on_trans)?)
    (auto simp: moves_on_def install_handshake_def install_one_rtt_def replace_one_rtt_def)

lemma ingest_moves: "moves_on c (snd (ingest pf now buf c))"
  by (rule ingest_rel [where R = moves_on];
      (rule moves_on_refl process_frame_moves | erule (1) moves_on_trans)?)
    (simp add: moves_on_def)

lemma egest_space_moves: "state (snd (egest_space i st c)) \<in> {state c, Established}"
  by (simp add: egest_space_eq Let_def)

lemma egest_moves: "state (snd (egest cap c)) \<in> {state c, Established} \<and>
    (state c = Closed \<longrightarrow> state (snd (egest cap c)) = Closed)"
proof -
  have "state (snd (egest_spaces is st c)) \<in> {state c, Established}" for "is" st
    by (rule egest_spaces_rel [where R = "\<lambda>a b. state b \<in> {state a, Established}"]; (rule egest_space_moves)?) auto
  then show ?thesis by (simp add: snd_egest del: egest_spaces.simps)
qed

definition conn_ok :: "'t conn \<Rightarrow> bool" where
  "conn_ok c \<longleftrightarrow>
     length (pending_crypto c) = 3 \<and> length (crypto_recv_offset c) = 3 \<and>
     (\<forall>i. sp_id (get_space i c) = i) \<and> has_keys (initial_space c) \<and>
     (state c = Connecting \<longrightarrow> side c = Client) \<and> (state c = Handshaking \<longrightarrow> side c = Server)"

lemma connect_okD:
  assumes "connect pf name = Ok (c, packet)"
  obtains t0 ch kc t dcid scid k where "client_new pf SkipVerify name = Inr t0"
    and "tls_write_hs pf t0 = (ch, kc, t)" and "random_bytes pf 0 8 = (Ok dcid :: (bytes, connection_error) result)"
    and "random_bytes pf 1 8 = (Ok scid :: (bytes, connection_error) result)"
    and "client_initial_keys (pf_provider pf) dcid = Ok k"
    and "build_initial_packet k dcid scid ch = Ok packet"
    and "c = \<lparr>side = Client, state = Connecting, tls = t, version = VERSION_1,
             dst_cid = dcid, src_cid = scid,
             initial_space = snd (next_send_pn (set_keys k (space_new InitialSpace))),
             handshake_space = space_new HandshakeSpace, appdata_space = space_new ApplicationData,
             pending_crypto = [[], [], []], crypto_recv_offset = [0, 0, 0],
             pending_app_data = [], received_app_data = [], stream_send_offset = 0,
             close_reason = None\<rparr>"
  using assms
  by (auto simp: connect_def Let_def result_dest tls_result_def split: if_splits sum.splits prod.splits)

lemma connect_ok: "connect pf name = Ok (c, packet) \<Longrightarrow> conn_ok c \<and> side c = Client \<and> state c = Connecting"
  by (erule connect_okD) (auto simp: conn_ok_def space_defs space_new_def get_space_def split:
      packet_number_space.split)

lemma accept_okD:
  assumes "accept pf now packet cfg = Ok c"
  obtains hdr n k fs pn t0 t where "parse_long_header packet = Ok (hdr, n)"
    and "server_initial_keys (pf_provider pf) (cid_bytes (lh_dst_cid hdr)) = Ok k"
    and "decrypt_initial packet hdr k = Ok (fs, pn)" and "server_new pf cfg = Inr t0"
    and "read_hs pf (client_hello_of fs) t0 = (Ok (), t)"
    and "c = accepted_conn pf now hdr k (client_hello_of fs) t"
proof -
  from assms obtain hdr n k fs pn t0 where
    h: "parse_long_header packet = Ok (hdr, n)"
      "server_initial_keys (pf_provider pf) (cid_bytes (lh_dst_cid hdr)) = Ok k"
      "decrypt_initial packet hdr k = Ok (fs, pn)" "server_new pf cfg = Inr t0"
    and c: "(case read_hs pf (client_hello_of fs) t0 of (r, t) \<Rightarrow>
        andthen (map_err Tls r) (\<lambda>_. Ok (accepted_conn pf now hdr k (client_hello_of fs) t))) = Ok c"
    by (auto simp: accept_def Let_def result_dest tls_result_def split: sum.splits)
  obtain r t where r: "read_hs pf (client_hello_of fs) t0 = (r, t)" by fastforce
  with c have "r = Ok ()" "c = accepted_conn pf now hdr k (client_hello_of fs) t"
    by (auto simp: result_dest)
  with h r that show thesis by blast
qed

lemma accept_handshake_output_app:
  "accept_handshake_output pf t p app = (t', p', app') \<Longrightarrow>
     length p' = length p \<and> (app' = app \<or> (\<exists>k. app' = set_keys k app))"
  by (auto simp: accept_handshake_output_def process_tls_output_def
      split: prod.splits if_splits option.splits key_change.splits)

lemma accepted_conn_fields:
  fixes pf :: "('t, 'c) platform" and t :: 't and ch :: bytes and k hdr now
  defines "c \<equiv> accepted_conn pf now hdr k ch t"
  shows "side c = Server" "state c = Handshaking" "version c = lh_version hdr"
    "dst_cid c = cid_bytes (lh_src_cid hdr)" "src_cid c = cid_bytes (lh_dst_cid hdr)"
    "initial_space c = record_recv_pn now 0 (set_keys k (space_new InitialSpace))"
    "crypto_recv_offset c = [of_nat (length ch), 0, 0]" "length (pending_crypto c) = 3"
    "pending_app_data c = []" "received_app_data c = []" "stream_send_offset c = 0"
    "\<forall>i. sp_id (get_space i c) = i \<and> sp_next_send_pn (get_space i c) = 0"
proof -
  obtain buf kc m where w: "tls_write_hs pf t = (buf, kc, m)" by (metis prod_cases3)
  obtain out ks where p: "process_tls_output (Some (buf, kc)) 0 = (out, ks)" by fastforce
  obtain m' pend app where a: "accept_handshake_output pf m (store_crypto out [[], [], []])
      (space_new ApplicationData) = (m', pend, app)"
    by (metis prod_cases3)
  note app = accept_handshake_output_app [OF a]
  show "side c = Server" "state c = Handshaking" "version c = lh_version hdr"
    "dst_cid c = cid_bytes (lh_src_cid hdr)" "src_cid c = cid_bytes (lh_dst_cid hdr)"
    "initial_space c = record_recv_pn now 0 (set_keys k (space_new InitialSpace))"
    "crypto_recv_offset c = [of_nat (length ch), 0, 0]" "length (pending_crypto c) = 3"
    "pending_app_data c = []" "received_app_data c = []" "stream_send_offset c = 0"
    unfolding c_def accepted_conn_def w p prod.case Let_def a
    using app by (cases ks; simp)+
  have "sp_id (handshake_space c) = HandshakeSpace" "sp_next_send_pn (handshake_space c) = 0"
    "sp_id (appdata_space c) = ApplicationData" "sp_next_send_pn (appdata_space c) = 0"
    "sp_id (initial_space c) = InitialSpace" "sp_next_send_pn (initial_space c) = 0"
    unfolding c_def accepted_conn_def w p prod.case Let_def a
    using app by (cases ks; auto simp: space_new_def set_keys_def record_recv_pn_def Let_def)+
  then show "\<forall>i. sp_id (get_space i c) = i \<and> sp_next_send_pn (get_space i c) = 0"
    by (simp add: get_space_def split: packet_number_space.split)
qed

lemma accept_ok:
  assumes "accept pf now packet cfg = Ok c"
  shows "conn_ok c \<and> side c = Server \<and> state c = Handshaking"
  using assms
  by (rule accept_okD)
    (simp add: conn_ok_def accepted_conn_fields has_keys_def set_keys_def record_recv_pn_def Let_def)

lemma call_moves: "moves_on c (after_call pf k c)"
proof (cases k)
  case (Egest cap)
  then show ?thesis using egest_moves [of cap c] by (auto simp: moves_on_def)
qed (simp_all add: ingest_moves, simp_all add: moves_on_def send_data_def recv_data_def Let_def)

lemma conn_ok_call:
  assumes "conn_ok c"
  shows "conn_ok (after_call pf k c)"
proof -
  have "moves_on c (after_call pf k c)" by (rule call_moves)
  with assms call_same_peer [of c pf k] show ?thesis
    unfolding conn_ok_def same_peer_def sends_more_def moves_on_def
    by (metis get_space_eqs(1) conn_state.distinct(3,5,7,9) insertE singletonD)
qed

lemma reachable_ok: "reachable pf c \<Longrightarrow> conn_ok c"
  by (induction rule: reachable.induct) (simp_all add: connect_ok accept_ok conn_ok_call)

end
