(* ===== verification/Connection_Runs.thy ===== *)
theory Connection_Runs
  imports Connection_Proofs
begin

text \<open>
  Lemmas about whole calls of a connection and about sequences of them: what an ingested packet does
  and that it was authenticated, what an ACK frame acknowledges, \<open>egest\<close> as a whole, the packet numbers
  of a run, delivery of application data and of the first flight from one connection to another, and
  a concrete platform and connection on which the theorems of \<open>Connection_Props\<close> are evaluated.
\<close>

section \<open>Authenticated input\<close>

text \<open>
  \<open>processed\<close>: what \<open>ingest\<close> does with a packet that it could open, in space \<open>i\<close>, number \<open>pn\<close>, with the
  frames \<open>fs\<close>.
\<close>

definition processed ::
  "('t, 'c) platform \<Rightarrow> nat \<Rightarrow> packet_number_space \<Rightarrow> u64 \<Rightarrow> frame list \<Rightarrow> 't conn \<Rightarrow> 't conn" where
  "processed pf now i pn fs c = snd (process_frames pf fs i (space_mut i (record_recv_pn now pn) c))"

definition conn_keys_typed :: "'t conn \<Rightarrow> bool" where
  "conn_keys_typed c \<longleftrightarrow> (\<forall>i k. remote_keys (get_space i c) = Some k \<longrightarrow> keys_typed k)"

lemma ingest_packet_authenticated:
  assumes k: "conn_keys_typed c" and ok: "ingest_packet buf c = Ok (i, pn, fs)"
  shows "\<exists>k plaintext. remote_keys (get_space i c) = Some k \<and> authenticated k buf pn plaintext \<and>
     parse_frames plaintext = Ok fs"
proof -
  have long: "\<exists>k plaintext. remote_keys s = Some k \<and> authenticated k buf pn plaintext \<and> parse_frames plaintext = Ok fs"
    if d: "decrypt_and_parse_long s buf off = Ok (pn, fs)" "0 < off" "s = get_space j c" for s off j
  proof -
    obtain k where r: "remote_keys s = Some k" and e: "decrypt_and_parse_long_inner buf off k = Ok (pn, fs)"
      using d(1) by (auto simp: decrypt_and_parse_long_def result_dest)
    have "keys_typed k" using k r d(3) by (auto simp: conn_keys_typed_def)
    from decrypt_long_opened [OF this d(2), of buf] r e show ?thesis
      by (auto simp: opened_def split: if_splits)
  qed
  have short: "\<exists>k plaintext. remote_keys s = Some k \<and> authenticated k buf pn plaintext \<and> parse_frames plaintext = Ok fs"
    if d: "decrypt_and_parse s buf off = Ok (pn, fs)" "0 < off" "s = get_space j c" for s off j
  proof -
    obtain k where r: "remote_keys s = Some k"
      using d(1) by (auto simp: decrypt_and_parse_def result_dest)
    have "keys_typed k" using k r d(3) by (auto simp: conn_keys_typed_def)
    from decrypt_short_opened [OF r this d(2), of buf] r d show ?thesis
      by (auto simp: opened_def split: if_splits)
  qed
  have off: "0 < hdr_pn_offset_long h" "0 < hdr_pn_offset_short h'" for h h'
    by (simp_all add: hdr_pn_offset_long_def hdr_pn_offset_short_def Let_def)
  from ok show ?thesis
    unfolding ingest_packet_def Let_def
    by (auto simp: result_dest get_space_eqs(3) [symmetric] split: if_splits option.splits
        dest!: long [OF _ off(1) refl] short [OF _ off(2) refl]) blast
qed

lemma ingest_changes:
  assumes "ingest pf now buf c = (r, c')" and "c' \<noteq> c"
  obtains i pn fs where "ingest_packet buf c = Ok (i, pn, fs)" and "c' = processed pf now i pn fs c"
proof -
  from assms have n: "state c \<noteq> Closed" "buf \<noteq> []" by (auto simp: ingest_def split: if_splits)
  with assms obtain i pn fs where p: "ingest_packet buf c = Ok (i, pn, fs)"
    by (cases "ingest_packet buf c") (auto simp: ingest_def)
  have "c' = processed pf now i pn fs c"
    using assms(1) n p by (auto simp: ingest_def processed_def seqA_def split: prod.splits sum.splits)
  with p that show thesis by blast
qed

text \<open>
  How the frames \<open>F\<close> of a packet may move the state: a CONNECTION_CLOSE closes, a HANDSHAKE_DONE
  establishes a client, and CRYPTO data does when TLS gives the first keys of application data for it.
\<close>

definition moved_by :: "frame set \<Rightarrow> 't conn \<Rightarrow> 't conn \<Rightarrow> bool" where
  "moved_by F a b \<longleftrightarrow> side b = side a \<and> (has_keys (appdata_space a) \<longrightarrow> has_keys (appdata_space b)) \<and>
     (state b = state a \<or>
      state b = Closed \<and> (\<exists>e t r. ConnectionClose e t r \<in> F) \<or>
      state b = Established \<and> side a = Client \<and> HandshakeDone \<in> F \<or>
      state b = Established \<and> \<not> has_keys (appdata_space a) \<and> has_keys (appdata_space b) \<and>
        (\<exists>off data. Crypto off data \<in> F))"

lemma moved_by_refl: "moved_by F c c"
  by (simp add: moved_by_def)

lemma moved_by_trans: "moved_by F a b \<Longrightarrow> moved_by F b c \<Longrightarrow> moved_by F a c"
  by (cases "state c = state b"; cases "state b = state a") (auto simp: moved_by_def)

lemma process_frame_moved: 
  assumes "f \<in> F" shows "moved_by F c (snd (process_frame pf level f c))"
proof (cases f)
  case (Crypto offset data)
  then have F: "\<exists>off data. Crypto off data \<in> F" using assms by blast
  have "moved_by F c (snd (process_crypto pf level offset data c))"
    by (rule process_crypto_rel [where R = "moved_by F" and K = "\<lambda>_. True"];
        (rule tls_keys_True moved_by_refl | erule (1) moved_by_trans)?)
      (simp_all add: moved_by_def install_handshake_def install_one_rtt_def replace_one_rtt_def F
          has_keys_def set_keys_def)
  then show ?thesis by (simp add: Crypto process_frame_def moved_by_refl)
qed (use assms in \<open>auto simp: process_frame_def moved_by_def\<close>)

lemma process_frames_moved:
  "set fs \<subseteq> F \<Longrightarrow> moved_by F c (snd (process_frames_at pf level fs c))"
proof (induction fs arbitrary: c)
  case (Cons f fs)
  obtain r d where d: "process_frame pf level f c = (r, d)" by fastforce
  have "moved_by F c d" using process_frame_moved [of f F c pf level] Cons.prems d by simp
  then show ?case
    using Cons.IH [of d] Cons.prems d by (cases r) (auto simp: seqA_def intro: moved_by_trans)
qed (simp add: moved_by_refl)

lemma ingest_moved:
  assumes "state (snd (ingest pf now buf c)) \<noteq> state c"
  obtains i pn fs where "ingest_packet buf c = Ok (i, pn, fs)" and "moved_by (set fs) c (snd (ingest pf now buf c))"
proof -
  obtain r c' where e: "ingest pf now buf c = (r, c')" "c' \<noteq> c"
    using assms by (metis prod.collapse)
  obtain i pn fs where p: "ingest_packet buf c = Ok (i, pn, fs)" "c' = processed pf now i pn fs c"
    using e by (rule ingest_changes)
  have "has_keys (appdata_space (space_mut i (record_recv_pn now pn) c)) = has_keys (appdata_space c)"
    unfolding get_space_eqs [symmetric] get_space_mut by (simp add: record_recv_pn_def has_keys_def Let_def)
  then have "moved_by (set fs) c (space_mut i (record_recv_pn now pn) c)"
    by (simp add: moved_by_def)
  moreover have "moved_by (set fs) (space_mut i (record_recv_pn now pn) c) c'"
    unfolding p(2) processed_def process_frames_def by (rule process_frames_moved) simp
  ultimately have "moved_by (set fs) c c'" by (rule moved_by_trans)
  with p(1) e(1) that show thesis by simp
qed

section \<open>Acknowledgements\<close>

text \<open>The packet numbers an ACK frame with one range says were received (RFC 9000, section 19.3.1).\<close>

fun acked :: "frame \<Rightarrow> int set" where
  "acked (Ack largest delay (r # rs) ecn) = {int (unat largest) - int (unat (ar_range r)) .. int (unat largest)}"
| "acked f = {}"

lemma fold_max_Max: "fold max acks 0 = Max (insert 0 (set acks))" for acks :: "u64 list"
  using Max.set_eq_fold [of 0 acks] by simp

lemma acked_ack_frame:
  assumes "acks \<noteq> []" and l: "length acks < 2 ^ 62"
  shows "acked (ack_frame acks) =
     {int (unat (fold max acks 0)) - int (length acks) + 1 .. int (unat (fold max acks 0))}"
proof -
  have "unat (of_nat (length acks - 1) :: u64) = length acks - 1" using l by (intro unat_of_nat_u64) simp
  moreover have "int (length acks - 1) = int (length acks) - 1" using assms(1) by (cases acks) simp_all
  ultimately show ?thesis by (simp add: ack_frame_def Let_def)
qed

lemma ack_exact:
  assumes ne: "acks \<noteq> []" and l: "length acks < 2 ^ 62"
  shows "acked (ack_frame acks) = (int \<circ> unat) ` set acks \<longleftrightarrow>
     distinct acks \<and> (\<exists>lo. (int \<circ> unat) ` set acks = {lo .. int (unat (fold max acks 0))})"
proof -
  let ?m = "int (unat (fold max acks 0))" and ?f = "int \<circ> unat :: u64 \<Rightarrow> int"
  have inj: "inj_on ?f A" for A by (auto intro!: inj_onI simp: word_uint_eq_iff)
  have card: "card (?f ` set acks) = card (set acks)" using inj by (rule card_image)
  have max_in: "fold max acks 0 \<in> set acks \<or> fold max acks 0 = 0"
    unfolding fold_max_Max using Max_in [of "insert 0 (set acks)"] by auto
  show ?thesis
  proof
    assume a: "acked (ack_frame acks) = ?f ` set acks"
    have "card (acked (ack_frame acks)) = length acks"
      unfolding acked_ack_frame [OF ne l] by simp
    then have "card (?f ` set acks) = length acks" unfolding a .
    then have "distinct acks" using card by (simp add: card_distinct)
    then show "distinct acks \<and> (\<exists>lo. ?f ` set acks = {lo .. ?m})"
      using a acked_ack_frame [OF ne l] by auto
  next
    assume "distinct acks \<and> (\<exists>lo. ?f ` set acks = {lo .. ?m})"
    then obtain lo where d: "distinct acks" and lo: "?f ` set acks = {lo .. ?m}" by blast
    have "card (?f ` set acks) = length acks" using card d by (simp only: distinct_card)
    then have "length acks = card {lo .. ?m}" unfolding lo by (rule sym)
    then have "int (length acks) = ?m - lo + 1" using ne by (cases "lo \<le> ?m") auto
    then have "lo = ?m - int (length acks) + 1" by linarith
    then show "acked (ack_frame acks) = ?f ` set acks"
      using acked_ack_frame [OF ne l] lo by simp
  qed
qed

section \<open>Application data\<close>

text \<open>Received data: STREAM frames put it in, \<open>recv_data\<close> takes it out.\<close>

definition receive_stream :: "bytes \<Rightarrow> 't conn \<Rightarrow> 't conn" where
  "receive_stream data c = c\<lparr>received_app_data := received_app_data c @ data\<rparr>"

interpretation app_data: fifo received_app_data receive_stream recv_data
  by unfold_locales (simp_all add: receive_stream_def recv_data_def Let_def)

lemma process_stream: "process_frame pf level (Stream i off data fin) c = (Ok (), receive_stream data c)"
  by (simp add: process_frame_def receive_stream_def)


section \<open>Egest as a whole\<close>

text \<open>The space \<open>egest\<close> sends for: the first with keys and something to say.\<close>

definition next_to_send :: "'t conn \<Rightarrow> packet_number_space option" where
  "next_to_send c = find (\<lambda>i. has_keys (get_space i c) \<and> space_frames i (state c) c \<noteq> [])
     [InitialSpace, HandshakeSpace, ApplicationData]"

definition sent_packet :: "packet_number_space \<Rightarrow> 't conn \<Rightarrow> (bytes, connection_error) result" where
  "sent_packet i c = encrypt_packet (get_space i (sent i (state c) c)) i (version c) (dst_cid c) (src_cid c)
     (space_frames i (state c) c) (sp_next_send_pn (get_space i c))
     (encoded_pn_len (sp_next_send_pn (get_space i c))) (state c = Established)"

lemma egest_spaces_find:
  assumes "conn_ok c"
  shows "egest_spaces is (state c) c =
     (case find (\<lambda>i. has_keys (get_space i c) \<and> space_frames i (state c) c \<noteq> []) is of
        None \<Rightarrow> (Ok None, c)
      | Some i \<Rightarrow> (andthen (sent_packet i c) (\<lambda>p. Ok (Some p)), sent i (state c) c))"
proof (induction "is")
  case (Cons i "is")
  show ?case
  proof (cases "has_keys (get_space i c) \<and> space_frames i (state c) c \<noteq> []")
    case True
    then show ?thesis
      by (cases "sent_packet i c") (auto simp: egest_space_eq sent_packet_def Let_def seqA_def)
  next
    case False
    have "length (pending_crypto c) = 3" using assms by (simp add: conn_ok_def)
    with False have "egest_space i (state c) c = (Ok None, c)"
      using collected_idle [of i "state c" c] by (auto simp: egest_space_eq)
    with False Cons show ?thesis by (auto simp: seqA_def)
  qed
qed simp

lemma egest_eq:
  assumes "conn_ok c"
  shows "egest cap c =
     (if state c = Closed then (Error IsClosed, c)
      else case next_to_send c of
        None \<Rightarrow> (Ok [], c)
      | Some i \<Rightarrow>
          (andthen (sent_packet i c) (\<lambda>p. Ok (if cap < length p then [] else p)), sent i (state c) c))"
proof (cases "next_to_send c")
  case None
  then have "egest_spaces [InitialSpace, HandshakeSpace, ApplicationData] (state c) c = (Ok None, c)"
    unfolding egest_spaces_find [OF assms] next_to_send_def by simp
  with None show ?thesis by (simp add: egest_def seqA_def del: egest_spaces.simps)
next
  case (Some i)
  then have "egest_spaces [InitialSpace, HandshakeSpace, ApplicationData] (state c) c =
      (andthen (sent_packet i c) (\<lambda>p. Ok (Some p)), sent i (state c) c)"
    unfolding egest_spaces_find [OF assms] next_to_send_def by simp
  with Some show ?thesis
    by (cases "sent_packet i c") (simp_all add: egest_def seqA_def del: egest_spaces.simps)
qed

section \<open>Packet numbers of a run\<close>

definition peeks :: "'t conn \<Rightarrow> packet_number_space \<Rightarrow> u64" where
  "peeks c i = sp_next_send_pn (get_space i c)"

lemma peeks_trans: "peeks b = peeks a \<Longrightarrow> peeks c = peeks b \<Longrightarrow> peeks c = peeks a"
  by simp

lemma process_frame_peeks: "peeks (snd (process_frame pf l f c)) = peeks c"
  by (rule process_frame_rel [where R = "\<lambda>a b. peeks b = peeks a" and K = "\<lambda>_. True"])
    (auto simp: fun_eq_iff peeks_def install_handshake_def install_one_rtt_def replace_one_rtt_def
      get_space_set get_space_eqs set_keys_def)

lemma ingest_peeks: "peeks (snd (ingest pf now buf c)) = peeks c"
  by (rule ingest_rel [where R = "\<lambda>a b. peeks b = peeks a"])
    (auto simp: process_frame_peeks, auto simp: fun_eq_iff peeks_def get_space_mut record_recv_pn_def Let_def)

lemma sent_peeks: "peeks (sent i st c) = (peeks c)(i := peeks c i + 1)"
  by (auto simp: fun_eq_iff peeks_def get_sent next_send_pn_def take_pending_acks_def Let_def)

definition call_uses :: "call \<Rightarrow> 't conn \<Rightarrow> (packet_number_space \<times> u64) option" where
  "call_uses k c = (case k of
       Egest cap \<Rightarrow> if state c = Closed then None else map_option (\<lambda>i. (i, peeks c i)) (next_to_send c)
     | _ \<Rightarrow> None)"

fun numbers_used :: "('t, 'c) platform \<Rightarrow> call list \<Rightarrow> 't conn \<Rightarrow> (packet_number_space \<times> u64) list" where
  "numbers_used pf [] c = []"
| "numbers_used pf (k # ks) c =
     (case call_uses k c of None \<Rightarrow> [] | Some x \<Rightarrow> [x]) @ numbers_used pf ks (after_call pf k c)"

lemma call_peeks:
  assumes "conn_ok c"
  shows "peeks (after_call pf k c) =
     (case call_uses k c of None \<Rightarrow> peeks c | Some (i, n) \<Rightarrow> (peeks c)(i := n + 1))"
proof (cases k)
  case (Egest cap)
  then show ?thesis
    by (auto simp: egest_eq [OF assms] call_uses_def sent_peeks split: option.split)
next
  case (Ingest now buf)
  then show ?thesis by (simp add: ingest_peeks call_uses_def)
qed (auto simp: call_uses_def fun_eq_iff peeks_def send_data_def recv_data_def Let_def)

lemma numbers_of_space:
  assumes "conn_ok c"
  shows "\<exists>n \<le> length ks. map snd (filter (\<lambda>x. fst x = i) (numbers_used pf ks c)) =
     map (\<lambda>m. peeks c i + of_nat m) [0..<n]"
  using assms
proof (induction ks arbitrary: c)
  case (Cons k ks)
  let ?c = "after_call pf k c"
  have "conn_ok ?c" using Cons.prems by (rule conn_ok_call)
  then obtain n where n: "n \<le> length ks" "map snd (filter (\<lambda>x. fst x = i) (numbers_used pf ks ?c)) =
      map (\<lambda>m. peeks ?c i + of_nat m) [0..<n]"
    using Cons.IH by blast
  show ?case
  proof (cases "call_uses k c")
    case None
    with n show ?thesis
      by (intro exI [of _ n]) (simp add: call_peeks [OF Cons.prems])
  next
    case (Some x)
    obtain j q where x: "x = (j, q)" by (cases x)
    have q: "q = peeks c j"
      using Some x by (auto simp: call_uses_def split: call.splits if_splits)
    show ?thesis
    proof (cases "j = i")
      case True
      have "peeks c i # map (\<lambda>m. peeks c i + 1 + of_nat m) [0..<n] = map (\<lambda>m. peeks c i + of_nat m) [0..<Suc n]"
        by (simp add: upt_conv_Cons map_Suc_upt [symmetric] algebra_simps del: upt_Suc)
      with True Some x q n show ?thesis
        by (intro exI [of _ "Suc n"]) (simp add: call_peeks [OF Cons.prems] del: upt_Suc)
    next
      case False
      with Some x n show ?thesis
        by (intro exI [of _ n]) (simp add: call_peeks [OF Cons.prems])
    qed
  qed
qed simp

lemma distinct_by_key:
  "(\<And>i. distinct (map snd (filter (\<lambda>x. fst x = i) xs))) \<Longrightarrow> distinct xs"
proof (induction xs)
  case (Cons x xs)
  have "distinct (map snd (filter (\<lambda>x. fst x = i) xs))" for i
    using Cons.prems [of i] by (auto split: if_splits)
  moreover have "x \<notin> set xs"
    using Cons.prems [of "fst x"] by force
  ultimately show ?case using Cons.IH by simp
qed simp

lemma numbers_distinct:
  assumes "conn_ok c" and "length ks \<le> 2 ^ 64"
  shows "distinct (numbers_used pf ks c)"
proof (rule distinct_by_key)
  fix i
  obtain n where n: "n \<le> length ks" "map snd (filter (\<lambda>x. fst x = i) (numbers_used pf ks c)) =
      map (\<lambda>m. peeks c i + of_nat m) [0..<n]"
    using numbers_of_space [OF assms(1)] by blast
  have "inj_on (\<lambda>m. peeks c i + of_nat m) {0..<n}"
  proof (rule inj_onI)
    fix a b
    assume ab: "a \<in> {0..<n}" "b \<in> {0..<n}" and "peeks c i + of_nat a = peeks c i + of_nat b"
    then have "unat (of_nat a :: u64) = unat (of_nat b :: u64)" by simp
    moreover have "a < 2 ^ 64" "b < 2 ^ 64" using n(1) assms(2) ab by auto
    ultimately show "a = b" by (simp add: unsigned_of_nat take_bit_nat_eq_self)
  qed
  then show "distinct (map snd (filter (\<lambda>x. fst x = i) (numbers_used pf ks c)))"
    unfolding n(2) by (simp add: distinct_map)
qed


section \<open>Frames and the space they came in\<close>

fun is_crypto :: "frame \<Rightarrow> bool" where
  "is_crypto (Crypto offset data) = True"
| "is_crypto f = False"

lemma process_frame_level: "\<not> is_crypto f \<Longrightarrow> process_frame pf l f c = process_frame pf l' f c"
  by (cases f) (simp_all add: process_frame_def)

lemma process_frames_level:
  "list_all (\<lambda>f. \<not> is_crypto f) fs \<Longrightarrow> process_frames_at pf l fs c = process_frames_at pf l' fs c"
proof (induction fs arbitrary: c)
  case (Cons f fs)
  then show ?case
    using process_frame_level [of f pf l c l'] by (simp add: seqA_def split: prod.split sum.split)
qed simp

text \<open>Frames that change nothing.\<close>

fun quiet :: "frame \<Rightarrow> bool" where
  "quiet Padding = True"
| "quiet Ping = True"
| "quiet (Ack l d r e) = True"
| "quiet f = False"

lemma process_quiet: "list_all quiet fs \<Longrightarrow> process_frames_at pf l fs c = (Ok (), c)"
proof (induction fs)
  case (Cons f fs)
  then have "process_frame pf l f c = (Ok (), c)" by (cases f) (simp_all add: process_frame_def)
  with Cons show ?case by (simp add: seqA_def)
qed simp

lemma process_append:
  "process_frames_at pf l fs c = (Ok (), d) \<Longrightarrow>
     process_frames_at pf l (fs @ gs) c = process_frames_at pf l gs d"
proof (induction fs arbitrary: c)
  case (Cons f fs)
  then show ?case by (auto simp: seqA_def split: prod.splits sum.splits)
qed simp

section \<open>From one end to the other\<close>

lemma ack_part_ok:
  assumes "length (sp_pending_acks (get_space i c)) < 2 ^ 62"
    and "list_all (\<lambda>n. unat n < 2 ^ 62) (sp_pending_acks (get_space i c))"
  shows "frames_ok (ack_part i c)" and "list_all quiet (ack_part i c)"
proof -
  let ?a = "sp_pending_acks (get_space i c)"
  have "unat (fold max ?a 0) < 2 ^ 62"
  proof -
    have "fold max ?a 0 \<in> insert 0 (set ?a)"
      unfolding fold_max_Max by (intro Max_in) auto
    with assms(2) show ?thesis by (auto simp: list_all_iff)
  qed
  then have m: "fold max ?a 0 \<le> VARINT_MAX" by (simp add: VARINT_MAX_unat)
  have r: "(of_nat (length ?a - 1) :: u64) \<le> VARINT_MAX"
    using assms(1) by (intro of_nat_le_VARINT_MAX) simp
  show "frames_ok (ack_part i c)"
    using m r by (simp add: ack_part_def Let_def frames_ok_def ack_frame_def ranges_ok_def range_ok_def ecn_ok_def
        VARINT_MAX_eq isize_max_def)
  show "list_all quiet (ack_part i c)" by (simp add: ack_part_def Let_def ack_frame_def)
qed

text \<open>A connection whose numbers and buffers are of a size that occurs.\<close>

definition conn_small :: "'t conn \<Rightarrow> bool" where
  "conn_small c \<longleftrightarrow> unat (stream_send_offset c) < 2 ^ 62 \<and> length (pending_app_data c) < 2 ^ 61 \<and>
     (\<forall>i. length (sp_pending_acks (get_space i c)) < 2 ^ 62 \<and>
        list_all (\<lambda>n. unat n < 2 ^ 62) (sp_pending_acks (get_space i c)))"

lemma app_frames:
  assumes "state a = Established" and "pending_app_data a \<noteq> []" and "pending_crypto a ! 2 = []"
  shows "space_frames ApplicationData Established a =
     ack_part ApplicationData a @ [Stream 0 (stream_send_offset a) (pending_app_data a) False]"
  using assms by (simp add: space_frames_def crypto_part_def done_part_def stream_part_def)

lemma app_frames_ok:
  assumes "state a = Established" and "pending_app_data a \<noteq> []" and "pending_crypto a ! 2 = []"
    and s: "conn_small a"
  shows "frames_ok (space_frames ApplicationData Established a)"
proof -
  have "frames_ok (ack_part ApplicationData a)"
    using s by (intro ack_part_ok) (simp_all add: conn_small_def)
  moreover have "frames_ok [Stream 0 (stream_send_offset a) (pending_app_data a) False]"
    using s assms(2) by (simp add: frames_ok_def conn_small_def length_ok_def VARINT_MAX_unat)
  ultimately show ?thesis by (simp add: app_frames assms frames_ok_def)
qed


lemma short_header_cid:
  "parse_short_header buf k = Ok (hdr, n) \<Longrightarrow> hdr_pn_offset_short hdr = 1 + k"
  using outcome_short_header [of buf k] by (auto simp: outcome_def hdr_pn_offset_short_def)

lemma short_header_bit: "parse_short_header buf k = Ok (hdr, n) \<Longrightarrow> buf \<noteq> [] \<and> buf ! 0 AND 0x80 = 0"
  by (auto simp: parse_short_header_def result_dest ensure_def index_at_def split: if_splits)

text \<open>What \<open>ingest\<close> does with a short packet that decrypts, by the masked bits of its first byte.\<close>

lemma ingest_short:
  assumes b: "state b \<noteq> Closed" "length (dst_cid b) = k" "k \<le> 20"
    and p: "p \<noteq> []" "p ! 0 AND 0x80 = 0" "p ! 0 AND 0x40 \<noteq> 0"
    and d: "decrypt_and_parse (appdata_space b) p (1 + k) = Ok (pn, fs)"
  shows "ingest pf now p b =
     (if bits_pass p then seqA (process_frames pf fs ApplicationData) (\<lambda>_. returnA (length p))
        (space_mut ApplicationData (record_recv_pn now pn) b)
      else (Error (InPacket ReservedBitsSet), b))"
proof -
  have "k + 4 < length p" using decrypt_short_length [OF d] by simp
  note h = short_header_bits [OF p b(3) this]
  show ?thesis
  proof (cases "bits_pass p")
    case True
    then obtain hdr i where ok: "parse_short_header p k = Ok (hdr, i)" using h by (auto simp: is_ok_iff)
    have "ingest_packet p b = Ok (ApplicationData, pn, fs)"
      using ok short_header_cid [OF ok] p d b(2) by (simp add: ingest_packet_def index_at_def Let_def)
    then show ?thesis using True b p(1) by (simp add: ingest_def)
  next
    case False
    then show ?thesis using h b p by (simp add: ingest_def ingest_packet_def index_at_def Let_def)
  qed
qed

lemma deliver:
  assumes a: "conn_ok a" "state a = Established" "next_to_send a = Some ApplicationData"
      "pending_app_data a \<noteq> []" "pending_crypto a ! 2 = []" "conn_small a"
    and b: "state b \<noteq> Closed" "length (dst_cid b) = length (dst_cid a)" "length (dst_cid b) \<le> 20"
    and k: "local_keys (appdata_space a) = Some ka" "remote_keys (appdata_space b) = Some kb" "keys_match ka kb"
    and n: "n = encoded_pn_len (peeks a ApplicationData)"
    and pn: "decode_packet_number (largest_recv_pn (appdata_space b)) (take_bit (8 * n) (peeks a ApplicationData))
        (of_nat n) = peeks a ApplicationData"
    and e: "egest cap a = (Ok pkt, a')" "pkt \<noteq> []"
  shows "if bits_pass pkt
     then \<exists>b'. ingest pf now pkt b = (Ok (length pkt), b') \<and>
       received_app_data b' = received_app_data b @ pending_app_data a \<and> state b' = state b
     else ingest pf now pkt b = (Error (InPacket ReservedBitsSet), b)"
proof -
  let ?fs = "space_frames ApplicationData Established a"
  let ?s = "get_space ApplicationData (sent ApplicationData Established a)"
  have s: "local_keys ?s = Some ka"
    using k(1) by (simp add: get_sent get_space_eqs space_defs)
  obtain p where p: "sent_packet ApplicationData a = Ok p" "pkt = p"
    using e a by (cases "sent_packet ApplicationData a") (auto simp: egest_eq split: if_splits)
  obtain pkt' m where pkt': "encrypt_packet ?s ApplicationData (version a) (dst_cid a) (src_cid a) ?fs
        (peeks a ApplicationData) n True = Ok pkt'"
      "decrypt_and_parse (appdata_space b) pkt' (1 + length (dst_cid a)) =
        Ok (peeks a ApplicationData, ?fs @ replicate m Padding)"
      "pkt' ! 0 AND 0x80 = 0" "pkt' ! 0 AND 0x40 \<noteq> 0"
    using short_packet_sized [OF k(3) s k(2) app_frames_ok [OF a(2,4,5,6)] n pn] by blast
  have eq: "pkt' = pkt"
    using p pkt'(1) a(2) n by (simp add: sent_packet_def peeks_def)
  let ?b = "space_mut ApplicationData (record_recv_pn now (peeks a ApplicationData)) b"
  have "list_all quiet (ack_part ApplicationData a)"
    using a(6) by (intro ack_part_ok) (simp_all add: conn_small_def)
  then have "process_frames_at pf 2 (ack_part ApplicationData a) ?b = (Ok (), ?b)" by (rule process_quiet)
  moreover have "process_frames_at pf 2 (replicate m Padding) c = (Ok (), c)" for c :: "'b conn"
    by (rule process_quiet) (simp add: list_all_iff)
  ultimately have "process_frames_at pf 2 (?fs @ replicate m Padding) ?b =
      (Ok (), receive_stream (pending_app_data a) ?b)"
    unfolding app_frames [OF a(2,4,5)] append_assoc
    by (simp add: process_append process_stream seqA_def)
  then have f: "seqA (process_frames pf (?fs @ replicate m Padding) ApplicationData) (\<lambda>_. returnA (length pkt)) ?b =
      (Ok (length pkt), receive_stream (pending_app_data a) ?b)"
    by (simp add: process_frames_def seqA_def returnA_def)
  have d: "decrypt_and_parse (appdata_space b) pkt (1 + length (dst_cid b)) =
      Ok (peeks a ApplicationData, ?fs @ replicate m Padding)"
    using pkt'(2) eq b(2) by simp
  show ?thesis
    using ingest_short [OF b(1) refl b(3) e(2) pkt'(3,4) [unfolded eq] d, of pf now] f by (simp add: receive_stream_def)
qed

text \<open>The handshake's first step.\<close>

lemma connect_accepted:
  assumes c: "connect pf name = Ok (c, packet)"
    and t: "client_new pf SkipVerify name = Inr t0" "tls_write_hs pf t0 = (ch, kc, t1)"
    and k: "client_initial_keys (pf_provider pf) (dst_cid c) = Ok ck"
      "server_initial_keys (pf_provider pf') (dst_cid c) = Ok sk"
      "keys_match (keys_local ck) (keys_remote sk)"
    and size: "length ch + sample_len (keys_local ck) + tag_len (keys_local ck) + 2000 < 2 ^ 62"
      "4 + sample_len (keys_local ck) \<le> 1100"
    and s: "server_new pf' cfg = Inr s0" "read_hs pf' ch s0 = (Ok (), s1)"
  shows "1200 \<le> length packet \<and> length (dst_cid c) = 8 \<and> length (src_cid c) = 8 \<and>
     (\<exists>hdr. accept pf' now packet cfg = Ok (accepted_conn pf' now hdr sk ch s1) \<and> lh_version hdr = version c \<and>
       lh_dst_cid hdr = ConnectionId (dst_cid c) \<and> lh_src_cid hdr = ConnectionId (src_cid c))"
proof -
  from c obtain dcid scid where b: "build_initial_packet ck dcid scid ch = Ok packet"
      and r: "random_bytes pf 0 8 = (Ok dcid :: (bytes, connection_error) result)"
        "random_bytes pf 1 8 = (Ok scid :: (bytes, connection_error) result)"
      and cid: "dst_cid c = dcid" "src_cid c = scid" "version c = VERSION_1"
    by (rule connect_okD) (use t k(1) in auto)
  have l: "length dcid \<le> 20" "length scid \<le> 20"
    using length_random_bytes [OF r(1)] length_random_bytes [OF r(2)] by simp_all
  obtain hdr i m where p: "1200 \<le> length packet" "parse_long_header packet = Ok (hdr, i)"
      "lh_version hdr = VERSION_1" "lh_dst_cid hdr = ConnectionId dcid" "lh_src_cid hdr = ConnectionId scid"
      "decrypt_initial packet hdr sk = Ok (Crypto 0 ch # replicate m Padding, 0)"
    using initial_packet [OF k(3) l size] b by auto
  have ch: "client_hello_of (Crypto 0 ch # replicate m Padding) = ch"
    by (induction m) simp_all
  let ?s = "accepted_conn pf' now hdr sk ch s1"
  have "accept pf' now packet cfg = Ok ?s"
    using p k(2) s cid ch by (simp add: accept_def Let_def tls_result_def)
  then show ?thesis
    using p cid length_random_bytes [OF r(1)] length_random_bytes [OF r(2)] by auto
qed


section \<open>Packets that do not fit\<close>

lemma seal_length:
  assumes "seal k h off payload pn n = Ok pkt" and "keys_typed k"
  shows "length payload \<le> length pkt"
proof -
  obtain c tag h' where "aead_encrypt k pn h payload = Some (c, tag)" and "pkt = h' @ c @ tag"
    using assms(1) by (auto simp: seal_def Let_def result_dest)
  moreover from this have "length c = length payload" using assms(2) unfolding keys_typed_def by metis
  ultimately show ?thesis by simp
qed

lemma short_packet_length:
  assumes k: "local_keys s = Some k" "keys_typed k" and fs: "frames_ok fs"
    and e: "encrypt_packet s ApplicationData v dst src fs pn (encoded_pn_len pn) True = Ok pkt"
  shows "length (frames_wire fs) \<le> length pkt"
proof -
  obtain m where "encrypt_packet s ApplicationData v dst src fs pn (encoded_pn_len pn) True =
      encrypt_short k dst (frames_wire fs @ replicate m 0) pn (encoded_pn_len pn) False"
    using encrypt_packet_eq [OF k(1) fs, of "encoded_pn_len pn" ApplicationData dst src v pn True]
    by (auto simp: Let_def)
  with e have "seal k ((short_byte False (encoded_pn_len pn) # dst) @ pn_be pn (encoded_pn_len pn))
      (length (short_byte False (encoded_pn_len pn) # dst)) (frames_wire fs @ replicate m 0) pn
        (encoded_pn_len pn) = Ok pkt"
    using encrypt_short_eq [OF encoded_pn_len_ok] by simp
  from seal_length [OF this k(2)] show ?thesis by simp
qed

lemma egest_oversized:
  assumes a: "conn_ok a" "state a = Established" "next_to_send a = Some ApplicationData"
      "pending_app_data a \<noteq> []" "pending_crypto a ! 2 = []" "conn_small a"
    and k: "local_keys (appdata_space a) = Some ka" "keys_typed ka"
    and cap: "cap \<le> length (pending_app_data a)"
    and e: "egest cap a = (Ok out, a')"
  shows "out = [] \<and> pending_app_data a' = [] \<and>
     stream_send_offset a' = stream_send_offset a + of_nat (length (pending_app_data a))"
proof -
  let ?fs = "space_frames ApplicationData Established a"
  have eq: "egest cap a = (andthen (sent_packet ApplicationData a) (\<lambda>p. Ok (if cap < length p then [] else p)),
      sent ApplicationData Established a)"
    using a by (simp add: egest_eq)
  have st: "stream_part ApplicationData Established a \<noteq> []" using a by (simp add: stream_part_def)
  have "out = []"
  proof -
    obtain p where p: "sent_packet ApplicationData a = Ok p" "out = (if cap < length p then [] else p)"
      using e eq by (auto simp: result_dest)
    have "local_keys (get_space ApplicationData (sent ApplicationData Established a)) = Some ka"
      using k(1) by (simp add: get_sent get_space_eqs space_defs)
    then have "length (frames_wire ?fs) \<le> length p"
      using p(1) a(2) by (intro short_packet_length [OF _ k(2) app_frames_ok [OF a(2,4,5,6)]])
        (auto simp: sent_packet_def)
    moreover have "length (pending_app_data a) < length (frames_wire ?fs)"
      using a by (simp add: app_frames frames_wire_def sized_bytes_def)
    ultimately show ?thesis using p(2) cap by simp
  qed
  then show ?thesis using e eq st by (auto simp: sent_def)
qed

section \<open>A concrete platform\<close>

text \<open>
  An instance for the witnesses. The TLS machine is a counter. A client starts at 0, writes its
  ClientHello, gets the handshake keys after its first read and the keys of application data, with
  its Finished to send, after the second. A server starts at 10, reads, writes its first flight with
  the handshake keys, then its second with the keys of application data.
\<close>

definition toy_platform :: "(nat, nat) platform" where
  "toy_platform = \<lparr>
     pf_provider = \<lparr>install_default = True, default_cipher_suites = [\<lparr>suite_id = 1, suite_quic = Some 1\<rparr>],
       keys_initial = (\<lambda>_ _ _ _. toy_keys)\<rparr>,
     server_name_ok = (\<lambda>n. n \<noteq> []),
     client_new = (\<lambda>_ _. Inr 0),
     server_new = (\<lambda>_. Inr 10),
     tls_read_hs = (\<lambda>t d. (None, t + 1)),
     tls_write_hs = (\<lambda>t. if t = 0 then ([1, 2, 3], None, 1)
       else if t = 2 then ([], Some (HandshakeKeys toy_keys), 3)
       else if t = 4 then ([9], Some (OneRttKeys toy_keys), 5)
       else if t = 11 then ([4, 5], Some (HandshakeKeys toy_keys), 12)
       else if t = 12 then ([6], Some (OneRttKeys toy_keys), 13)
       else ([], None, t)),
     entropy = (\<lambda>i. Some (replicate 8 (of_nat i)))\<rparr>"

text \<open>An established connection with application keys and data to send.\<close>

definition toy_conn :: "bytes \<Rightarrow> nat conn" where
  "toy_conn data = \<lparr>side = Client, state = Established, tls = 5, version = VERSION_1,
     dst_cid = [7], src_cid = [8], initial_space = toy_space InitialSpace,
     handshake_space = toy_space HandshakeSpace, appdata_space = toy_space ApplicationData,
     pending_crypto = [[], [], []], crypto_recv_offset = [0, 0, 0], pending_app_data = data,
     received_app_data = [], stream_send_offset = 0, close_reason = None\<rparr>"

lemma toy_spaces [simp]:
  "sp_id (toy_space i) = i" "has_keys (toy_space i)" "sp_pending_acks (toy_space i) = []"
  "sp_next_send_pn (toy_space i) = 0"
  by (simp_all add: toy_space_def set_keys_def space_new_def has_keys_def)

lemma toy_conn_spaces [simp]: "get_space i (toy_conn d) = toy_space i"
  by (cases i) (simp_all add: get_space_def toy_conn_def)

lemma toy_conn_fields [simp]:
  "state (toy_conn d) = Established" "pending_app_data (toy_conn d) = d" "dst_cid (toy_conn d) = [7]"
  "pending_crypto (toy_conn d) = [[], [], []]" "stream_send_offset (toy_conn d) = 0"
  "appdata_space (toy_conn d) = toy_space ApplicationData" "received_app_data (toy_conn d) = []"
  "initial_space (toy_conn d) = toy_space InitialSpace" "side (toy_conn d) = Client"
  "crypto_recv_offset (toy_conn d) = [0, 0, 0]" "src_cid (toy_conn d) = [8]"
  by (simp_all add: toy_conn_def)

lemma toy_conn_ok: "conn_ok (toy_conn d)"
  by (simp add: conn_ok_def)

lemma toy_next: "d \<noteq> [] \<Longrightarrow> next_to_send (toy_conn d) = Some ApplicationData"
  by (simp add: next_to_send_def space_frames_def crypto_part_def ack_part_def done_part_def stream_part_def)

lemma toy_small: "length d < 2 ^ 61 \<Longrightarrow> conn_small (toy_conn d)"
  by (simp add: conn_small_def)

end
