(* ===== verification/Connection_Traces.thy ===== *)
theory Connection_Traces
  imports Connection_Runs
begin

text \<open>
  What runs along whole traces of calls: every key a connection holds came from the platform
  (\<open>all_keys_typed\<close>), the STREAM frames of a run carry the data given to \<open>send_data\<close>, in order and at
  consecutive offsets (\<open>run_stream\<close>); and the delivery of a long packet from one connection to another
  (\<open>long_delivered\<close>).
\<close>

section \<open>Keys\<close>

definition quic_typed :: "quic_keys \<Rightarrow> bool" where
  "quic_typed k \<longleftrightarrow> keys_typed (keys_local k) \<and> keys_typed (keys_remote k)"

definition platform_typed :: "('t, 'c) platform \<Rightarrow> bool" where
  "platform_typed pf \<longleftrightarrow> tls_keys quic_typed pf \<and>
     (\<forall>suite alg cid who. quic_typed (keys_initial (pf_provider pf) suite alg cid who))"

text \<open>Every key of the connection came from the platform.\<close>

definition all_keys_typed :: "'t conn \<Rightarrow> bool" where
  "all_keys_typed c \<longleftrightarrow> (\<forall>i k. sp_keys (get_space i c) = Some k \<longrightarrow> quic_typed k)"

lemma all_keys_typed_remote: "all_keys_typed c \<Longrightarrow> conn_keys_typed c"
  by (auto simp: all_keys_typed_def conn_keys_typed_def quic_typed_def remote_keys_def)

definition typed_on :: "'t conn \<Rightarrow> 't conn \<Rightarrow> bool" where
  "typed_on a b \<longleftrightarrow> (all_keys_typed a \<longrightarrow> all_keys_typed b)"

lemma typed_on_refl [simp]: "typed_on c c"
  by (simp add: typed_on_def)

lemma typed_on_trans: "typed_on a b \<Longrightarrow> typed_on b c \<Longrightarrow> typed_on a c"
  by (simp add: typed_on_def)

lemma typed_on_same: "(\<And>i. sp_keys (get_space i b) = sp_keys (get_space i a)) \<Longrightarrow> typed_on a b"
  by (simp add: typed_on_def all_keys_typed_def)

lemma install_typed:
  assumes "quic_typed k"
  shows "typed_on c (install_handshake k c)" "typed_on c (install_one_rtt k c)" "typed_on c (replace_one_rtt k c)"
  using assms
  by (auto simp: typed_on_def all_keys_typed_def install_handshake_def install_one_rtt_def replace_one_rtt_def
      get_space_set set_keys_def)

lemma ingest_typed:
  assumes "platform_typed pf"
  shows "typed_on c (snd (ingest pf now buf c))"
proof -
  have K: "tls_keys quic_typed pf" using assms by (simp add: platform_typed_def)
  have f: "typed_on c (snd (process_frame pf l f c))" for l f c
    by (rule process_frame_rel [where R = typed_on and K = quic_typed];
        (rule K typed_on_refl | erule install_typed | erule (1) typed_on_trans)?)
      (rule typed_on_same, simp)+
  show ?thesis
    by (rule ingest_rel [where R = typed_on]; (rule typed_on_refl f | erule (1) typed_on_trans)?)
      (rule typed_on_same, simp add: get_space_mut record_recv_pn_def Let_def)
qed

lemma egest_typed: "conn_ok c \<Longrightarrow> typed_on c (snd (egest cap c))"
  by (rule typed_on_same)
    (auto simp: egest_eq get_sent next_send_pn_def take_pending_acks_def Let_def split: option.split)

lemma call_typed: "conn_ok c \<Longrightarrow> platform_typed pf \<Longrightarrow> typed_on c (after_call pf k c)"
  by (cases k) (simp_all add: ingest_typed egest_typed,
      simp_all add: typed_on_same send_data_def recv_data_def Let_def)

lemma connect_typed: "connect pf name = Ok (c, packet) \<Longrightarrow> platform_typed pf \<Longrightarrow> all_keys_typed c"
  by (erule connect_okD)
    (auto simp: all_keys_typed_def get_space_def platform_typed_def space_new_def set_keys_def next_send_pn_def
      client_initial_keys_def Let_def result_dest split: packet_number_space.splits)

lemma accept_typed:
  assumes a: "accept pf now packet cfg = Ok c" and p: "platform_typed pf"
  shows "all_keys_typed c"
proof -
  have K: "tls_keys quic_typed pf" using p by (simp add: platform_typed_def)
  have w: "quic_typed k" if "tls_write_hs pf t = (b, kc, t')" "process_tls_output (Some (b, kc)) l = (out, Some k)"
    for t b kc t' l out k
    using that K by (auto simp: process_tls_output_def tls_keys_def split: option.splits key_change.splits)
  from a obtain hdr k ch t cid where k: "server_initial_keys (pf_provider pf) cid = Ok k"
      and c: "c = accepted_conn pf now hdr k ch t"
    by (rule accept_okD) blast
  have "quic_typed k" using k p by (auto simp: server_initial_keys_def platform_typed_def result_dest)
  obtain buf kc m where 1: "tls_write_hs pf t = (buf, kc, m)" by (metis prod_cases3)
  obtain out ks where 2: "process_tls_output (Some (buf, kc)) 0 = (out, ks)" by fastforce
  obtain buf' kc' m' where 3: "tls_write_hs pf m = (buf', kc', m')" by (metis prod_cases3)
  obtain out' ks' where 4: "process_tls_output (Some (buf', kc')) 1 = (out', ks')" by fastforce
  have "quic_typed a" if "ks = Some a" for a using w [OF 1] 2 that by blast
  moreover have "quic_typed a" if "ks' = Some a" for a using w [OF 3] 4 that by blast
  ultimately show ?thesis
    using \<open>quic_typed k\<close>
    unfolding c accepted_conn_def accept_handshake_output_def 1 2 3 4 prod.case Let_def
    by (cases ks; cases ks')
      (auto simp: all_keys_typed_def get_space_def record_recv_pn_def space_new_def set_keys_def Let_def
        split: packet_number_space.splits if_splits)
qed

lemma reachable_typed: "reachable pf c \<Longrightarrow> platform_typed pf \<Longrightarrow> all_keys_typed c"
proof (induction rule: reachable.induct)
  case (called c k)
  then show ?case using call_typed [OF reachable_ok] by (auto simp: typed_on_def)
qed (auto simp: connect_typed accept_typed)


section \<open>The stream of a run\<close>

text \<open>
  The frames of the packet that the next \<open>egest\<close> encrypts, and its space: those that \<open>collect_frames\<close>
  gives for the first space that has keys and any frames.
\<close>

definition egest_frames :: "'t conn \<Rightarrow> (packet_number_space \<times> frame list) option" where
  "egest_frames c =
     (if state c = Closed then None
      else map_option (\<lambda>i. (i, fst (collect_frames i (state c) c)))
        (find (\<lambda>i. has_keys (get_space i c) \<and> fst (collect_frames i (state c) c) \<noteq> [])
          [InitialSpace, HandshakeSpace, ApplicationData]))"

lemma egest_frames_eq:
  "egest_frames c =
     (if state c = Closed then None else map_option (\<lambda>i. (i, space_frames i (state c) c)) (next_to_send c))"
  by (simp add: egest_frames_def collect_frames_eq next_to_send_def space_frames_def)

text \<open>The STREAM frames of stream 0, as offset and data.\<close>

fun streams_of :: "frame list \<Rightarrow> (u64 \<times> bytes) list" where
  "streams_of [] = []"
| "streams_of (f # fs) =
     (case f of Stream sid off data fin \<Rightarrow> if sid = 0 then [(off, data)] else [] | _ \<Rightarrow> []) @ streams_of fs"

lemma streams_append [simp]: "streams_of (fs @ gs) = streams_of fs @ streams_of gs"
  by (induction fs) simp_all

lemma streams_space:
  "streams_of (space_frames i st c) =
     (if stream_part i st c \<noteq> [] then [(stream_send_offset c, pending_app_data c)] else [])"
  by (simp add: space_frames_def crypto_part_def ack_part_def done_part_def stream_part_def ack_frame_def Let_def)

text \<open>
  The STREAM frames that the calls of a run put into packets, and the data given to \<open>send_data\<close>. A packet
  counts that \<open>egest\<close> drops because the buffer is too small.
\<close>

definition call_streams :: "call \<Rightarrow> 't conn \<Rightarrow> (u64 \<times> bytes) list" where
  "call_streams k c = (case k of
       Egest cap \<Rightarrow> (case egest_frames c of None \<Rightarrow> [] | Some (i, fs) \<Rightarrow> streams_of fs)
     | _ \<Rightarrow> [])"

fun run :: "('t, 'c) platform \<Rightarrow> call list \<Rightarrow> 't conn \<Rightarrow> 't conn" where
  "run pf [] c = c"
| "run pf (k # ks) c = run pf ks (after_call pf k c)"

fun streams_packed :: "('t, 'c) platform \<Rightarrow> call list \<Rightarrow> 't conn \<Rightarrow> (u64 \<times> bytes) list" where
  "streams_packed pf [] c = []"
| "streams_packed pf (k # ks) c = call_streams k c @ streams_packed pf ks (after_call pf k c)"

fun data_given :: "call list \<Rightarrow> bytes" where
  "data_given [] = []"
| "data_given (k # ks) = (case k of SendData d \<Rightarrow> d | _ \<Rightarrow> []) @ data_given ks"

text \<open>Consecutive pieces of a stream, from an offset.\<close>

fun contiguous :: "u64 \<Rightarrow> (u64 \<times> bytes) list \<Rightarrow> bool" where
  "contiguous off [] = True"
| "contiguous off ((o', d) # ps) \<longleftrightarrow> o' = off \<and> contiguous (off + of_nat (length d)) ps"

definition same_out :: "'t conn \<Rightarrow> 't conn \<Rightarrow> bool" where
  "same_out a b \<longleftrightarrow> pending_app_data b = pending_app_data a \<and> stream_send_offset b = stream_send_offset a"

lemma same_out_refl [simp]: "same_out c c"
  by (simp add: same_out_def)

lemma same_out_trans: "same_out a b \<Longrightarrow> same_out b c \<Longrightarrow> same_out a c"
  by (simp add: same_out_def)

lemma ingest_out: "same_out c (snd (ingest pf now buf c))"
proof -
  have "same_out c (snd (process_frame pf l f c))" for l f c
    by (rule process_frame_rel [where R = same_out and K = "\<lambda>_. True"];
        (rule tls_keys_True same_out_refl | erule (1) same_out_trans)?)
      (simp_all add: same_out_def install_handshake_def install_one_rtt_def replace_one_rtt_def)
  then show ?thesis
    by (intro ingest_rel [where R = same_out]) (auto simp: same_out_def)
qed

lemma sent_out:
  "pending_app_data (sent i st c) = (if stream_part i st c \<noteq> [] then [] else pending_app_data c)"
  "stream_send_offset (sent i st c) =
     (if stream_part i st c \<noteq> [] then stream_send_offset c + of_nat (length (pending_app_data c))
      else stream_send_offset c)"
  by (simp_all add: sent_def)

lemma call_stream:
  assumes "conn_ok c"
  shows "concat (map snd (call_streams k c)) @ pending_app_data (after_call pf k c) =
       pending_app_data c @ data_given [k]"
    and "contiguous (stream_send_offset c) (call_streams k c @ ps) =
       contiguous (stream_send_offset (after_call pf k c)) ps"
proof -
  have "concat (map snd (call_streams k c)) @ pending_app_data (after_call pf k c) =
       pending_app_data c @ data_given [k] \<and>
     contiguous (stream_send_offset c) (call_streams k c @ ps) =
       contiguous (stream_send_offset (after_call pf k c)) ps"
  proof (cases k)
    case (Egest cap)
    then show ?thesis
      by (auto simp: call_streams_def egest_frames_eq streams_space egest_eq [OF assms] sent_out split: option.split)
  qed (simp_all add: call_streams_def ingest_out [unfolded same_out_def] send_data_def recv_data_def Let_def)
  then show "concat (map snd (call_streams k c)) @ pending_app_data (after_call pf k c) =
       pending_app_data c @ data_given [k]"
    and "contiguous (stream_send_offset c) (call_streams k c @ ps) =
       contiguous (stream_send_offset (after_call pf k c)) ps"
    by simp_all
qed

lemma run_stream:
  assumes "conn_ok c"
  shows "concat (map snd (streams_packed pf ks c)) @ pending_app_data (run pf ks c) =
      pending_app_data c @ data_given ks \<and>
    contiguous (stream_send_offset c) (streams_packed pf ks c)"
  using assms
proof (induction ks arbitrary: c)
  case (Cons k ks)
  note c = call_stream [OF Cons.prems] and n = Cons.IH [OF conn_ok_call [OF Cons.prems, of pf k]]
  have "concat (map snd (streams_packed pf (k # ks) c)) @ pending_app_data (run pf (k # ks) c) =
      concat (map snd (call_streams k c)) @ pending_app_data (after_call pf k c) @ data_given ks"
    using n by simp
  also have "\<dots> = pending_app_data c @ data_given [k] @ data_given ks"
    using c(1) by (metis append_assoc)
  finally show ?case using c(2) [of k _ pf] n by simp
qed simp


section \<open>Delivery of long packets\<close>

lemma process_padding:
  "process_frames_at pf l (fs @ replicate m Padding) c = process_frames_at pf l fs c"
proof (induction fs arbitrary: c)
  case Nil
  then show ?case by (simp add: process_quiet list_all_iff)
next
  case (Cons f fs)
  then show ?case by (simp add: seqA_def split: prod.split sum.split)
qed

lemma parse_long_bit: "parse_long_header buf = Ok (hdr, n) \<Longrightarrow> buf \<noteq> [] \<and> buf ! 0 AND 0x80 \<noteq> 0"
  by (auto simp: parse_long_header_def result_dest ensure_def index_at_def split: if_splits)

lemma long_space_type: "long_space (space_long_type i) = Some i"
  by (cases i) (simp_all add: long_space_def)

lemma ingest_long:
  assumes "parse_long_header pkt = Ok (hdr, n)" and "lh_ty hdr = space_long_type i"
    and "decrypt_and_parse_long (get_space i c) pkt (hdr_pn_offset_long hdr) = Ok (pn, fs @ replicate m Padding)"
    and "state c \<noteq> Closed"
  shows "ingest pf now pkt c =
     seqA (process_frames pf fs i) (\<lambda>_. returnA (length pkt)) (space_mut i (record_recv_pn now pn) c)"
proof -
  have "ingest_packet pkt c = Ok (i, pn, fs @ replicate m Padding)"
    using parse_long_bit [OF assms(1)] assms by (simp add: ingest_packet_def index_at_def Let_def long_space_type)
  with parse_long_bit [OF assms(1)] assms(4) show ?thesis
    by (simp add: ingest_def process_frames_def seqA_def process_padding)
qed

text \<open>Everything that lets a packet of space \<open>i\<close> go from \<open>a\<close> to \<open>b\<close> under a long header.\<close>

definition long_link :: "packet_number_space \<Rightarrow> 't conn \<Rightarrow> 'u conn \<Rightarrow> bool" where
  "long_link i a b \<longleftrightarrow> (i \<noteq> ApplicationData \<or> state a \<noteq> Established) \<and> state a \<noteq> Closed \<and> state b \<noteq> Closed \<and>
     version a \<noteq> VERSION_NEGOTIATION \<and> length (dst_cid a) \<le> 20 \<and> length (src_cid a) \<le> 20 \<and>
     unat (peeks a i) < 2 ^ 32 \<and>
     frames_ok (space_frames i (state a) a) \<and>
     (\<exists>ka kb. local_keys (get_space i a) = Some ka \<and> remote_keys (get_space i b) = Some kb \<and> keys_match ka kb \<and>
        length (frames_wire (space_frames i (state a) a)) + sample_len ka + tag_len ka + 2000 < 2 ^ 62)"

lemma long_sent:
  assumes l: "long_link i a b"
  obtains pkt where "pkt \<noteq> []" and "sent_packet i a = Ok pkt"
    and "\<And>pf now. ingest pf now pkt b = seqA (process_frames pf (space_frames i (state a) a) i)
      (\<lambda>_. returnA (length pkt)) (space_mut i (record_recv_pn now (peeks a i)) b)"
    and "\<And>k. local_keys (get_space i a) = Some k \<Longrightarrow>
      length pkt \<le> packet_bound k (length (frames_wire (space_frames i (state a) a)))"
proof -
  let ?fs = "space_frames i (state a) a" and ?s = "get_space i (sent i (state a) a)"
  from l obtain ka kb where k: "local_keys (get_space i a) = Some ka" "remote_keys (get_space i b) = Some kb"
      "keys_match ka kb" and size: "length (frames_wire ?fs) + sample_len ka + tag_len ka + 2000 < 2 ^ 62"
    unfolding long_link_def by blast
  have s: "local_keys ?s = Some ka" using k(1) by (simp add: get_sent space_defs)
  have est: "i \<noteq> ApplicationData \<or> \<not> (state a = Established)" using l by (auto simp: long_link_def)
  obtain pkt hdr n m where p: "encrypt_packet ?s i (version a) (dst_cid a) (src_cid a) ?fs (peeks a i)
        (encoded_pn_len (peeks a i)) (state a = Established) = Ok pkt"
      "parse_long_header pkt = Ok (hdr, n)" "lh_ty hdr = space_long_type i"
      "decrypt_and_parse_long (get_space i b) pkt (hdr_pn_offset_long hdr) = Ok (peeks a i, ?fs @ replicate m Padding)"
      "length pkt \<le> packet_bound ka (length (frames_wire ?fs))"
    using long_packet_sized [OF k(3) s k(2) _ _ _ _ est _ size, where pn = "peeks a i"] l
    unfolding long_link_def by blast
  show thesis
  proof (rule that)
    show "pkt \<noteq> []" using parse_long_bit [OF p(2)] by simp
    show "sent_packet i a = Ok pkt" using p(1) by (simp add: sent_packet_def peeks_def)
    show "ingest pf now pkt b = seqA (process_frames pf ?fs i)
        (\<lambda>_. returnA (length pkt)) (space_mut i (record_recv_pn now (peeks a i)) b)" for pf now
      using l by (intro ingest_long [OF p(2,3,4)]) (simp add: long_link_def)
    show "length pkt \<le> packet_bound k (length (frames_wire ?fs))" if "local_keys (get_space i a) = Some k" for k
      using p(5) k(1) that by simp
  qed
qed

lemma long_delivered:
  fixes a :: "'t conn" and b :: "'u conn"
  assumes a: "conn_ok a" "next_to_send a = Some i" and l: "long_link i a b"
  obtains pkt where "pkt \<noteq> []"
    and "\<And>cap. egest cap a = (Ok (if cap < length pkt then [] else pkt), sent i (state a) a)"
    and "\<And>(pf :: ('u, 'c) platform) now. ingest pf now pkt b = seqA (process_frames pf (space_frames i (state a) a) i)
      (\<lambda>_. returnA (length pkt)) (space_mut i (record_recv_pn now (peeks a i)) b)"
    and "\<And>k. local_keys (get_space i a) = Some k \<Longrightarrow>
      length pkt \<le> packet_bound k (length (frames_wire (space_frames i (state a) a)))"
proof (rule long_sent [OF l])
  fix pkt assume "pkt \<noteq> []" "sent_packet i a = Ok pkt"
    "\<And>(pf :: ('u, 'c) platform) now. ingest pf now pkt b = seqA (process_frames pf (space_frames i (state a) a) i)
      (\<lambda>_. returnA (length pkt)) (space_mut i (record_recv_pn now (peeks a i)) b)"
    "\<And>k. local_keys (get_space i a) = Some k \<Longrightarrow>
      length pkt \<le> packet_bound k (length (frames_wire (space_frames i (state a) a)))"
  note pkt = this
  have "egest cap a = (Ok (if cap < length pkt then [] else pkt), sent i (state a) a)" for cap
    using a l pkt(2) by (simp add: egest_eq long_link_def)
  then show thesis by (rule that [OF pkt(1) _ pkt(3,4)])
qed

end
