(* ===== verification/Connection_Handshake.thy ===== *)
theory Connection_Handshake
  imports Connection_Traces
begin

text \<open>
  The handshake from \<open>connect\<close> to both sides \<open>Established\<close>, packet by packet, under a script of what
  TLS does with the flights: the lemmas behind the theorem \<open>handshake_completes\<close>.
\<close>

section \<open>The TLS flights of a handshake\<close>

text \<open>
  What TLS 1.3 does on the two sides, as rustls reports it. The client in state \<open>t\<close> reads the ServerHello
  \<open>sh\<close> and gets the handshake keys \<open>hk\<close>; it reads the rest of the server's flight \<open>ee\<close>, gets the keys
  of application data \<open>ok\<close> and has its Finished \<open>fin\<close> to send. The server in state \<open>t\<close>, which has read
  the ClientHello, writes \<open>sh\<close> with \<open>hk\<close>, then \<open>ee\<close> with \<open>ok\<close>.
\<close>

definition client_script ::
  "('t, 'c) platform \<Rightarrow> 't \<Rightarrow> bytes \<Rightarrow> bytes \<Rightarrow> bytes \<Rightarrow> quic_keys \<Rightarrow> quic_keys \<Rightarrow> bool" where
  "client_script pf t sh ee fin hk ok \<longleftrightarrow> (\<exists>t2 t3 t4 t5 t6 t7.
     tls_read_hs pf t sh = (None, t2) \<and> tls_write_hs pf t2 = ([], Some (HandshakeKeys hk), t3) \<and>
     tls_write_hs pf t3 = ([], None, t4) \<and> tls_read_hs pf t4 ee = (None, t5) \<and>
     tls_write_hs pf t5 = (fin, Some (OneRttKeys ok), t6) \<and> tls_write_hs pf t6 = ([], None, t7))"

definition server_script ::
  "('t, 'c) platform \<Rightarrow> 't \<Rightarrow> bytes \<Rightarrow> bytes \<Rightarrow> quic_keys \<Rightarrow> quic_keys \<Rightarrow> bool" where
  "server_script pf t sh ee hk ok \<longleftrightarrow> sh \<noteq> [] \<and> ee \<noteq> [] \<and> (\<exists>t2 t3.
     tls_write_hs pf t = (sh, Some (HandshakeKeys hk), t2) \<and>
     tls_write_hs pf t2 = (ee, Some (OneRttKeys ok), t3))"

lemma read_first_flight:
  assumes "tls_read_hs pf (tls c) sh = (None, t2)" and "tls_write_hs pf t2 = ([], Some (HandshakeKeys hk), t3)"
    and "tls_write_hs pf t3 = ([], None, t4)" and "crypto_recv_offset c = [0, 0, 0]"
        and "\<not> has_keys (handshake_space c)"
  shows "process_frames_at pf 0 [Crypto 0 sh, ack_frame acks] c =
     (Ok (), c\<lparr>tls := t4, handshake_space := set_keys hk (handshake_space c),
        crypto_recv_offset := [of_nat (length sh), 0, 0]\<rparr>)"
  using assms
  by (simp add: process_frame_def process_crypto_def read_hs_def write_hs_def process_tls_output_def
      handle_crypto_output_def more_output_def install_handshake_def ack_frame_def seqA_def Let_def)


lemma read_second_flight:
  assumes "tls_read_hs pf (tls c) ee = (None, t5)" and "tls_write_hs pf t5 = (fin, Some (OneRttKeys ok), t6)"
    and "tls_write_hs pf t6 = ([], None, t7)" and "crypto_recv_offset c = [n, 0, 0]" and "\<not> has_keys (appdata_space c)"
    and "pending_crypto c = [[], [], []]"
  shows "process_frames_at pf 1 [Crypto 0 ee] c =
     (Ok (), c\<lparr>tls := t7, pending_crypto := [[], fin, []], appdata_space := set_keys ok (appdata_space c),
        state := Established, crypto_recv_offset := [n, of_nat (length ee), 0]\<rparr>)"
  using assms
  by (simp add: process_frame_def process_crypto_def read_hs_def write_hs_def process_tls_output_def
      handle_crypto_output_def more_output_def install_one_rtt_def seqA_def Let_def)

lemma read_done:
  "side c = Client \<Longrightarrow> process_frames_at pf l [HandshakeDone] c = (Ok (), c\<lparr>state := Established\<rparr>)"
  by (simp add: process_frame_def seqA_def)

text \<open>The server that \<open>accept\<close> builds.\<close>

lemma accepted_script:
  fixes pf :: "('t, 'c) platform" and t :: 't and ch :: bytes and k hdr now
  assumes "server_script pf t sh ee hk ok"
  defines "s \<equiv> accepted_conn pf now hdr k ch t"
  shows "pending_crypto s = [sh, ee, []]" and "handshake_space s = set_keys hk (space_new HandshakeSpace)"
    and "appdata_space s = set_keys ok (space_new ApplicationData)"
    and "initial_space s = record_recv_pn now 0 (set_keys k (space_new InitialSpace))"
    and "side s = Server" and "state s = Handshaking" and "pending_app_data s = []"
    and "version s = lh_version hdr" and "dst_cid s = cid_bytes (lh_src_cid hdr)"
    and "src_cid s = cid_bytes (lh_dst_cid hdr)"
  using assms(1) unfolding s_def
  by (auto simp: server_script_def accepted_conn_def accept_handshake_output_def process_tls_output_def Let_def)

text \<open>Matching keys, and data that fits a packet of \<open>cap\<close> bytes.\<close>

definition flight_ok :: "nat \<Rightarrow> dir_keys \<Rightarrow> dir_keys \<Rightarrow> bytes \<Rightarrow> bool" where
  "flight_ok cap a b d \<longleftrightarrow> keys_match a b \<and> packet_bound a (length d + 15) \<le> cap \<and> cap < 2 ^ 61"

lemma flight_okD:
  assumes "flight_ok cap a b d"
  shows "keys_match a b" and "length d < 2 ^ 61" and "length d + sample_len a + tag_len a + 3000 < 2 ^ 62"
    and "n \<le> length d + 15 \<Longrightarrow> packet_bound a n \<le> cap"
  using assms by (auto simp: flight_ok_def packet_bound_def)

lemma small_crypto_frame: "length d < 2 ^ 61 \<Longrightarrow> frames_ok [Crypto 0 d] \<and> length (frames_wire [Crypto 0 d]) \<le> length
    d + 10"
  using encoded_len_le_8 [of "of_nat (length d)"]
  by (simp add: frames_ok_def length_ok_def frames_wire_def sized_bytes_def varint_bytes_0)

text \<open>Acknowledgements of packet number 0, once or twice.\<close>

definition zero_acks :: "u64 list \<Rightarrow> bool" where
  "zero_acks acks \<longleftrightarrow> acks = [0] \<or> acks = [0, 0]"

lemma small_ack_frame:
  assumes "zero_acks acks"
  shows "frames_ok [ack_frame acks]" and "length (frames_wire [ack_frame acks]) = 5"
proof -
  have "encoded_len 1 = 1" "encoded_len 0 = 1" by (simp_all add: encoded_len_def)
  with assms show "frames_ok [ack_frame acks]" "length (frames_wire [ack_frame acks]) = 5"
    by (auto simp: zero_acks_def ack_frame_def frames_ok_def ranges_ok_def range_ok_def ecn_ok_def isize_max_def
      frames_wire_def varint_bytes_0 ecn_wire_def VARINT_MAX_eq)
qed


text \<open>The server before its first packet, with acknowledgements \<open>acks\<close> for the client's first.\<close>

definition server_ready ::
  "bytes \<Rightarrow> bytes \<Rightarrow> u64 list \<Rightarrow> quic_keys \<Rightarrow> quic_keys \<Rightarrow> quic_keys \<Rightarrow> 't conn \<Rightarrow> bool" where
  "server_ready sh ee acks ik hk ok s \<longleftrightarrow> sh \<noteq> [] \<and> ee \<noteq> [] \<and> conn_ok s \<and> side s = Server \<and> state s = Handshaking \<and>
     pending_crypto s = [sh, ee, []] \<and> pending_app_data s = [] \<and>
     sp_keys (get_space InitialSpace s) = Some ik \<and> sp_keys (get_space HandshakeSpace s) = Some hk \<and>
     sp_keys (get_space ApplicationData s) = Some ok \<and>
     (\<forall>i. sp_pending_acks (get_space i s) = (if i = InitialSpace then acks else [])) \<and>
     (\<forall>i. sp_next_send_pn (get_space i s) = 0) \<and> (\<forall>i. sp_largest_recv_pn (get_space i s) = 0)"

text \<open>What it leaves behind after its three packets.\<close>

definition server_done :: "quic_keys \<Rightarrow> quic_keys \<Rightarrow> quic_keys \<Rightarrow> 't conn \<Rightarrow> 't conn \<Rightarrow> bool" where
  "server_done ik hk ok s s' \<longleftrightarrow> conn_ok s' \<and> same_peer s s' \<and> tls s' = tls s \<and>
     crypto_recv_offset s' = crypto_recv_offset s \<and> state s' = Established \<and> pending_crypto s' = [[], [], []] \<and>
     pending_app_data s' = [] \<and> sp_keys (get_space InitialSpace s') = Some ik \<and>
     sp_keys (get_space HandshakeSpace s') = Some hk \<and> sp_keys (get_space ApplicationData s') = Some ok \<and>
     (\<forall>i. sp_pending_acks (get_space i s') = []) \<and> (\<forall>i. sp_next_send_pn (get_space i s') = 1) \<and>
     (\<forall>i. sp_largest_recv_pn (get_space i s') = 0)"

lemma sent_space:
  "sp_keys (get_space i (sent j st c)) = sp_keys (get_space i c)"
  "sp_pending_acks (get_space i (sent j st c)) = (if i = j then [] else sp_pending_acks (get_space i c))"
  "sp_next_send_pn (get_space i (sent j st c)) =
     (if i = j then sp_next_send_pn (get_space i c) + 1 else sp_next_send_pn (get_space i c))"
  "sp_largest_recv_pn (get_space i (sent j st c)) = sp_largest_recv_pn (get_space i c)"
  by (simp_all add: get_sent next_send_pn_def take_pending_acks_def Let_def)

lemma sent_rest:
  "pending_crypto (sent j st c) = (pending_crypto c)[pn_space_to_level j := []]"
  "pending_app_data (sent j st c) = (if stream_part j st c \<noteq> [] then [] else pending_app_data c)"
  "tls (sent j st c) = tls c"
  by (simp_all add: sent_def)

lemma sent_same_peer: "same_peer c (sent j st c)"
  by (simp add: same_peer_def sends_more_def get_sent has_keys_def next_send_pn_def take_pending_acks_def Let_def)

text \<open>What the server sends, one packet per space.\<close>

lemma server_sends:
  fixes s :: "'t conn"
  assumes "server_ready sh ee acks ik hk ok s" and "acks \<noteq> []"
  defines "s1 \<equiv> sent InitialSpace Handshaking s"
  defines "s2 \<equiv> sent HandshakeSpace Handshaking s1"
  defines "s3 \<equiv> sent ApplicationData Handshaking s2"
  shows "next_to_send s = Some InitialSpace" "space_frames InitialSpace Handshaking s = [Crypto 0 sh, ack_frame acks]"
    and "next_to_send s1 = Some HandshakeSpace" "space_frames HandshakeSpace Handshaking s1 = [Crypto 0 ee]"
    and "next_to_send s2 = Some ApplicationData" "space_frames ApplicationData Handshaking s2 = [HandshakeDone]"
    and "state s1 = Handshaking" "state s2 = Handshaking" and "conn_ok s1" "conn_ok s2" "server_done ik hk ok s s3"
    and "next_to_send s3 = None"
proof -
  note sends = space_frames_def crypto_part_def ack_part_def done_part_def stream_part_def next_to_send_def
  have s: "side s = Server" "state s = Handshaking" "pending_crypto s = [sh, ee, []]" "pending_app_data s = []"
    "sh \<noteq> []" "ee \<noteq> []" "conn_ok s"
    and a: "\<And>i. sp_pending_acks (get_space i s) = (if i = InitialSpace then acks else [])"
    using assms(1) by (simp_all add: server_ready_def)
  have k: "has_keys (get_space i s)" for i
    using assms(1) by (cases i) (simp_all add: server_ready_def has_keys_def)
  have ks: "has_keys (get_space i (sent j st c)) = has_keys (get_space i c)" for i j st and c :: "'t conn"
    by (simp add: sent_space has_keys_def)
  have ok: "conn_ok (sent i (state c) c)" if "conn_ok c" "state c = Handshaking"
      "next_to_send c = Some i" for i and c :: "'t conn"
    using conn_ok_call [OF that(1), of undefined "Egest 0"] that by (simp add: egest_eq)
  note f = ks sent_space sent_rest
  show h0: "next_to_send s = Some InitialSpace" "space_frames InitialSpace Handshaking s =
      [Crypto 0 sh, ack_frame acks]"
    using s k a assms(2) by (simp_all add: sends)
  have 1: "state s1 = Handshaking" "side s1 = Server" "pending_crypto s1 = [[], ee, []]" "pending_app_data s1 = []"
    "has_keys (get_space i s1)" "sp_pending_acks (get_space i s1) = []" for i
    using s k a unfolding s1_def by (simp_all add: f) (simp_all add: done_part_def)
  then show h1: "state s1 = Handshaking" "next_to_send s1 = Some HandshakeSpace"
    "space_frames HandshakeSpace Handshaking s1 = [Crypto 0 ee]"
    using s(6) by (simp_all add: sends)
  show ok1: "conn_ok s1" using ok [OF s(7,2) h0(1)] s(2) by (simp add: s1_def)
  have 2: "state s2 = Handshaking" "side s2 = Server" "pending_crypto s2 = [[], [], []]" "pending_app_data s2 = []"
    "has_keys (get_space i s2)" "sp_pending_acks (get_space i s2) = []" for i
    using 1 unfolding s2_def by (simp_all add: f) (simp_all add: done_part_def)
  then show h2: "state s2 = Handshaking" "next_to_send s2 = Some ApplicationData"
    "space_frames ApplicationData Handshaking s2 = [HandshakeDone]"
    by (simp_all add: sends)
  show ok2: "conn_ok s2" using ok [OF ok1 h1(1,2)] 1(1) by (simp add: s2_def)
  have ok3: "conn_ok s3" using ok [OF ok2 h2(1,2)] 2(1) by (simp add: s3_def)
  have 3: "state s3 = Established" "pending_crypto s3 = [[], [], []]" "pending_app_data s3 = []"
    "sp_pending_acks (get_space i s3) = []" for i
    using 2 unfolding s3_def by (simp_all add: f) (simp_all add: done_part_def stream_part_def)
  have "same_peer s s3"
    unfolding s3_def s2_def s1_def by (rule same_peer_trans [OF same_peer_trans [OF sent_same_peer sent_same_peer]
        sent_same_peer])
  moreover have "tls s3 = tls s" "crypto_recv_offset s3 = crypto_recv_offset s"
    by (simp_all add: s3_def s2_def s1_def sent_rest)
  moreover have "sp_next_send_pn (get_space i s3) = 1" "sp_largest_recv_pn (get_space i s3) = 0"
    "sp_keys (get_space i s3) = sp_keys (get_space i s)" for i
    using assms(1) by (cases i; simp add: s3_def s2_def s1_def sent_space server_ready_def)+
  ultimately show "server_done ik hk ok s s3"
    using ok3 3 assms(1) by (simp add: server_done_def server_ready_def)
  show "next_to_send s3 = None"
    using 3 by (simp add: sends)
qed


lemma link_of_flight:
  assumes "flight_ok cap (keys_local k) (keys_remote k') d" and "sp_keys (get_space i a) = Some k"
    and "sp_keys (get_space i b) = Some k'" and "unat (sp_next_send_pn (get_space i a)) < 2 ^ 32"
    and "i \<noteq> ApplicationData \<or> state a \<noteq> Established" and "state a \<noteq> Closed" and "state b \<noteq> Closed"
    and "version a \<noteq> VERSION_NEGOTIATION" and "length (dst_cid a) \<le> 20" and "length (src_cid a) \<le> 20"
    and "frames_ok (space_frames i (state a) a)"
    and "length (frames_wire (space_frames i (state a) a)) \<le> length d + 15"
  shows "long_link i a b"
  using assms flight_okD(1,3) [OF assms(1)]
  by (simp add: long_link_def peeks_def local_keys_def remote_keys_def)

text \<open>The client before the server's first packet.\<close>

definition client_ready :: "quic_keys \<Rightarrow> 't conn \<Rightarrow> bool" where
  "client_ready ck c \<longleftrightarrow> conn_ok c \<and> side c = Client \<and> state c = Connecting \<and> crypto_recv_offset c = [0, 0, 0] \<and>
     pending_crypto c = [[], [], []] \<and> pending_app_data c = [] \<and> sp_keys (get_space InitialSpace c) = Some ck \<and>
     \<not> has_keys (handshake_space c) \<and> \<not> has_keys (appdata_space c) \<and>
     (\<forall>i. sp_pending_acks (get_space i c) = []) \<and>
     (\<forall>i. sp_next_send_pn (get_space i c) = (if i = InitialSpace then 1 else 0)) \<and>
     (\<forall>i. sp_largest_recv_pn (get_space i c) = 0)"

text \<open>And after the third.\<close>

definition client_done :: "quic_keys \<Rightarrow> quic_keys \<Rightarrow> quic_keys \<Rightarrow> bytes \<Rightarrow> 't conn \<Rightarrow> 't conn \<Rightarrow> bool" where
  "client_done ck hk ok fin c c' \<longleftrightarrow> conn_ok c' \<and> same_peer c c' \<and> state c' = Established \<and>
     pending_crypto c' = [[], fin, []] \<and> pending_app_data c' = [] \<and>
     sp_keys (get_space InitialSpace c') = Some ck \<and> sp_keys (get_space HandshakeSpace c') = Some hk \<and>
     sp_keys (get_space ApplicationData c') = Some ok \<and>
     (\<forall>i. sp_pending_acks (get_space i c') = [0]) \<and>
     (\<forall>i. sp_next_send_pn (get_space i c') = (if i = InitialSpace then 1 else 0)) \<and>
     (\<forall>i. sp_largest_recv_pn (get_space i c') = 0)"

text \<open>A packet of the server's flight: sent, of a size that fits, and read by the client.\<close>

lemma flight_delivered:
  fixes a :: "'u conn" and b :: "'t conn" and pf :: "('t, 'p) platform"
  assumes k: "flight_ok cap (keys_local k) (keys_remote k') d"
    and a: "conn_ok a" "next_to_send a = Some i" "sp_keys (get_space i a) = Some k"
        "sp_next_send_pn (get_space i a) = 0"
      "state a = Handshaking" "version a \<noteq> VERSION_NEGOTIATION" "length (dst_cid a) \<le> 20" "length (src_cid a) \<le> 20"
    and b: "sp_keys (get_space i b) = Some k'" "state b \<noteq> Closed"
    and fs: "space_frames i Handshaking a = fs" "frames_ok fs" "length (frames_wire fs) \<le> length d + 15"
    and read: "process_frames_at pf (pn_space_to_level i) fs (space_mut i (record_recv_pn now 0) b) = (Ok (), b')"
  obtains p where "egest cap a = (Ok p, sent i Handshaking a)" and "ingest pf now p b = (Ok (length p), b')"
    and "p \<noteq> []" and "length p \<le> cap"
proof -
  have "long_link i a b"
    by (rule link_of_flight [OF k a(3) b(1)]) (use a b fs in simp_all)
  note l = long_delivered [OF a(1,2) this, unfolded a(5) fs(1)]
  show thesis
  proof (rule l)
    fix p
    assume p: "p \<noteq> []" "\<And>cap. egest cap a = (Ok (if cap < length p then [] else p), sent i Handshaking a)"
      and r: "\<And>(pf :: ('t, 'p) platform) now. ingest pf now p b = seqA (process_frames pf fs i) (\<lambda>_. returnA (length p))
        (space_mut i (record_recv_pn now (peeks a i)) b)"
      and s: "\<And>k. local_keys (get_space i a) = Some k \<Longrightarrow> length p \<le> packet_bound k (length (frames_wire fs))"
    have "length p \<le> cap" using s [of "keys_local k"] a(3) flight_okD(4) [OF k fs(3)] by (simp add: local_keys_def)
    moreover have "ingest pf now p b = (Ok (length p), b')"
      unfolding r [of pf now] peeks_def a(4) process_frames_def by (simp add: seqA_def read)
    ultimately show thesis using that [of p] p by simp
  qed
qed

text \<open>The client's states as it reads the frames of the three packets.\<close>

lemma client_reads:
  assumes c: "client_ready ck c" and script: "client_script pf (tls c) sh ee fin hkc okc"
  obtains c1 c2 c3 where
      "process_frames_at pf 0 [Crypto 0 sh, ack_frame acks] (space_mut InitialSpace (record_recv_pn now 0) c) =
        (Ok (), c1)"
    and "process_frames_at pf 1 [Crypto 0 ee] (space_mut HandshakeSpace (record_recv_pn now 0) c1) = (Ok (), c2)"
    and "process_frames_at pf 2 [HandshakeDone] (space_mut ApplicationData (record_recv_pn now 0) c2) = (Ok (), c3)"
    and "state c1 = Connecting" and "sp_keys (get_space HandshakeSpace c1) = Some hkc"
    and "state c2 = Established" and "sp_keys (get_space ApplicationData c2) = Some okc"
    and "sp_keys (get_space HandshakeSpace c2) = Some hkc"
    and "conn_ok c3 \<Longrightarrow> same_peer c c3 \<Longrightarrow> client_done ck hkc okc fin c c3"
proof -
  from script obtain t2 t3 t4 t5 t6 t7 where t: "tls_read_hs pf (tls c) sh = (None, t2)"
      "tls_write_hs pf t2 = ([], Some (HandshakeKeys hkc), t3)" "tls_write_hs pf t3 = ([], None, t4)"
      "tls_read_hs pf t4 ee = (None, t5)" "tls_write_hs pf t5 = (fin, Some (OneRttKeys okc), t6)"
      "tls_write_hs pf t6 = ([], None, t7)"
    unfolding client_script_def by blast
  define c' where "c' = space_mut InitialSpace (record_recv_pn now 0) c"
  define c1 where "c1 = c'\<lparr>tls := t4, handshake_space := set_keys hkc (handshake_space c'),
        crypto_recv_offset := [of_nat (length sh), 0, 0]\<rparr>"
  define c1' where "c1' = space_mut HandshakeSpace (record_recv_pn now 0) c1"
  define c2 where "c2 = c1'\<lparr>tls := t7, pending_crypto := [[], fin, []],
        appdata_space := set_keys okc (appdata_space c1'), state := Established,
        crypto_recv_offset := [of_nat (length sh), of_nat (length ee), 0]\<rparr>"
  define c3 where "c3 = (space_mut ApplicationData (record_recv_pn now 0) c2)\<lparr>state := Established\<rparr>"
  have c': "tls c' = tls c" "side c' = Client" "state c' = Connecting" "crypto_recv_offset c' = [0, 0, 0]"
    "pending_crypto c' = [[], [], []]" "\<not> has_keys (handshake_space c')" "\<not> has_keys (appdata_space c')"
    using c by (simp_all add: c'_def client_ready_def space_mut_def)
  have c1': "tls c1' = t4" "side c1' = Client" "crypto_recv_offset c1' = [of_nat (length sh), 0, 0]"
    "pending_crypto c1' = [[], [], []]" "\<not> has_keys (appdata_space c1')"
    using c' by (simp_all add: c1'_def c1_def) (simp_all add: space_mut_def)
  have r: "process_frames_at pf 0 [Crypto 0 sh, ack_frame acks] c' = (Ok (), c1)"
    unfolding c1_def using t(1-3) c' by (intro read_first_flight) simp_all
  have r': "process_frames_at pf 1 [Crypto 0 ee] c1' = (Ok (), c2)"
    unfolding c2_def using t(4-6) c1' by (intro read_second_flight) simp_all
  have r'': "process_frames_at pf 2 [HandshakeDone] (space_mut ApplicationData (record_recv_pn now 0) c2) = (Ok (), c3)"
    unfolding c3_def using c1' by (intro read_done) (simp add: c2_def)
  have sp: "get_space InitialSpace c3 = record_recv_pn now 0 (get_space InitialSpace c)"
    "get_space HandshakeSpace c3 = record_recv_pn now 0 (set_keys hkc (get_space HandshakeSpace c))"
    "get_space ApplicationData c3 = record_recv_pn now 0 (set_keys okc (get_space ApplicationData c))"
    by (simp_all add: c3_def c2_def c1'_def c1_def c'_def get_space_def space_mut_def)
  have "sp_pending_acks (get_space i c3) = [0] \<and>
      sp_next_send_pn (get_space i c3) = (if i = InitialSpace then 1 else 0) \<and>
      sp_largest_recv_pn (get_space i c3) = 0" for i
    using c by (cases i) (simp_all add: sp client_ready_def record_recv_pn_def set_keys_def Let_def)
  moreover have "pending_crypto c3 = [[], fin, []]" "state c3 = Established" "pending_app_data c3 = []"
    using c by (simp_all add: c3_def c2_def c1'_def c1_def c'_def client_ready_def)
  ultimately have "client_done ck hkc okc fin c c3" if "conn_ok c3" "same_peer c c3"
    using c that sp by (simp add: client_done_def client_ready_def) (simp add: record_recv_pn_def set_keys_def Let_def)
  then show thesis
    using c' by (intro that [OF r [unfolded c'_def] r' [unfolded c1'_def] r''])
      (simp_all add: c1_def c2_def c1'_def space_mut_def get_space_def set_keys_def record_recv_pn_def Let_def)
qed

lemma handshake_runs:
  fixes s :: "'u conn" and c :: "'t conn" and pf :: "('t, 'p) platform"
  assumes s: "server_ready sh ee acks ik hk ok s" and z: "zero_acks acks" and c: "client_ready ck c"
    and script: "client_script pf (tls c) sh ee fin hkc okc"
    and k: "flight_ok cap (keys_local ik) (keys_remote ck) sh" "flight_ok cap (keys_local hk) (keys_remote hkc) ee"
      "flight_ok cap (keys_local ok) (keys_remote okc) []"
    and v: "version s \<noteq> VERSION_NEGOTIATION" "length (dst_cid s) \<le> 20" "length (src_cid s) \<le> 20"
  shows "\<exists>p1 p2 p3 s1 s2 s3 c1 c2 c3.
     egest cap s = (Ok p1, s1) \<and> ingest pf now p1 c = (Ok (length p1), c1) \<and>
     egest cap s1 = (Ok p2, s2) \<and> ingest pf now p2 c1 = (Ok (length p2), c2) \<and>
     egest cap s2 = (Ok p3, s3) \<and> ingest pf now p3 c2 = (Ok (length p3), c3) \<and>
     p1 \<noteq> [] \<and> p2 \<noteq> [] \<and> p3 \<noteq> [] \<and> length p1 \<le> cap \<and> length p2 \<le> cap \<and> length p3 \<le> cap \<and>
     state c2 = Established \<and> sp_keys (get_space HandshakeSpace c1) = Some hkc \<and>
     sp_keys (get_space HandshakeSpace c2) = Some hkc \<and>
     client_done ck hkc okc fin c c3 \<and> server_done ik hk ok s s3 \<and> next_to_send s3 = None"
proof -
  define s1 where "s1 = sent InitialSpace Handshaking s"
  define s2 where "s2 = sent HandshakeSpace Handshaking s1"
  define s3 where "s3 = sent ApplicationData Handshaking s2"
  have "acks \<noteq> []" using z by (auto simp: zero_acks_def)
  note server = server_sends [OF s this, folded s1_def, folded s2_def, folded s3_def]
  have ok: "conn_ok s" "state s = Handshaking" using s by (simp_all add: server_ready_def)
  have keys: "sp_keys (get_space InitialSpace s) = Some ik" "sp_keys (get_space HandshakeSpace s1) = Some hk"
    "sp_keys (get_space ApplicationData s2) = Some ok" "sp_next_send_pn (get_space InitialSpace s) = 0"
    "sp_next_send_pn (get_space HandshakeSpace s1) = 0" "sp_next_send_pn (get_space ApplicationData s2) = 0"
    using s by (simp_all add: server_ready_def s1_def s2_def sent_space)
  have same: "version s1 = version s" "dst_cid s1 = dst_cid s" "src_cid s1 = src_cid s"
    "version s2 = version s" "dst_cid s2 = dst_cid s" "src_cid s2 = src_cid s"
    by (simp_all add: s1_def s2_def)
  have small: "frames_ok [Crypto 0 sh, ack_frame acks]"
      "length (frames_wire [Crypto 0 sh, ack_frame acks]) \<le> length sh + 15"
    "frames_ok [Crypto 0 ee]" "length (frames_wire [Crypto 0 ee]) \<le> length ee + 15"
    "frames_ok [HandshakeDone]" "length (frames_wire [HandshakeDone]) \<le> length ([] :: bytes) + 15"
    using small_crypto_frame [OF flight_okD(2) [OF k(1)]] small_crypto_frame [OF flight_okD(2) [OF k(2)]]
        small_ack_frame [OF z]
    by (simp_all add: frames_ok_def frames_wire_def)
  obtain c1 c2 c3 where r: "process_frames_at pf 0 [Crypto 0 sh, ack_frame acks]
      (space_mut InitialSpace (record_recv_pn now 0) c) = (Ok (), c1)"
      "process_frames_at pf 1 [Crypto 0 ee] (space_mut HandshakeSpace (record_recv_pn now 0) c1) = (Ok (), c2)"
      "process_frames_at pf 2 [HandshakeDone] (space_mut ApplicationData (record_recv_pn now 0) c2) = (Ok (), c3)"
    and cs: "state c1 = Connecting" "sp_keys (get_space HandshakeSpace c1) = Some hkc" "state c2 = Established"
      "sp_keys (get_space ApplicationData c2) = Some okc" "sp_keys (get_space HandshakeSpace c2) = Some hkc"
        and cd: "conn_ok c3 \<Longrightarrow> same_peer c c3 \<Longrightarrow> client_done ck hkc okc fin c c3"
    by (rule client_reads [OF c script, where acks = acks and now = now], rule that)
  obtain p1 where 1: "egest cap s = (Ok p1, s1)" "ingest pf now p1 c = (Ok (length p1), c1)" "p1 \<noteq> []" "length p1 \<le> cap"
    by (rule flight_delivered [OF k(1) ok(1) server(1) keys(1,4) ok(2) v _ _ server(2) small(1,2), of c pf now c1])
      (use c r(1) in \<open>simp_all add: client_ready_def s1_def\<close>)
  obtain p2 where 2: "egest cap s1 = (Ok p2, s2)" "ingest pf now p2 c1 = (Ok (length p2), c2)" "p2 \<noteq> []"
      "length p2 \<le> cap"
    by (rule flight_delivered [OF k(2) server(9,3) keys(2,5) server(7) _ _ _ cs(2) _ server(4) small(3,4),
        of pf now c2])
      (use v r(2) cs(1) same in \<open>simp_all add: s2_def\<close>)
  obtain p3 where 3: "egest cap s2 = (Ok p3, s3)" "ingest pf now p3 c2 = (Ok (length p3), c3)" "p3 \<noteq> []"
      "length p3 \<le> cap"
    by (rule flight_delivered [OF k(3) server(10,5) keys(3,6) server(8) _ _ _ cs(4) _ server(6) small(5,6),
        of pf now c3])
      (use v r(3) cs(3) same in \<open>simp_all add: s3_def\<close>)
  have "conn_ok c" using c by (simp add: client_ready_def)
  then have "conn_ok c1" using conn_ok_call [of c pf "Ingest now p1"] 1(2) by simp
  then have "conn_ok c2" using conn_ok_call [of c1 pf "Ingest now p2"] 2(2) by simp
  then have "conn_ok c3" using conn_ok_call [of c2 pf "Ingest now p3"] 3(2) by simp
  moreover have "same_peer c c3"
    using call_same_peer [of c pf "Ingest now p1"] call_same_peer [of c1 pf "Ingest now p2"]
      call_same_peer [of c2 pf "Ingest now p3"] 1(2) 2(2) 3(2)
    by (metis after_call.simps(1) same_peer_trans snd_conv)
  ultimately have "client_done ck hkc okc fin c c3" by (rule cd)
  then show ?thesis using 1 2 3 cs(2,3,5) server(11,12) by blast
qed


lemma client_readyI:
  "connect pf name = Ok (c, packet) \<Longrightarrow> client_initial_keys (pf_provider pf) (dst_cid c) = Ok ck \<Longrightarrow>
     client_ready ck c"
  by (frule connect_ok, erule connect_okD)
    (auto simp: client_ready_def get_space_def has_keys_def space_new_def set_keys_def next_send_pn_def Let_def
      split: packet_number_space.split)

lemma accepted_other_spaces:
  assumes "server_script pf t sh ee hk ok" and "s = accepted_conn pf now hdr k ch t"
  shows "sp_pending_acks (get_space i s) = (if i = InitialSpace then [0] else [])"
    and "sp_next_send_pn (get_space i s) = 0" and "sp_largest_recv_pn (get_space i s) = 0"
proof -
  note a = accepted_script [OF assms(1), of now hdr k ch, folded assms(2)]
  show "sp_pending_acks (get_space i s) = (if i = InitialSpace then [0] else [])"
    "sp_next_send_pn (get_space i s) = 0" "sp_largest_recv_pn (get_space i s) = 0"
    by (cases i; simp add: get_space_eqs a record_recv_pn_def set_keys_def space_new_def Let_def)+
qed

lemma server_readyI:
  assumes "accept pf now packet cfg = Ok s" and s: "s = accepted_conn pf now hdr sk ch t"
    and script: "server_script pf t sh ee hk ok"
  shows "server_ready sh ee [0] sk hk ok s"
proof -
  note a = accepted_script [OF script, of now hdr sk ch, folded s]
  have "sh \<noteq> []" "ee \<noteq> []" using script by (simp_all add: server_script_def)
  with a accept_ok [OF assms(1)] accepted_other_spaces [OF script s] show ?thesis
    by (simp add: server_ready_def) (simp add: get_space_eqs record_recv_pn_def set_keys_def Let_def)
qed

text \<open>The same after the client's first packet was ingested a second time.\<close>

lemma server_ready_again:
  assumes "server_ready sh ee [0] ik hk ok s"
  shows "server_ready sh ee [0, 0] ik hk ok (space_mut InitialSpace (record_recv_pn now 0) s)"
proof -
  let ?s = "space_mut InitialSpace (record_recv_pn now 0) s"
  have "conn_ok ?s"
    using assms
    by (auto simp: server_ready_def conn_ok_def get_space_eqs(1) [symmetric] get_space_mut record_recv_pn_def
        has_keys_def Let_def)
  with assms show ?thesis
    by (simp add: server_ready_def get_space_mut) (simp add: record_recv_pn_def Let_def)
qed

lemma handshake_from_connect:
  fixes pf :: "('t, 'p) platform" and pf' :: "('u, 'q) platform"
  assumes c: "connect pf name = Ok (c, packet)"
    and t: "client_new pf SkipVerify name = Inr t0" "tls_write_hs pf t0 = (ch, kc, t1)"
    and k: "client_initial_keys (pf_provider pf) (dst_cid c) = Ok ck"
      "server_initial_keys (pf_provider pf') (dst_cid c) = Ok sk"
      "keys_match (keys_local ck) (keys_remote sk)"
    and size: "length ch + sample_len (keys_local ck) + tag_len (keys_local ck) + 2000 < 2 ^ 62"
      "4 + sample_len (keys_local ck) \<le> 1100"
    and s: "server_new pf' cfg = Inr u0" "tls_read_hs pf' u0 ch = (None, u1)"
    and script: "client_script pf t1 sh ee fin hkc okc" "server_script pf' u1 sh ee hks oks"
    and flights: "flight_ok cap (keys_local sk) (keys_remote ck) sh"
      "flight_ok cap (keys_local hks) (keys_remote hkc) ee" "flight_ok cap (keys_local oks) (keys_remote okc) []"
  shows "\<exists>s p1 p2 p3 s1 s2 s3 c1 c2 c3. accept pf' now packet cfg = Ok s \<and>
     egest cap s = (Ok p1, s1) \<and> ingest pf now p1 c = (Ok (length p1), c1) \<and>
     egest cap s1 = (Ok p2, s2) \<and> ingest pf now p2 c1 = (Ok (length p2), c2) \<and>
     egest cap s2 = (Ok p3, s3) \<and> ingest pf now p3 c2 = (Ok (length p3), c3) \<and>
     p1 \<noteq> [] \<and> p2 \<noteq> [] \<and> p3 \<noteq> [] \<and> length p1 \<le> cap \<and> length p2 \<le> cap \<and> length p3 \<le> cap \<and>
     state c2 = Established \<and> sp_keys (get_space HandshakeSpace c1) = Some hkc \<and>
     sp_keys (get_space HandshakeSpace c2) = Some hkc \<and>
     client_done ck hkc okc fin c c3 \<and> server_done sk hks oks s s3 \<and> next_to_send s3 = None"
proof -
  have r: "read_hs pf' ch u0 = (Ok (), u1)" using s(2) by (simp add: read_hs_def)
  obtain hdr where a: "accept pf' now packet cfg = Ok (accepted_conn pf' now hdr sk ch u1)"
      and h: "lh_version hdr = version c" "lh_dst_cid hdr = ConnectionId (dst_cid c)"
        "lh_src_cid hdr = ConnectionId (src_cid c)" and l: "length (dst_cid c) = 8" "length (src_cid c) = 8"
    using connect_accepted [OF c t k size s(1) r, of now] by blast
  have v: "version c \<noteq> VERSION_NEGOTIATION" "tls c = t1"
    using c t by (auto elim!: connect_okD simp: VERSION_1_def VERSION_NEGOTIATION_def)
  note fields = accepted_conn_fields [of pf' now hdr sk ch u1]
  have "version (accepted_conn pf' now hdr sk ch u1) \<noteq> VERSION_NEGOTIATION"
    "length (dst_cid (accepted_conn pf' now hdr sk ch u1)) \<le> 20"
    "length (src_cid (accepted_conn pf' now hdr sk ch u1)) \<le> 20"
    using h l v by (simp_all add: fields)
  from handshake_runs [OF server_readyI [OF a refl script(2)] _ client_readyI [OF c k(1)] script(1) [folded v(2)]
      flights this, of now] a
  show ?thesis unfolding zero_acks_def by blast
qed

section \<open>Concrete connections\<close>

text \<open>The client that \<open>connect\<close> builds on the concrete platform, for the witnesses.\<close>

definition toy_client :: "nat conn" where
  "toy_client = (case connect toy_platform ''a'' of Inr (c, packet) \<Rightarrow> c | Inl e \<Rightarrow> toy_conn [])"

lemma toy_random: "random_bytes toy_platform i 8 = (Ok (replicate 8 (of_nat i)) :: (bytes, connection_error) result)"
  by (simp add: random_bytes_def toy_platform_def resize_def)

lemma toy_initial_keys:
  "client_initial_keys (pf_provider toy_platform) cid = Ok toy_keys"
  "server_initial_keys (pf_provider toy_platform) cid = Ok toy_keys"
  by (simp_all add: client_initial_keys_def server_initial_keys_def default_quic_suite_def toy_platform_def)

lemma toy_connects: "\<exists>packet. connect toy_platform ''a'' = Ok (toy_client, packet)"
proof -
  let ?r = "\<lambda>i. replicate 8 (of_nat i) :: bytes"
  obtain pkt where "build_initial_packet toy_keys (?r 0) (?r 1) [1, 2, 3] = Ok pkt"
    using initial_packet [of toy_keys toy_keys "?r 0" "?r 1" "[1, 2, 3]"] toy_match
        by (auto simp: toy_keys_def toy_dir_keys_def)
  moreover have "client_new toy_platform SkipVerify ''a'' = Inr 0" "server_name_ok toy_platform ''a''"
    "tls_write_hs toy_platform 0 = ([1, 2, 3], None, 1)"
    by (simp_all add: toy_platform_def)
  ultimately have "\<exists>c p. connect toy_platform ''a'' = Ok (c, p)"
    using toy_initial_keys by (simp add: connect_def tls_result_def toy_random Let_def)
  then show ?thesis by (auto simp: toy_client_def)
qed

lemma toy_client_eq: "toy_client = \<lparr>side = Client, state = Connecting, tls = 1, version = VERSION_1,
     dst_cid = replicate 8 0, src_cid = replicate 8 1,
     initial_space = (toy_space InitialSpace)\<lparr>sp_next_send_pn := 1\<rparr>,
     handshake_space = space_new HandshakeSpace, appdata_space = space_new ApplicationData,
     pending_crypto = [[], [], []], crypto_recv_offset = [0, 0, 0],
     pending_app_data = [], received_app_data = [], stream_send_offset = 0, close_reason = None\<rparr>"
proof -
  obtain packet where "connect toy_platform ''a'' = Ok (toy_client, packet)"
    using toy_connects by blast
  then show ?thesis
  proof (rule connect_okD)
    fix t0 ch kc t dcid scid k
    assume "client_new toy_platform SkipVerify ''a'' = Inr t0" "tls_write_hs toy_platform t0 = (ch, kc, t)"
      "random_bytes toy_platform 0 8 = (Ok dcid :: (bytes, connection_error) result)"
      "random_bytes toy_platform 1 8 = (Ok scid :: (bytes, connection_error) result)"
      "client_initial_keys (pf_provider toy_platform) dcid = Ok k"
      and c: "toy_client = \<lparr>side = Client, state = Connecting, tls = t, version = VERSION_1,
             dst_cid = dcid, src_cid = scid,
             initial_space = snd (next_send_pn (set_keys k (space_new InitialSpace))),
             handshake_space = space_new HandshakeSpace, appdata_space = space_new ApplicationData,
             pending_crypto = [[], [], []], crypto_recv_offset = [0, 0, 0],
             pending_app_data = [], received_app_data = [], stream_send_offset = 0,
             close_reason = None\<rparr>"
    then have "t = 1" "dcid = replicate 8 0" "scid = replicate 8 1" "k = toy_keys"
      unfolding toy_random toy_initial_keys by (auto simp: toy_platform_def)
    then show ?thesis
      unfolding c by (simp add: next_send_pn_def toy_space_def set_keys_def space_new_def)
  qed
qed

lemma toy_reachable: "reachable toy_platform toy_client"
  using toy_connects by (auto intro: reachable.connected)

lemma toy_platform_typed: "platform_typed toy_platform"
  using toy_typed
  by (auto simp: platform_typed_def tls_keys_def toy_platform_def quic_typed_def toy_keys_def split: if_splits)

text \<open>What the concrete TLS machine does, and that its flights fit a datagram.\<close>

lemma toy_tls:
  "client_new toy_platform SkipVerify ''a'' = Inr 0" "tls_write_hs toy_platform 0 = ([1, 2, 3], None, 1)"
  "server_new toy_platform (0 :: nat) = Inr 10" "tls_read_hs toy_platform 10 [1, 2, 3] = (None, 11)"
  "client_script toy_platform 1 [4, 5] [6] [9] toy_keys toy_keys"
  "server_script toy_platform 11 [4, 5] [6] toy_keys toy_keys"
  by (simp_all add: toy_platform_def client_script_def server_script_def)

lemma toy_flights:
  "keys_match (keys_local toy_keys) (keys_remote toy_keys)"
  "flight_ok 2048 (keys_local toy_keys) (keys_remote toy_keys) [4, 5]"
  "flight_ok 2048 (keys_local toy_keys) (keys_remote toy_keys) [6]"
  "flight_ok 2048 (keys_local toy_keys) (keys_remote toy_keys) []"
  "length [1, 2, 3 :: u8] + sample_len (keys_local toy_keys) + tag_len (keys_local toy_keys) + 2000 < 2 ^ 62"
  "4 + sample_len (keys_local toy_keys) \<le> 1100"
proof -
  have k: "keys_local toy_keys = toy_dir_keys" "keys_remote toy_keys = toy_dir_keys"
    "sample_len toy_dir_keys = 16" "tag_len toy_dir_keys = 16"
    by (simp_all add: toy_keys_def)
  show "keys_match (keys_local toy_keys) (keys_remote toy_keys)"
    "flight_ok 2048 (keys_local toy_keys) (keys_remote toy_keys) [4, 5]"
    "flight_ok 2048 (keys_local toy_keys) (keys_remote toy_keys) [6]"
    "flight_ok 2048 (keys_local toy_keys) (keys_remote toy_keys) []"
    "length [1, 2, 3 :: u8] + sample_len (keys_local toy_keys) + tag_len (keys_local toy_keys) + 2000 < 2 ^ 62"
    "4 + sample_len (keys_local toy_keys) \<le> 1100"
    using toy_match by (simp_all add: k flight_ok_def packet_bound_def)
qed

text \<open>The packet that carries the bytes 32, 1, 2 from the concrete connection.\<close>

definition toy_packet :: bytes where
  "toy_packet = [65, 7, 1, 10, 0, 3, 32, 1, 2] @ replicate 13 0 @ replicate 16 72"

lemma toy_sends: "fst (egest 2000 (toy_conn [32, 1, 2])) = Ok toy_packet"
  by code_simp

lemma toy_header: "\<exists>hdr i. parse_short_header toy_packet 1 = Ok (hdr, i)"
proof -
  have "is_ok (parse_short_header toy_packet 1)" by code_simp
  then show ?thesis by (auto simp: is_ok_iff)
qed

end
