(* ===== verification/Connection_Props.thy ===== *)
theory Connection_Props
  imports Connection_Handshake
begin

text \<open>
  The theorems about \<open>src/connection.rs\<close>: the state machine and its invariant, what \<open>egest\<close> and
  \<open>ingest\<close> do, application data, the handshake, and the limits that the code has.
\<close>

section \<open>The connection as a state machine\<close>

text \<open>
  C7: what holds of every connection that \<open>connect\<close> or \<open>accept\<close> built, after any sequence of
  \<open>ingest\<close>, \<open>egest\<close>, \<open>send_data\<close> and \<open>recv_data\<close>: the CRYPTO buffers and offsets have one entry for each
  of the three levels (so that indexing by level never panics), each space has its own name, the
  Initial space has keys, only a client is \<open>Connecting\<close>, only a server is \<open>Handshaking\<close>; and when the
  TLS library's keys keep the length of what they work on, so does every key of the connection.
\<close>

theorem connection_invariant:
  assumes "reachable pf c" and "platform_typed pf"
  shows "length (pending_crypto c) = 3 \<and> length (crypto_recv_offset c) = 3 \<and>
     (\<forall>i. sp_id (get_space i c) = i) \<and> has_keys (initial_space c) \<and>
     (state c = Connecting \<longrightarrow> side c = Client) \<and> (state c = Handshaking \<longrightarrow> side c = Server) \<and>
     (\<forall>i k. sp_keys (get_space i c) = Some k \<longrightarrow> keys_typed (keys_local k) \<and> keys_typed (keys_remote k))"
  using reachable_ok [OF assms(1)] reachable_typed [OF assms]
  by (simp add: conn_ok_def all_keys_typed_def quic_typed_def)

theorem connection_invariant_witness:
  "length (pending_crypto (after_call toy_platform (SendData [1, 2]) toy_client)) = 3"
  using connection_invariant [OF reachable.called [OF toy_reachable] toy_platform_typed] by blast

text \<open>
  C8: the moves of the state machine, for a connection with the invariant \<open>conn_ok\<close>, which every reachable
  connection has (see C7). A closed connection stays closed: \<open>ingest\<close> and \<open>egest\<close> return \<open>IsClosed\<close> and
  change nothing. A call that changes the state is one of these. An \<open>ingest\<close> of a packet that decrypted
  to frames closes the connection, and one of the frames is a CONNECTION_CLOSE; or it establishes a
  client, and one of them is a HANDSHAKE_DONE; or it establishes either side, one of them is a CRYPTO
  frame, and the connection gained its first keys of application data. An \<open>egest\<close> establishes a server that
  was handshaking, when it sends for the application space. \<open>send_data\<close> and \<open>recv_data\<close> never do.
\<close>

theorem connection_moves:
  assumes "conn_ok c"
  shows "(state c = Closed \<longrightarrow>
       ingest pf now buf c = (Error IsClosed, c) \<and> egest cap c = (Error IsClosed, c) \<and>
       state (after_call pf k c) = Closed) \<and>
     (state (after_call pf k c) \<noteq> state c \<longrightarrow>
       (case k of
          Ingest now buf \<Rightarrow> \<exists>i pn fs. ingest_packet buf c = Ok (i, pn, fs) \<and>
            (state (after_call pf k c) = Closed \<and> (\<exists>e t r. ConnectionClose e t r \<in> set fs) \<or>
             state (after_call pf k c) = Established \<and> side c = Client \<and> HandshakeDone \<in> set fs \<or>
             state (after_call pf k c) = Established \<and> (\<exists>off data. Crypto off data \<in> set fs) \<and>
               \<not> has_keys (appdata_space c) \<and> has_keys (appdata_space (after_call pf k c)))
        | Egest cap \<Rightarrow> side c = Server \<and> state c = Handshaking \<and> state (after_call pf k c) = Established \<and>
            next_to_send c = Some ApplicationData
        | SendData d \<Rightarrow> False
        | RecvData n \<Rightarrow> False))"
proof -
  have 1: "state (after_call pf k c) = Closed" if "state c = Closed"
    using that by (cases k) (simp_all add: ingest_def egest_def send_data_def recv_data_def Let_def)
  have 2: "side c = Server \<and> state c = Handshaking \<and> state (snd (egest cap c)) = Established \<and>
      next_to_send c = Some ApplicationData" if "state (snd (egest cap c)) \<noteq> state c" for cap
    using that by (auto simp: egest_eq [OF assms] done_part_def split: option.splits if_splits)
  show ?thesis
  proof (cases k)
    case (Ingest now' buf')
    show ?thesis
    proof (cases "state (snd (ingest pf now' buf' c)) = state c")
      case True
      then show ?thesis using 1 Ingest by (simp add: ingest_def egest_def)
    next
      case False
      then have "state c \<noteq> Closed" using 1 Ingest by auto
      obtain i pn fs where "ingest_packet buf' c = Ok (i, pn, fs)" "moved_by (set fs) c (snd (ingest pf now' buf' c))"
        using ingest_moved [OF False] by blast
      with False Ingest \<open>state c \<noteq> Closed\<close> show ?thesis by (auto simp: moved_by_def)
    qed
  qed (use 1 2 in \<open>auto simp: ingest_def egest_def send_data_def recv_data_def Let_def\<close>)
qed

text \<open>A packet with given frames for the concrete client.\<close>

lemma toy_opens:
  assumes "frames_ok fs" and "length (frames_wire fs) < 2 ^ 61"
  obtains pkt m where "ingest_packet pkt toy_client = Ok (InitialSpace, 0, fs @ replicate m Padding)" and "pkt \<noteq> []"
proof -
  have g: "get_space InitialSpace toy_client = (toy_space InitialSpace)\<lparr>sp_next_send_pn := 1\<rparr>"
    by (simp add: toy_client_eq get_space_def)
  have k: "local_keys (toy_space InitialSpace) = Some toy_dir_keys"
    "remote_keys (get_space InitialSpace toy_client) = Some toy_dir_keys"
    unfolding g by (simp_all add: toy_space_def local_keys_def remote_keys_def set_keys_def toy_keys_def)
  obtain pkt hdr i m where p: "parse_long_header pkt = Ok (hdr, i)" "lh_ty hdr = space_long_type InitialSpace"
      "decrypt_and_parse_long (get_space InitialSpace toy_client) pkt (hdr_pn_offset_long hdr) =
        Ok (0, fs @ replicate m Padding)"
    using long_packet [OF toy_match k assms(1), where v = 1 and dst = "[]" and src = "[]" and pn = 0
        and est = False and sp = InitialSpace] assms(2)
    by (auto simp: VERSION_NEGOTIATION_def toy_dir_keys_def)
  have "ingest_packet pkt toy_client = Ok (InitialSpace, 0, fs @ replicate m Padding)"
    using parse_long_bit [OF p(1)] p long_space_type [of InitialSpace]
    by (simp add: ingest_packet_def index_at_def Let_def)
  with parse_long_bit [OF p(1)] show thesis by (blast intro: that)
qed

theorem connection_moves_witness:
  "\<exists>pkt i pn fs. state (after_call toy_platform (Ingest 0 pkt) toy_client) = Established \<and>
     ingest_packet pkt toy_client = Ok (i, pn, fs) \<and> HandshakeDone \<in> set fs"
proof -
  obtain pkt m where p: "ingest_packet pkt toy_client = Ok (InitialSpace, 0, [HandshakeDone] @ replicate m Padding)"
      "pkt \<noteq> []"
    by (rule toy_opens [of "[HandshakeDone]"]) (simp_all add: frames_ok_def frames_wire_def)
  have c: "state toy_client = Connecting" "side toy_client = Client" "\<not> has_keys (appdata_space toy_client)"
    by (simp_all add: toy_client_eq space_new_def has_keys_def)
  with p have e: "state (after_call toy_platform (Ingest 0 pkt) toy_client) = Established"
    by (simp add: ingest_def process_frames_def process_quiet list_all_iff process_frame_def seqA_def)
  have "\<exists>i pn fs. ingest_packet pkt toy_client = Ok (i, pn, fs) \<and>
      (HandshakeDone \<in> set fs \<or> (\<exists>off data. Crypto off data \<in> set fs))"
    using connection_moves [OF reachable_ok [OF toy_reachable], of toy_platform 0 "[]" 0 "Ingest 0 pkt"] e c by auto
  with e p(1) show ?thesis by auto
qed

section \<open>Sending\<close>

text \<open>
  C6: \<open>egest\<close> refines a simple rule, on every connection with the invariant \<open>conn_ok\<close> (see C7) that is not
  closed. It picks the first space, in the order Initial, Handshake, application data, that has keys and
  something to say; without one it returns 0 and changes nothing. Otherwise it sends one packet with the
  space's buffered CRYPTO data, its pending acknowledgements, HANDSHAKE_DONE and the pending application
  data, in this order, under the space's next packet number. The whole state behind is given: the space
  has no pending acknowledgements and the next packet number, its CRYPTO buffer is empty, after
  HANDSHAKE_DONE the state is \<open>Established\<close>, after application data none is pending and the stream's offset
  has moved by its length, and everything else is as it was.
\<close>

theorem egest_refines:
  assumes "conn_ok c" and "state c \<noteq> Closed"
  shows "case next_to_send c of
       None \<Rightarrow> egest cap c = (Ok [], c)
     | Some i \<Rightarrow>
         egest cap c =
           (andthen (encrypt_packet (get_space i (snd (egest cap c))) i (version c) (dst_cid c) (src_cid c)
               (crypto_part i c @ ack_part i c @ done_part i (state c) c @ stream_part i (state c) c)
               (sp_next_send_pn (get_space i c)) (encoded_pn_len (sp_next_send_pn (get_space i c)))
               (state c = Established))
             (\<lambda>p. Ok (if cap < length p then [] else p)),
            (space_mut i (\<lambda>s. s\<lparr>sp_pending_acks := [], sp_next_send_pn := sp_next_send_pn s + 1\<rparr>) c)
              \<lparr>pending_crypto := (pending_crypto c)[pn_space_to_level i := []],
               state := (if done_part i (state c) c \<noteq> [] then Established else state c),
               pending_app_data := (if stream_part i (state c) c \<noteq> [] then [] else pending_app_data c),
               stream_send_offset := stream_send_offset c +
                 (if stream_part i (state c) c \<noteq> [] then of_nat (length (pending_app_data c)) else 0)\<rparr>)"
proof (cases "next_to_send c")
  case None
  with assms show ?thesis by (simp add: egest_eq)
next
  case (Some i)
  have "sent i st c = (space_mut i (\<lambda>s. s\<lparr>sp_pending_acks := [], sp_next_send_pn := sp_next_send_pn s + 1\<rparr>) c)
              \<lparr>pending_crypto := (pending_crypto c)[pn_space_to_level i := []],
               state := (if done_part i st c \<noteq> [] then Established else state c),
               pending_app_data := (if stream_part i st c \<noteq> [] then [] else pending_app_data c),
               stream_send_offset := stream_send_offset c +
                 (if stream_part i st c \<noteq> [] then of_nat (length (pending_app_data c)) else 0)\<rparr>" for st
    by (cases i) (simp_all add: sent_def collected_def take_crypto_acks_def space_mut_def take_pending_acks_def
        next_send_pn_def Let_def)
  with Some assms show ?thesis
    by (simp add: egest_eq sent_packet_def space_frames_def)
qed

theorem egest_refines_witness:
  "egest 2000 (toy_conn [32, 1, 2]) =
     (Ok toy_packet, (space_mut ApplicationData (\<lambda>s. s\<lparr>sp_next_send_pn := 1\<rparr>) (toy_conn []))\<lparr>stream_send_offset := 3\<rparr>)"
proof -
  let ?c = "toy_conn [32, 1, 2]"
  have d: "done_part ApplicationData Established ?c = []" "stream_part ApplicationData Established ?c \<noteq> []"
    by (simp_all add: done_part_def stream_part_def)
  have "snd (egest 2000 ?c) =
      (space_mut ApplicationData (\<lambda>s. s\<lparr>sp_next_send_pn := 1\<rparr>) (toy_conn []))\<lparr>stream_send_offset := 3\<rparr>"
    using egest_refines [OF toy_conn_ok, of "[32, 1, 2]" 2000] toy_next [of "[32, 1, 2]"] d
    by (auto simp: space_mut_def toy_conn_def toy_space_def set_keys_def space_new_def dest: arg_cong [where f = snd])
  then show ?thesis using toy_sends by (metis prod.collapse)
qed

text \<open>
  C5: no packet number is used twice in a space. \<open>numbers_used\<close> lists the spaces and numbers under which
  the \<open>egest\<close> calls of a run encrypt their packets: over any run of at most \<open>2 ^ 64\<close> calls from any
  reachable connection all are distinct, so that no nonce of the AEAD comes twice under one key.
\<close>

theorem packet_numbers_unique:
  assumes "reachable pf c" and "length ks \<le> 2 ^ 64"
  shows "distinct (numbers_used pf ks c) \<and>
     (\<forall>cap i n. call_uses (Egest cap) c = Some (i, n) \<longrightarrow>
        fst (egest cap c) = andthen (encrypt_packet (get_space i (sent i (state c) c)) i (version c)
            (dst_cid c) (src_cid c) (space_frames i (state c) c) n (encoded_pn_len n) (state c = Established))
          (\<lambda>p. Ok (if cap < length p then [] else p)))"
  using numbers_distinct [OF reachable_ok [OF assms(1)] assms(2), of pf] egest_eq [OF reachable_ok [OF assms(1)]]
  by (auto simp: call_uses_def sent_packet_def peeks_def split: if_splits)

theorem packet_numbers_unique_witness:
  "distinct (numbers_used toy_platform (replicate 100 (Egest 2000)) toy_client)"
  using packet_numbers_unique [OF toy_reachable, of "replicate 100 (Egest 2000)"] by simp

section \<open>Receiving\<close>

text \<open>
  C4: only authenticated packets change a connection. When \<open>ingest\<close> changes anything, the datagram held
  a payload that the AEAD authenticated under the space's own keys, it parsed as frames, and the change
  is exactly recording the packet number and processing these frames; every error before that leaves
  the connection as it was.
\<close>

theorem ingest_authenticated:
  assumes "reachable pf c" and "platform_typed pf"
    and "ingest pf now buf c = (r, c')" and "c' \<noteq> c"
  shows "\<exists>i pn fs k plaintext. remote_keys (get_space i c) = Some k \<and> authenticated k buf pn plaintext \<and>
     parse_frames plaintext = Ok fs \<and>
     c' = snd (process_frames pf fs i (space_mut i (record_recv_pn now pn) c))"
proof -
  have k: "conn_keys_typed c" using reachable_typed [OF assms(1,2)] by (rule all_keys_typed_remote)
  obtain i pn fs where "ingest_packet buf c = Ok (i, pn, fs)" "c' = processed pf now i pn fs c"
    using assms(3,4) by (rule ingest_changes)
  with ingest_packet_authenticated [OF k] show ?thesis unfolding processed_def by blast
qed


lemma toy_ping:
  "\<exists>pkt c'. ingest toy_platform 0 pkt toy_client = (Ok (length pkt), c') \<and> c' \<noteq> toy_client"
proof -
  obtain pkt m where p: "ingest_packet pkt toy_client = Ok (InitialSpace, 0, [Ping] @ replicate m Padding)" "pkt \<noteq> []"
    by (rule toy_opens [of "[Ping]"]) (simp_all add: frames_ok_def frames_wire_def)
  have "state toy_client \<noteq> Closed" by (simp add: toy_client_eq)
  with p have e: "ingest toy_platform 0 pkt toy_client =
      (Ok (length pkt), space_mut InitialSpace (record_recv_pn 0 0) toy_client)"
    by (simp add: ingest_def process_frames_def process_quiet list_all_iff process_frame_def seqA_def)
  have "sp_pending_acks (get_space InitialSpace (space_mut InitialSpace (record_recv_pn 0 0) toy_client)) \<noteq>
      sp_pending_acks (get_space InitialSpace toy_client)"
    unfolding get_space_mut by (simp add: record_recv_pn_def Let_def)
  then show ?thesis using e by metis
qed

theorem ingest_authenticated_witness:
  "\<exists>pkt i pn k plaintext. remote_keys (get_space i toy_client) = Some k \<and> authenticated k pkt pn plaintext"
proof -
  obtain pkt c' where "ingest toy_platform 0 pkt toy_client = (Ok (length pkt), c')" "c' \<noteq> toy_client"
    using toy_ping by blast
  from ingest_authenticated [OF toy_reachable toy_platform_typed this] show ?thesis by blast
qed

section \<open>Application data\<close>

text \<open>
  Application data is received as it arrived. STREAM frames put their data behind what a connection
  received (\<open>receive_stream\<close>, which is what \<open>process_frame\<close> does with one), \<open>recv_data\<close> takes from the
  front: over any interleaving of the two, what was taken followed by what is left is what was there
  followed by what arrived.
\<close>

theorem received_data_in_order:
  "process_frame pf l (Stream i off data fin) c = (Ok (), receive_stream data c) \<and>
     app_data.came_out ops c @ received_app_data (app_data.left_in ops c) =
       received_app_data c @ app_data.went_in ops"
  by (simp add: process_stream app_data.nothing_lost)

text \<open>
  C16: application data goes into packets as it was given. \<open>streams_packed\<close> lists, over any run of calls,
  the STREAM frames of stream 0 among those that \<open>egest\<close> hands to \<open>encrypt_packet\<close> (\<open>egest_frames\<close>, what
  \<open>collect_frames\<close> gives for the space that sends; the last conjunct states that \<open>egest\<close> returns just the
  encryption of these). Their data, in order, followed by what is still pending, is what was pending
  followed by the arguments of \<open>send_data\<close>, and their offsets are consecutive from the connection's
  offset. A packet that does not fit the buffer counts here although \<open>egest\<close> drops it: such data is lost
  (C32). Premise is the invariant \<open>conn_ok\<close>, which every reachable connection has (see C7).
\<close>

theorem sent_data_in_order:
  assumes "conn_ok c"
  shows "concat (map snd (streams_packed pf ks c)) @ pending_app_data (run pf ks c) =
       pending_app_data c @ data_given ks \<and>
     contiguous (stream_send_offset c) (streams_packed pf ks c) \<and>
     fst (egest cap c) = (case egest_frames c of
         None \<Rightarrow> if state c = Closed then Error IsClosed else Ok []
       | Some (i, fs) \<Rightarrow>
           andthen (encrypt_packet (get_space i (snd (egest cap c))) i (version c) (dst_cid c) (src_cid c) fs
               (sp_next_send_pn (get_space i c)) (encoded_pn_len (sp_next_send_pn (get_space i c)))
               (state c = Established))
             (\<lambda>p. Ok (if cap < length p then [] else p)))"
  using run_stream [OF assms, of pf ks]
  by (auto simp: call_streams_def egest_frames_eq egest_eq [OF assms] sent_packet_def split: option.split)

theorem sent_data_in_order_witness:
  "streams_packed toy_platform [SendData [1], Egest 2000, SendData [2, 3]] (toy_conn []) = [(0, [1])] \<and>
   pending_app_data (run toy_platform [SendData [1], Egest 2000, SendData [2, 3]] (toy_conn [])) = [2, 3]"
proof -
  let ?ks = "[SendData [1], Egest 2000, SendData [2, 3]]"
  have "streams_packed toy_platform ?ks (toy_conn []) = [(0, [1])]" by code_simp
  then show ?thesis
    using sent_data_in_order [OF toy_conn_ok, of toy_platform ?ks "[]"] by (simp del: run.simps)
qed

text \<open>
  C15: what becomes of application data. What an established connection has pending is sent by its next
  \<open>egest\<close> for the application space. At a peer that has the matching keys and a connection ID of the same
  length, at most 20, and whose largest packet number lets it decode this one, the five low bits of the
  packet's first byte decide, which are still under the mask of header protection: when they pass for a
  header (\<open>bits_pass\<close>, which 3 of 16 masks make true), \<open>ingest\<close> puts exactly this data behind what the
  peer had received; otherwise it returns \<open>ReservedBitsSet\<close>, and the peer is as it was.
\<close>

theorem stream_delivered:
  assumes "conn_ok a" and "state a = Established" and "next_to_send a = Some ApplicationData"
    and "pending_app_data a \<noteq> []" and "pending_crypto a ! 2 = []" and "conn_small a"
    and "state b \<noteq> Closed" and "length (dst_cid b) = length (dst_cid a)" and "length (dst_cid b) \<le> 20"
    and "local_keys (appdata_space a) = Some ka" and "remote_keys (appdata_space b) = Some kb" and "keys_match ka kb"
    and "n = encoded_pn_len (peeks a ApplicationData)"
    and "decode_packet_number (largest_recv_pn (appdata_space b)) (take_bit (8 * n) (peeks a ApplicationData))
        (of_nat n) = peeks a ApplicationData"
    and "egest cap a = (Ok pkt, a')" and "pkt \<noteq> []"
  shows "if bits_pass pkt
     then \<exists>b'. ingest pf now pkt b = (Ok (length pkt), b') \<and>
       received_app_data b' = received_app_data b @ pending_app_data a \<and> state b' = state b
     else ingest pf now pkt b = (Error (InPacket ReservedBitsSet), b)"
  using assms by (rule deliver)

theorem stream_delivered_witness:
  "\<exists>b. ingest toy_platform 0 toy_packet (toy_conn []) = (Ok (length toy_packet), b) \<and> received_app_data b = [32, 1, 2]"
proof -
  let ?a = "toy_conn [32, 1, 2]" and ?b = "toy_conn []"
  have k: "local_keys (appdata_space ?a) = Some toy_dir_keys" "remote_keys (appdata_space ?b) = Some toy_dir_keys"
    by (simp_all add: toy_space_def local_keys_def remote_keys_def set_keys_def toy_keys_def)
  have n: "(1 :: nat) = encoded_pn_len (peeks ?a ApplicationData)" by (simp add: peeks_def encoded_pn_len_def)
  have "decode_packet_number 0 (take_bit (8 * 1) 0) (of_nat 1) = 0"
    by (rule decode_first_pn) (simp_all add: pn_size_ok_def)
  then have pn: "decode_packet_number (largest_recv_pn (appdata_space ?b)) (take_bit (8 * 1) (peeks ?a ApplicationData))
      (of_nat 1) = peeks ?a ApplicationData"
    by (simp add: peeks_def)
  obtain a' where e: "egest 2000 ?a = (Ok toy_packet, a')" using toy_sends by (metis prod.collapse)
  have p: "toy_packet \<noteq> []" "bits_pass toy_packet" by (simp_all add: toy_packet_def bits_pass_def)
  from stream_delivered [OF toy_conn_ok _ toy_next _ _ toy_small _ _ _ k toy_match n pn e p(1), of toy_platform 0]
  show ?thesis using p(2) by auto
qed


section \<open>The handshake\<close>

text \<open>
  C1: the handshake completes. A client \<open>connect\<close>s, a server \<open>accept\<close>s its first packet, and the server
  sends three packets (Initial, Handshake, and HANDSHAKE_DONE) from a buffer of \<open>cap\<close> bytes, each ingested
  by the client: no call fails, the client is \<open>Established\<close> after the second and the server after
  sending the third, both hold the keys of application data that TLS gave them, and the client has its
  Finished to send. Assumed are the crypto provider's matching keys, what TLS does with the flights
  (\<open>client_script\<close>, \<open>server_script\<close>) and that each flight fits the buffer (\<open>flight_ok\<close>). The server
  receives nothing from the client in between: it is \<open>Established\<close> before the client's Finished.
\<close>

theorem handshake_completes:
  fixes pf :: "('t, 'p) platform" and pf' :: "('u, 'q) platform"
  assumes "connect pf name = Ok (c, packet)"
    and "client_new pf SkipVerify name = Inr t0" and "tls_write_hs pf t0 = (ch, kc, t1)"
    and "client_initial_keys (pf_provider pf) (dst_cid c) = Ok ck"
    and "server_initial_keys (pf_provider pf') (dst_cid c) = Ok sk"
    and "keys_match (keys_local ck) (keys_remote sk)"
    and "length ch + sample_len (keys_local ck) + tag_len (keys_local ck) + 2000 < 2 ^ 62"
    and "4 + sample_len (keys_local ck) \<le> 1100"
    and "server_new pf' cfg = Inr u0" and "tls_read_hs pf' u0 ch = (None, u1)"
    and "client_script pf t1 sh ee fin hkc okc" and "server_script pf' u1 sh ee hks oks"
    and "flight_ok cap (keys_local sk) (keys_remote ck) sh" and "flight_ok cap (keys_local hks) (keys_remote hkc) ee"
    and "flight_ok cap (keys_local oks) (keys_remote okc) []"
  shows "\<exists>s p1 p2 p3 s1 s2 s3 c1 c2 c3. accept pf' now packet cfg = Ok s \<and>
     egest cap s = (Ok p1, s1) \<and> ingest pf now p1 c = (Ok (length p1), c1) \<and>
     egest cap s1 = (Ok p2, s2) \<and> ingest pf now p2 c1 = (Ok (length p2), c2) \<and>
     egest cap s2 = (Ok p3, s3) \<and> ingest pf now p3 c2 = (Ok (length p3), c3) \<and>
     p1 \<noteq> [] \<and> p2 \<noteq> [] \<and> p3 \<noteq> [] \<and>
     state c2 = Established \<and> state c3 = Established \<and> state s3 = Established \<and>
     pending_crypto c3 = [[], fin, []] \<and>
     sp_keys (get_space ApplicationData c3) = Some okc \<and> sp_keys (get_space ApplicationData s3) = Some oks"
  using handshake_from_connect [OF assms, of now] unfolding client_done_def server_done_def by blast

theorem handshake_completes_witness:
  "\<exists>packet s p1 s1 p2 s2 p3 s3. accept toy_platform 0 packet (0 :: nat) = Ok s \<and>
     egest 2048 s = (Ok p1, s1) \<and> egest 2048 s1 = (Ok p2, s2) \<and> egest 2048 s2 = (Ok p3, s3) \<and>
     p1 \<noteq> [] \<and> p2 \<noteq> [] \<and> p3 \<noteq> [] \<and> state s3 = Established"
proof -
  obtain packet where c: "connect toy_platform ''a'' = Ok (toy_client, packet)" using toy_connects by blast
  from handshake_completes [OF c toy_tls(1,2) toy_initial_keys toy_flights(1,5,6) toy_tls(3-6) toy_flights(2-4), of 0]
  show ?thesis by blast
qed

section \<open>Limits of the code\<close>

text \<open>
  C37: what an ACK frame says. \<open>egest\<close> acknowledges the pending packet numbers of a space with one range
  that ends at the largest and is as long as the list: the frame acknowledges exactly the pending
  numbers if and only if these are distinct and form an interval. After a gap or a duplicate it
  acknowledges packets that never arrived.
\<close>

theorem ack_frame_exact:
  assumes "acks \<noteq> []" and "length acks < 2 ^ 62"
  shows "acked (ack_frame acks) = (int \<circ> unat) ` set acks \<longleftrightarrow>
     distinct acks \<and> (\<exists>lo. (int \<circ> unat) ` set acks = {lo .. int (unat (fold max acks 0))})"
  using assms by (rule ack_exact)

theorem ack_frame_exact_witness:
  "acked (ack_frame [3, 5, 4]) = {3, 4, 5} \<and> acked (ack_frame [0, 2]) \<noteq> {0, 2}"
proof -
  have "{3, 5, 4} = {3 .. 5 :: int}" by auto
  moreover have "{0, 2} \<noteq> {lo .. 2 :: int}" for lo
  proof
    assume e: "{0, 2} = {lo .. 2 :: int}"
    have "0 \<in> {lo .. 2}" "1 \<notin> {lo .. 2}" unfolding e [symmetric] by simp_all
    then show False by simp
  qed
  ultimately show ?thesis
    using ack_frame_exact [of "[3, 5, 4]"] ack_frame_exact [of "[0, 2]"] by (auto simp: insert_commute)
qed

text \<open>
  C38: short headers are parsed before header protection is removed. A datagram whose first byte says
  short header, and whose header-protected bits happen to have one of the two reserved bits set or the
  packet number length zero, is rejected with \<open>ReservedBitsSet\<close> and changes nothing, whatever keys the
  connection holds. Header protection masks exactly these bits, so valid packets of a peer are lost
  this way.
\<close>

theorem protected_bits_rejected:
  assumes "state c \<noteq> Closed" and "buf \<noteq> []" and "buf ! 0 AND 0x80 = 0" and "buf ! 0 AND 0x40 \<noteq> 0"
    and "drop_bit 3 (buf ! 0) AND 0x03 \<noteq> 0 \<or> buf ! 0 AND 0x03 = 0"
  shows "ingest pf now buf c = (Error (InPacket ReservedBitsSet), c)"
proof -
  have "parse_short_header buf n = Error ReservedBitsSet" for n
    using assms(2-5) by (auto simp: parse_short_header_def ensure_def index_at_def Let_def)
  then show ?thesis
    using assms by (simp add: ingest_def ingest_packet_def index_at_def Let_def)
qed

theorem protected_bits_rejected_witness:
  "\<exists>pkt. fst (egest 2000 (toy_conn [1, 1, 2])) = Ok pkt \<and>
     ingest toy_platform 0 pkt (toy_conn []) = (Error (InPacket ReservedBitsSet), toy_conn [])"
proof -
  let ?pkt = "[64, 7, 1, 10, 0, 3, 1, 1, 2] @ replicate 13 0 @ replicate 16 72"
  have "fst (egest 2000 (toy_conn [1, 1, 2])) = Ok ?pkt" by code_simp
  moreover have "ingest toy_platform 0 ?pkt (toy_conn []) = (Error (InPacket ReservedBitsSet), toy_conn [])"
    using protected_bits_rejected [of "toy_conn []" ?pkt] by simp
  ultimately show ?thesis by blast
qed

text \<open>
  C39: a short datagram panics. Once a connection has the keys of application data, a datagram that passes
  \<open>parse_short_header\<close> and is shorter than the sample of header protection needs makes \<open>ingest\<close> slice
  past its end: anyone who knows the connection ID can stop the program with it.
\<close>

theorem short_datagram_panics:
  assumes "state c \<noteq> Closed" and "parse_short_header buf (length (dst_cid c)) = Ok (hdr, n)"
    and "remote_keys (appdata_space c) = Some k"
    and "length buf < 1 + length (dst_cid c) + 4 + sample_len k"
  shows "ingest pf now buf c = (Panics, c)"
proof -
  note bit = short_header_bit [OF assms(2)] and off = short_header_cid [OF assms(2)]
  have "decrypt_and_parse (appdata_space c) buf (1 + length (dst_cid c)) = Panics"
    using assms(3,4) by (simp add: decrypt_and_parse_def Let_def slice_def)
  then show ?thesis
    using bit off assms by (simp add: ingest_def ingest_packet_def index_at_def Let_def)
qed

theorem short_datagram_panics_witness:
  "ingest toy_platform 0 [0x41, 7, 0] (toy_conn []) = (Panics, toy_conn [])"
proof -
  have "is_ok (parse_short_header [0x41, 7, 0] 1)" by code_simp
  then obtain hdr i where "parse_short_header [0x41, 7, 0] (length (dst_cid (toy_conn []))) = Ok (hdr, i)"
    by (auto simp: is_ok_iff)
  then show ?thesis
    by (rule short_datagram_panics [rotated])
      (simp_all add: toy_space_def remote_keys_def set_keys_def toy_keys_def toy_dir_keys_def)
qed


text \<open>
  C40: frames are not checked against the packet they came in. Every sequence of frames without CRYPTO
  is processed alike in all three spaces: a HANDSHAKE_DONE in an Initial packet establishes a client,
  STREAM data is accepted from a Handshake packet, and a HANDSHAKE_DONE behind a CONNECTION_CLOSE
  reopens the connection.
\<close>

theorem frames_in_any_space:
  assumes "list_all (\<lambda>f. \<not> is_crypto f) fs"
  shows "process_frames pf fs i c = process_frames pf fs j c \<and>
     (side c = Client \<longrightarrow>
       process_frames pf [HandshakeDone] InitialSpace c = (Ok (), c\<lparr>state := Established\<rparr>) \<and>
       state (snd (process_frames pf [ConnectionClose e t reason, HandshakeDone] i c)) = Established)"
  using process_frames_level [OF assms, of pf "pn_space_to_level i" c "pn_space_to_level j"]
  by (simp add: process_frames_def process_frame_def seqA_def)

theorem frames_in_any_space_witness:
  "process_frames toy_platform [HandshakeDone] InitialSpace toy_client =
     (Ok (), toy_client\<lparr>state := Established\<rparr>)"
  using frames_in_any_space [of "[]" toy_platform InitialSpace toy_client InitialSpace]
  by (simp add: toy_client_eq)

text \<open>
  A second CRYPTO flight of a level is lost. Every CRYPTO frame that \<open>egest\<close> sends has offset 0; a
  peer that has already received CRYPTO data of that level drops it without an error.
\<close>

theorem later_crypto_dropped:
  assumes "Crypto off data \<in> set (space_frames i st a)" and "crypto_recv_offset b ! pn_space_to_level i \<noteq> 0"
  shows "off = 0 \<and> process_frame pf (pn_space_to_level i) (Crypto off data) b = (Ok (), b)"
proof -
  have "off = 0"
    using assms(1) by (auto simp: space_frames_def crypto_part_def ack_part_def done_part_def stream_part_def
        ack_frame_def Let_def split: if_splits)
  moreover have "pn_space_to_level i \<le> 2" by (cases i) simp_all
  ultimately show ?thesis using assms(2) by (simp add: process_frame_def process_crypto_def)
qed

theorem later_crypto_dropped_witness:
  "process_frame toy_platform 0 (Crypto 0 [5]) (toy_client\<lparr>crypto_recv_offset := [2, 0, 0]\<rparr>) =
     (Ok (), toy_client\<lparr>crypto_recv_offset := [2, 0, 0]\<rparr>)"
  using later_crypto_dropped [of 0 "[5]" InitialSpace Connecting "toy_client\<lparr>pending_crypto := [[5], [], []]\<rparr>"
      "toy_client\<lparr>crypto_recv_offset := [2, 0, 0]\<rparr>" toy_platform]
  by (simp add: space_frames_def crypto_part_def)

text \<open>
  Data that does not fit is lost. When the pending application data is at least as long as the
  buffer given to \<open>egest\<close>, the call succeeds with 0 bytes, the data is gone from the connection, and
  the offset of the stream has moved past it.
\<close>

theorem oversized_data_lost:
  assumes "conn_ok a" and "state a = Established" and "next_to_send a = Some ApplicationData"
    and "pending_app_data a \<noteq> []" and "pending_crypto a ! 2 = []" and "conn_small a"
    and "local_keys (appdata_space a) = Some ka" and "keys_typed ka"
    and "cap \<le> length (pending_app_data a)" and "egest cap a = (Ok out, a')"
  shows "out = [] \<and> pending_app_data a' = [] \<and>
     stream_send_offset a' = stream_send_offset a + of_nat (length (pending_app_data a))"
  using assms by (rule egest_oversized)

theorem oversized_data_lost_witness:
  "\<exists>a'. egest 3 (toy_conn [32, 1, 2]) = (Ok [], a') \<and> pending_app_data a' = [] \<and> stream_send_offset a' = 3"
proof -
  have "is_ok (fst (egest 3 (toy_conn [32, 1, 2])))" by code_simp
  then obtain p a' where e: "egest 3 (toy_conn [32, 1, 2]) = (Ok p, a')"
    by (metis is_ok_iff prod.collapse)
  have k: "local_keys (appdata_space (toy_conn [32, 1, 2])) = Some toy_dir_keys"
    by (simp add: toy_space_def local_keys_def set_keys_def toy_keys_def)
  from oversized_data_lost [OF toy_conn_ok _ toy_next _ _ toy_small k toy_typed _ e] e show ?thesis by simp
qed

end
