(* ===== verification/Runtime.thy ===== *)
theory Runtime
  imports Connection
begin

text \<open>
  \<open>src/runtime.rs\<close>: the trait \<open>Backend\<close> as a record of its methods, \<open>Endpoint\<close> with its event loop, the
  loops that drive a handshake, the epoll backend over a parameter for the operating system, and the
  two constructors over epoll. Loops that need not end are partial functions into \<open>option\<close>.
\<close>

section \<open>The backend\<close>

text \<open>
  The trait \<open>Backend\<close>, with a state of type \<open>'b\<close>. \<open>recv\<close> fills the front of the buffer it is given and
  returns the number of bytes and the sender's address (IP and port). The program looks at an
  \<open>io::Error\<close> only to tell \<open>WouldBlock\<close> and \<open>Interrupted\<close> from the rest.
\<close>

datatype io_error = WouldBlock | Interrupted | NotConnected | OtherIo

type_synonym socket_addr = "bytes \<times> nat"

record 'b backend =
  be_send :: "bytes \<Rightarrow> 'b \<Rightarrow> (io_error + nat) \<times> 'b"
  be_recv :: "bytes \<Rightarrow> 'b \<Rightarrow> (io_error + (nat \<times> socket_addr)) \<times> bytes \<times> 'b"
  be_poll :: "int \<Rightarrow> 'b \<Rightarrow> (io_error + bool) \<times> 'b"
  be_peer_addr :: "'b \<Rightarrow> socket_addr option"

section \<open>Endpoint\<close>

record ('t, 'b) endpoint =
  ep_conn :: "'t conn"
  ep_backend :: 'b
  ep_send_buf :: bytes
  ep_recv_buf :: bytes

definition MAX_DGRAM :: nat where
  "MAX_DGRAM = 2048"

definition endpoint_new :: "'t conn \<Rightarrow> 'b \<Rightarrow> ('t, 'b) endpoint" where
  "endpoint_new c b = \<lparr>ep_conn = c, ep_backend = b, ep_send_buf = replicate MAX_DGRAM 0,
     ep_recv_buf = replicate MAX_DGRAM 0\<rparr>"

text \<open>
  A method that may not return has an optional result: \<open>None\<close> is a loop that never ends. The time is
  taken to stand still during a call (it is recorded and never read).
\<close>

text \<open>The error that hides every failure of the backend.\<close>

abbreviation (input) io_failed :: "('a, connection_error) result" where
  "io_failed \<equiv> Error (Transport InternalError)"

text \<open>
  \<open>flush_egress\<close>: \<open>egest\<close> writes to the front of the send buffer, and what it wrote is sent, until it
  writes nothing.
\<close>

partial_function (option) flush_egress :: "'b backend \<Rightarrow> ('t, 'b) endpoint \<Rightarrow> ((unit, connection_error) result \<times> ('t,
    'b) endpoint) option" where
  "flush_egress B ep =
     (case egest (length (ep_send_buf ep)) (ep_conn ep) of
        (Inl e, c) \<Rightarrow> Some (Inl e, ep\<lparr>ep_conn := c\<rparr>)
      | (Inr packet, c) \<Rightarrow>
          let n = length packet;
              ep = ep\<lparr>ep_conn := c, ep_send_buf := packet @ drop n (ep_send_buf ep)\<rparr> in
          if n = 0 then Some (Ok (), ep)
          else case be_send B (take n (ep_send_buf ep)) (ep_backend ep) of
            (Inl e, b) \<Rightarrow> Some (io_failed, ep\<lparr>ep_backend := b\<rparr>)
          | (Inr m, b) \<Rightarrow> flush_egress B (ep\<lparr>ep_backend := b\<rparr>))"

text \<open>The loop of \<open>step\<close> that receives and ingests until there is no more data.\<close>

partial_function (option) recv_loop :: "('t, 'c) platform \<Rightarrow> 'b backend \<Rightarrow> nat \<Rightarrow> ('t, 'b) endpoint \<Rightarrow>
    ((unit, connection_error) result \<times> ('t, 'b) endpoint) option" where
  "recv_loop pf B now ep =
     (case be_recv B (ep_recv_buf ep) (ep_backend ep) of
        (Inl e, buf, b) \<Rightarrow> Some (Ok (), ep\<lparr>ep_recv_buf := buf, ep_backend := b\<rparr>)
      | (Inr (n, addr), buf, b) \<Rightarrow>
          let ep = ep\<lparr>ep_recv_buf := buf, ep_backend := b\<rparr> in
          if n = 0 then Some (Ok (), ep)
          else case slice buf 0 n of
            Inl e \<Rightarrow> Some (Inl e, ep)
          | Inr d \<Rightarrow> (case ingest pf now d (ep_conn ep) of
                (Inl e, c) \<Rightarrow> Some (Inl e, ep\<lparr>ep_conn := c\<rparr>)
              | (Inr k, c) \<Rightarrow> recv_loop pf B now (ep\<lparr>ep_conn := c\<rparr>)))"

definition step ::
  "('t, 'c) platform \<Rightarrow> 'b backend \<Rightarrow> nat \<Rightarrow> int \<Rightarrow> ('t, 'b) endpoint \<Rightarrow> ((bool, connection_error) result \<times> ('t,
    'b) endpoint) option" where
  "step pf B now timeout_ms ep =
     (case be_poll B timeout_ms (ep_backend ep) of
        (Inl e, b) \<Rightarrow> Some (io_failed, ep\<lparr>ep_backend := b\<rparr>)
      | (Inr worked, b) \<Rightarrow>
          let ep = ep\<lparr>ep_backend := b\<rparr> in
          Option.bind (if worked then recv_loop pf B now ep else Some (Ok (), ep)) (\<lambda>(r, ep).
          case r of
            Inl e \<Rightarrow> Some (Inl e, ep)
          | Inr _ \<Rightarrow> Option.bind (flush_egress B ep) (\<lambda>(r, ep). Some (andthen r (\<lambda>_. Ok worked), ep))))"


text \<open>\<open>while !is_established() { .. }\<close>, from iteration \<open>iterations\<close> on; \<open>clock\<close> gives the time of each step.\<close>

function handshake_loop ::
  "('t, 'c) platform \<Rightarrow> 'b backend \<Rightarrow> (nat \<Rightarrow> nat) \<Rightarrow> nat \<Rightarrow> ('t, 'b) endpoint \<Rightarrow>
     ((unit, connection_error) result \<times> ('t, 'b) endpoint) option" where
  "handshake_loop pf B clock iterations ep =
     (if is_established (ep_conn ep) then Some (Ok (), ep)
      else case step pf B (clock iterations) 100 ep of
        None \<Rightarrow> None
      | Some (Inl e, ep) \<Rightarrow> Some (Inl e, ep)
      | Some (Inr worked, ep) \<Rightarrow>
          if iterations + 1 > 1000 then Some (io_failed, ep)
          else handshake_loop pf B clock (iterations + 1) ep)"
  by pat_completeness auto
termination
  by (relation "measure (\<lambda>(pf, B, clock, iterations, ep). 1001 - iterations)") auto

declare handshake_loop.simps [simp del]

definition handshake ::
  "('t, 'c) platform \<Rightarrow> 'b backend \<Rightarrow> (nat \<Rightarrow> nat) \<Rightarrow> ('t, 'b) endpoint \<Rightarrow>
     ((unit, connection_error) result \<times> ('t, 'b) endpoint) option" where
  "handshake pf B clock ep = handshake_loop pf B clock 0 ep"

definition send_app_data ::
  "'b backend \<Rightarrow> bytes \<Rightarrow> ('t, 'b) endpoint \<Rightarrow> ((unit, connection_error) result \<times> ('t, 'b) endpoint) option" where
  "send_app_data B data ep = flush_egress B (ep\<lparr>ep_conn := send_data data (ep_conn ep)\<rparr>)"

text \<open>\<open>let _ = self.step(0)\<close> drops an error, not a panic.\<close>

definition recv_app_data ::
  "('t, 'c) platform \<Rightarrow> 'b backend \<Rightarrow> nat \<Rightarrow> nat \<Rightarrow> ('t, 'b) endpoint \<Rightarrow>
     ((bytes, connection_error) result \<times> ('t, 'b) endpoint) option" where
  "recv_app_data pf B now cap ep = (case step pf B now 0 ep of
       None \<Rightarrow> None
     | Some (Inl Panic, ep) \<Rightarrow> Some (Panics, ep)
     | Some (_, ep) \<Rightarrow>
         (case recv_data cap (ep_conn ep) of (bs, c) \<Rightarrow> Some (Ok bs, ep\<lparr>ep_conn := c\<rparr>)))"

definition ep_is_established :: "('t, 'b) endpoint \<Rightarrow> bool" where
  "ep_is_established ep = is_established (ep_conn ep)"

section \<open>Driving two endpoints\<close>

text \<open>
  The two backends have fields of their own and act on one world of type \<open>'w\<close> (the system with the
  network between them), the second component of each backend. It is handed from step to step; what an
  endpoint holds of it between its steps is not looked at. Errors of a step are dropped, panics are not.
\<close>

definition in_world :: "'w \<Rightarrow> ('t, 'b \<times> 'w) endpoint \<Rightarrow> ('t, 'b \<times> 'w) endpoint" where
  "in_world w ep = ep\<lparr>ep_backend := (fst (ep_backend ep), w)\<rparr>"

function drive_loop ::
  "('t, 'c) platform \<Rightarrow> ('a \<times> 'w) backend \<Rightarrow> ('u, 'd) platform \<Rightarrow> ('b \<times> 'w) backend \<Rightarrow> (nat \<Rightarrow> nat) \<Rightarrow> nat \<Rightarrow> 'w \<Rightarrow>
     ('t, 'a \<times> 'w) endpoint \<Rightarrow> ('u, 'b \<times> 'w) endpoint \<Rightarrow>
     ((unit, connection_error) result \<times> ('t, 'a \<times> 'w) endpoint \<times> ('u, 'b \<times> 'w) endpoint) option" where
  "drive_loop pf A pf' B clock iterations w client server =
     (if ep_is_established client \<and> ep_is_established server then Some (Ok (), client, server)
      else if iterations > 1000 then Some (io_failed, client, server)
      else case step pf A (clock iterations) 10 (in_world w client) of
        None \<Rightarrow> None
      | Some (Inl Panic, client) \<Rightarrow> Some (Panics, client, server)
      | Some (_, client) \<Rightarrow>
          (case step pf' B (clock iterations) 10 (in_world (snd (ep_backend client)) server) of
            None \<Rightarrow> None
          | Some (Inl Panic, server) \<Rightarrow> Some (Panics, client, server)
          | Some (_, server) \<Rightarrow>
              drive_loop pf A pf' B clock (iterations + 1) (snd (ep_backend server)) client server))"
  by pat_completeness auto
termination
  by (relation "measure (\<lambda>(pf, A, pf', B, clock, iterations, w, client, server). 1001 - iterations)") auto

declare drive_loop.simps [simp del]

definition drive_handshake ::
  "('t, 'c) platform \<Rightarrow> ('a \<times> 'w) backend \<Rightarrow> ('u, 'd) platform \<Rightarrow> ('b \<times> 'w) backend \<Rightarrow> (nat \<Rightarrow> nat) \<Rightarrow> 'w \<Rightarrow>
     ('t, 'a \<times> 'w) endpoint \<Rightarrow> ('u, 'b \<times> 'w) endpoint \<Rightarrow>
     ((unit, connection_error) result \<times> ('t, 'a \<times> 'w) endpoint \<times> ('u, 'b \<times> 'w) endpoint) option" where
  "drive_handshake pf A pf' B clock w client server = drive_loop pf A pf' B clock 0 w client server"

section \<open>The epoll backend\<close>

text \<open>
  The operating system is the parameter \<open>os\<close>, with a state of type \<open>'o\<close>: the calls of \<open>UdpSocket\<close> and
  \<open>libc\<close> that the backend makes. A received datagram is copied to the front of the buffer, what does
  not fit is cut off.
\<close>

record 'o os =
  os_bind :: "socket_addr \<Rightarrow> 'o \<Rightarrow> (io_error + nat) \<times> 'o"
  os_local_addr :: "nat \<Rightarrow> 'o \<Rightarrow> (io_error + socket_addr) \<times> 'o"
  os_set_nonblocking :: "nat \<Rightarrow> 'o \<Rightarrow> (io_error + unit) \<times> 'o"
  os_send_to :: "nat \<Rightarrow> bytes \<Rightarrow> socket_addr \<Rightarrow> 'o \<Rightarrow> (io_error + nat) \<times> 'o"
  os_recv_from :: "nat \<Rightarrow> 'o \<Rightarrow> (io_error + (bytes \<times> socket_addr)) \<times> 'o"
  os_drop_socket :: "nat \<Rightarrow> 'o \<Rightarrow> 'o"
  os_epoll_create :: "'o \<Rightarrow> int \<times> 'o"
  os_epoll_add :: "int \<Rightarrow> nat \<Rightarrow> 'o \<Rightarrow> int \<times> 'o"
  os_epoll_wait :: "int \<Rightarrow> int \<Rightarrow> 'o \<Rightarrow> int \<times> 'o"
  os_close :: "int \<Rightarrow> 'o \<Rightarrow> 'o"
  os_last_error :: "'o \<Rightarrow> io_error"

record epoll_backend =
  eb_socket :: nat
  eb_epoll_fd :: int
  eb_peer :: "socket_addr option"

text \<open>
  The text of \<open>new\<close> and \<open>bind\<close>, which differ in the peer only. Every early return drops the socket
  behind it.
\<close>

definition epoll_open ::
  "'o os \<Rightarrow> socket_addr \<Rightarrow> socket_addr option \<Rightarrow> 'o \<Rightarrow> (io_error + epoll_backend) \<times> 'o" where
  "epoll_open os local_addr peer s =
     (case os_bind os local_addr s of
        (Inl e, s) \<Rightarrow> (Inl e, s)
      | (Inr socket, s) \<Rightarrow> (case os_set_nonblocking os socket s of
          (Inl e, s) \<Rightarrow> (Inl e, os_drop_socket os socket s)
        | (Inr _, s) \<Rightarrow> (case os_epoll_create os s of (epoll_fd, s) \<Rightarrow>
            if epoll_fd < 0 then (Inl (os_last_error os s), os_drop_socket os socket s)
            else case os_epoll_add os epoll_fd socket s of (rc, s) \<Rightarrow>
              if rc < 0 then
                let err = os_last_error os s; s = os_close os epoll_fd s in
                (Inl err, os_drop_socket os socket s)
              else (Inr \<lparr>eb_socket = socket, eb_epoll_fd = epoll_fd, eb_peer = peer\<rparr>, s))))"

definition epoll_new :: "'o os \<Rightarrow> socket_addr \<Rightarrow> socket_addr \<Rightarrow> 'o \<Rightarrow> (io_error + epoll_backend) \<times> 'o" where
  "epoll_new os local_addr peer s = epoll_open os local_addr (Some peer) s"

definition epoll_bind :: "'o os \<Rightarrow> socket_addr \<Rightarrow> 'o \<Rightarrow> (io_error + epoll_backend) \<times> 'o" where
  "epoll_bind os local_addr s = epoll_open os local_addr None s"

text \<open>The trait's methods, on the backend and the state of the system.\<close>

definition epoll_send :: "'o os \<Rightarrow> bytes \<Rightarrow> epoll_backend \<times> 'o \<Rightarrow> (io_error + nat) \<times> epoll_backend \<times> 'o" where
  "epoll_send os data b = (case b of (eb, s) \<Rightarrow>
     (case eb_peer eb of
        Some addr \<Rightarrow> (case os_send_to os (eb_socket eb) data addr s of (r, s) \<Rightarrow> (r, eb, s))
      | None \<Rightarrow> (Inl NotConnected, eb, s)))"

definition epoll_recv ::
  "'o os \<Rightarrow> bytes \<Rightarrow> epoll_backend \<times> 'o \<Rightarrow> (io_error + (nat \<times> socket_addr)) \<times> bytes \<times> epoll_backend \<times> 'o" where
  "epoll_recv os buf b = (case b of (eb, s) \<Rightarrow>
     (case os_recv_from os (eb_socket eb) s of
        (Inl e, s) \<Rightarrow> (Inl e, buf, eb, s)
      | (Inr (d, addr), s) \<Rightarrow>
          let n = min (length d) (length buf);
              buf = take n d @ drop n buf;
              eb = (if eb_peer eb = None then eb\<lparr>eb_peer := Some addr\<rparr> else eb) in
          (Inr (n, addr), buf, eb, s)))"

definition epoll_poll :: "'o os \<Rightarrow> int \<Rightarrow> epoll_backend \<times> 'o \<Rightarrow> (io_error + bool) \<times> epoll_backend \<times> 'o" where
  "epoll_poll os timeout_ms b = (case b of (eb, s) \<Rightarrow>
     (case os_epoll_wait os (eb_epoll_fd eb) timeout_ms s of (n, s) \<Rightarrow>
        if n < 0 then
          let err = os_last_error os s in
          if err = Interrupted then (Inr False, eb, s) else (Inl err, eb, s)
        else (Inr (n > 0), eb, s)))"

definition epoll :: "'o os \<Rightarrow> (epoll_backend \<times> 'o) backend" where
  "epoll os = \<lparr>be_send = epoll_send os, be_recv = epoll_recv os, be_poll = epoll_poll os,
     be_peer_addr = (\<lambda>(eb, s). eb_peer eb)\<rparr>"

text \<open>\<open>drop\<close>, which closes the epoll descriptor; the socket closes behind it.\<close>

definition epoll_drop :: "'o os \<Rightarrow> epoll_backend \<times> 'o \<Rightarrow> 'o" where
  "epoll_drop os b = (case b of (eb, s) \<Rightarrow> os_drop_socket os (eb_socket eb) (os_close os (eb_epoll_fd eb) s))"

section \<open>Endpoints over epoll\<close>

definition ep_client ::
  "('t, 'c) platform \<Rightarrow> 'o os \<Rightarrow> socket_addr \<Rightarrow> string \<Rightarrow> 'o \<Rightarrow>
     (('t, epoll_backend \<times> 'o) endpoint, connection_error) result \<times> 'o" where
  "ep_client pf os server_addr server_name s =
     (case connect pf server_name of
        Inl e \<Rightarrow> (Inl e, s)
      | Inr (conn, initial) \<Rightarrow>
          let local_addr = (fst server_addr, 0) in
          (case epoll_new os local_addr server_addr s of
             (Inl e, s) \<Rightarrow> (io_failed, s)
           | (Inr eb, s) \<Rightarrow> (case epoll_send os initial (eb, s) of
               (Inl e, b) \<Rightarrow> (io_failed, epoll_drop os b)
             | (Inr m, eb, s) \<Rightarrow> (Ok (endpoint_new conn (eb, s)), s))))"

text \<open>
  \<open>ep_server\<close>: a panic of \<open>ingest\<close> stays one, its errors are hidden. Every early return drops the
  backend.
\<close>

definition ep_server ::
  "('t, 'c) platform \<Rightarrow> 'o os \<Rightarrow> nat \<Rightarrow> bytes \<Rightarrow> epoll_backend \<times> 'o \<Rightarrow> 'c \<Rightarrow>
     ((('t, epoll_backend \<times> 'o) endpoint, connection_error) result \<times> 'o) option" where
  "ep_server pf os now initial_packet b server_config =
     (case accept pf now initial_packet server_config of
        Inl e \<Rightarrow> Some (Inl e, epoll_drop os b)
      | Inr conn \<Rightarrow>
          let ep = endpoint_new conn b in
          (case ingest pf now initial_packet (ep_conn ep) of
             (Inl Panic, c) \<Rightarrow> Some (Panics, epoll_drop os b)
           | (Inl (Err e), c) \<Rightarrow> Some (io_failed, epoll_drop os b)
           | (Inr k, c) \<Rightarrow> (case flush_egress (epoll os) (ep\<lparr>ep_conn := c\<rparr>) of
               None \<Rightarrow> None
             | Some (Inl e, ep) \<Rightarrow> Some (Inl e, epoll_drop os (ep_backend ep))
             | Some (Inr _, ep) \<Rightarrow> Some (Ok ep, snd (ep_backend ep)))))"

end
