(* ===== verification/Runtime_Proofs.thy ===== *)
theory Runtime_Proofs
  imports Runtime Connection_Handshake
begin

text \<open>
  Lemmas about the runtime: the contract of a backend, that flushing ends, receiving as a fold over the
  datagrams that a backend hands out, that the handshake loops end, and what happens to data larger
  than a datagram and to the server's first acknowledgement.
\<close>

section \<open>What a backend promises\<close>

text \<open>
  The contract of \<open>recv\<close>: the buffer keeps its size (a fact of its type in Rust), and no more bytes are
  reported than fit.
\<close>

locale datagram_backend =
  fixes B :: "'b backend"
  assumes recv_keeps: "be_recv B buf b = (r, buf', b') \<Longrightarrow> length buf' = length buf"
    and recv_fits: "be_recv B buf b = (Inr (n, a), buf', b') \<Longrightarrow> n \<le> length buf"
begin

text \<open>The slice of the received bytes never panics.\<close>

lemma received_slice: "be_recv B buf b = (Inr (n, a), buf', b') \<Longrightarrow> slice buf' 0 n = Ok (take n buf')"
  using recv_keeps [of buf b "Inr (n, a)" buf' b'] recv_fits [of buf b n a buf' b'] by (simp add: slice_def)

end

interpretation epoll: datagram_backend "epoll os" for os :: "'o os"
  by unfold_locales
    (auto simp: epoll_def epoll_recv_def Let_def split: prod.splits sum.splits)

section \<open>Flushing ends\<close>

definition ready :: "packet_number_space \<Rightarrow> 't conn \<Rightarrow> bool" where
  "ready i c \<longleftrightarrow> has_keys (get_space i c) \<and> space_frames i (state c) c \<noteq> []"

text \<open>How many packets \<open>egest\<close> has to send at most.\<close>

definition todo :: "'t conn \<Rightarrow> nat" where
  "todo c = length (filter (\<lambda>i. ready i c) [InitialSpace, HandshakeSpace, ApplicationData]) +
     (if state c = Handshaking then 1 else 0)"

lemma todo_le: "todo c \<le> 4"
  by (simp add: todo_def)

lemma parts_other:
  assumes "i \<noteq> j"
  shows "get_space j (sent i st c) = get_space j c" and "crypto_part j (sent i st c) = crypto_part j c"
    and "ack_part j (sent i st c) = ack_part j c"
proof -
  have "pn_space_to_level i \<noteq> pn_space_to_level j" using assms by (cases i; cases j) simp_all
  moreover have "pending_crypto (sent i st c) = (pending_crypto c)[pn_space_to_level i := []]" by (simp add: sent_def)
  ultimately show "crypto_part j (sent i st c) = crypto_part j c" by (simp add: crypto_part_def)
  show "get_space j (sent i st c) = get_space j c" using assms by (simp add: get_sent)
  then show "ack_part j (sent i st c) = ack_part j c" by (simp add: ack_part_def)
qed

lemma parts_same:
  assumes "conn_ok c"
  shows "crypto_part i (sent i st c) = []" and "ack_part i (sent i st c) = []"
proof -
  have "pn_space_to_level i < length (pending_crypto c)" using assms by (cases i) (simp_all add: conn_ok_def)
  then show "crypto_part i (sent i st c) = []" by (simp add: crypto_part_def sent_def)
  show "ack_part i (sent i st c) = []" by (simp add: ack_part_def get_sent next_send_pn_def take_pending_acks_def
      Let_def)
qed

lemma ready_other:
  assumes "i \<noteq> j"
  shows "ready j (sent i (state c) c) = ready j c"
proof (cases "i = ApplicationData")
  case True
  then have "done_part j st x = []" "stream_part j st x = []" for st and x :: "'a conn"
    using assms by (simp_all add: done_part_def stream_part_def)
  then show ?thesis using parts_other [OF assms, of "state c" c] by (simp add: ready_def space_frames_def)
next
  case False
  then have "state (sent i (state c) c) = state c" "pending_app_data (sent i (state c) c) = pending_app_data c"
    by (simp_all add: sent_out stream_part_def done_part_def)
  then have "done_part j (state c) (sent i (state c) c) = done_part j (state c) c"
    "(stream_part j (state c) (sent i (state c) c) = []) = (stream_part j (state c) c = [])"
    by (simp_all add: done_part_def stream_part_def)
  with \<open>state (sent i (state c) c) = state c\<close> show ?thesis
    using parts_other [OF assms, of "state c" c] by (simp add: ready_def space_frames_def)
qed

lemma ready_same:
  assumes "conn_ok c"
  shows "\<not> ready i (sent i (state c) c) \<or> (state c = Handshaking \<and> state (sent i (state c) c) = Established)"
proof (cases "done_part i (state c) c = []")
  case True
  then have st: "state (sent i (state c) c) = state c" by simp
  have "stream_part i (state c) (sent i (state c) c) = []"
    by (auto simp: stream_part_def sent_out)
  moreover have "done_part i (state c) (sent i (state c) c) = []" using True by (simp add: done_part_def)
  ultimately show ?thesis using st parts_same [OF assms] by (simp add: ready_def space_frames_def)
next
  case False
  then show ?thesis by (auto simp: done_part_def split: if_splits)
qed

lemma todo_sent:
  assumes c: "conn_ok c" and r: "ready i c"
  shows "todo (sent i (state c) c) < todo c"
proof -
  define c' where "c' = sent i (state c) c"
  have st: "state c' = Handshaking \<Longrightarrow> state c = Handshaking"
    unfolding c'_def sent_fields by (simp split: if_splits)
  have s: "\<not> ready i c' \<or> (state c = Handshaking \<and> state c' = Established)"
    using ready_same [OF c, of i] unfolding c'_def .
  have o: "ready j c' = ready j c" if "j \<noteq> i" for j 
    using ready_other [of i j c] that unfolding c'_def by (metis (full_types))
  have "todo c' < todo c"
  proof (cases i)
    case InitialSpace
    with o have "ready HandshakeSpace c' = ready HandshakeSpace c" "ready ApplicationData c' = ready ApplicationData c"
      by simp_all
    with InitialSpace s r st show ?thesis by (cases "state c") (auto simp: todo_def)
  next
    case HandshakeSpace
    with o have "ready InitialSpace c' = ready InitialSpace c" "ready ApplicationData c' = ready ApplicationData c"
      by simp_all
    with HandshakeSpace s r st show ?thesis by (cases "state c") (auto simp: todo_def)
  next
    case ApplicationData
    with o have "ready InitialSpace c' = ready InitialSpace c" "ready HandshakeSpace c' = ready HandshakeSpace c"
      by simp_all
    with ApplicationData s r st show ?thesis by (cases "state c") (auto simp: todo_def)
  qed
  then show ?thesis unfolding c'_def .
qed

lemma next_ready: "next_to_send c = Some i \<Longrightarrow> ready i c"
  by (auto simp: next_to_send_def ready_def split: if_splits)


lemma flush_step:
  assumes c: "conn_ok (ep_conn ep)" and st: "state (ep_conn ep) \<noteq> Closed" and n: "next_to_send (ep_conn ep) = Some i"
  shows "flush_egress B ep =
     (case sent_packet i (ep_conn ep) of
        Inl e \<Rightarrow> Some (Inl e, ep\<lparr>ep_conn := sent i (state (ep_conn ep)) (ep_conn ep)\<rparr>)
      | Inr p \<Rightarrow>
          let c = sent i (state (ep_conn ep)) (ep_conn ep);
              p = (if length (ep_send_buf ep) < length p then [] else p);
              ep' = ep\<lparr>ep_conn := c, ep_send_buf := p @ drop (length p) (ep_send_buf ep)\<rparr> in
          if p = [] then Some (Ok (), ep')
          else case be_send B p (ep_backend ep) of
            (Inl e, b) \<Rightarrow> Some (io_failed, ep'\<lparr>ep_backend := b\<rparr>)
          | (Inr m, b) \<Rightarrow> flush_egress B (ep'\<lparr>ep_backend := b\<rparr>))"
  by (subst flush_egress.simps)
    (simp add: egest_eq [OF c] st n Let_def split: sum.split)

lemma flush_stop:
  assumes c: "conn_ok (ep_conn ep)" and n: "state (ep_conn ep) = Closed \<or> next_to_send (ep_conn ep) = None"
  shows "flush_egress B ep =
     Some (if state (ep_conn ep) = Closed then Error IsClosed else Ok (), ep)"
  using n by (subst flush_egress.simps) (auto simp: egest_eq [OF c])

text \<open>What holds when a flush returned without an error: nothing is left, or the last packet did not fit.\<close>

definition flushed :: "nat \<Rightarrow> 't conn \<Rightarrow> bool" where
  "flushed cap c \<longleftrightarrow> next_to_send c = None \<or>
     (\<exists>d i p. conn_ok d \<and> next_to_send d = Some i \<and> c = sent i (state d) d \<and> sent_packet i d = Ok p \<and>
        (cap < length p \<or> p = []))"

lemma flush_returns:
  assumes "conn_ok (ep_conn ep)" and "\<And>d b. cnt (snd (be_send B d b)) \<le> cnt b + (1 :: nat)"
  shows "\<exists>r ep'. flush_egress B ep = Some (r, ep') \<and> conn_ok (ep_conn ep') \<and>
     length (ep_send_buf ep') = length (ep_send_buf ep) \<and>
     (r = Ok () \<longrightarrow> flushed (length (ep_send_buf ep)) (ep_conn ep')) \<and>
     cnt (ep_backend ep') \<le> cnt (ep_backend ep) + todo (ep_conn ep)"
  using assms(1)
proof (induction "todo (ep_conn ep)" arbitrary: ep rule: less_induct)
  case less
  let ?c = "ep_conn ep"
  show ?case
  proof (cases "state ?c = Closed \<or> next_to_send ?c = None")
    case True
    with less.prems show ?thesis by (auto simp: flush_stop flushed_def)
  next
    case False
    then obtain i where i: "state ?c \<noteq> Closed" "next_to_send ?c = Some i" by auto
    let ?c' = "sent i (state ?c) ?c"
    have smaller: "todo ?c' < todo ?c" using todo_sent [OF less.prems next_ready [OF i(2)]] .
    have ok: "conn_ok ?c'"
      using conn_ok_call [OF less.prems, of undefined "Egest 0"] i by (simp add: egest_eq [OF less.prems])
    note step = flush_step [OF less.prems i, of B]
    show ?thesis
    proof (cases "sent_packet i ?c")
      case (Inl e)
      with step ok show ?thesis by auto
    next
      case (Inr p)
      show ?thesis
      proof (cases "length (ep_send_buf ep) < length p \<or> p = []")
        case True
        then have "flushed (length (ep_send_buf ep)) ?c'"
          using Inr i(2) less.prems unfolding flushed_def by blast
        with True Inr step ok show ?thesis by (auto simp: Let_def)
      next
        case fits: False
        let ?ep = "ep\<lparr>ep_conn := ?c', ep_send_buf := p @ drop (length p) (ep_send_buf ep)\<rparr>"
        obtain r b where s: "be_send B p (ep_backend ep) = (r, b)" by fastforce
        have cnt: "cnt b \<le> cnt (ep_backend ep) + 1" using assms(2) [of p "ep_backend ep"] s by simp
        show ?thesis
        proof (cases r)
          case (Inl e)
          with fits Inr step s ok cnt smaller show ?thesis by (auto simp: Let_def)
        next
          case (Inr m)
          have "\<exists>r ep'. flush_egress B (?ep\<lparr>ep_backend := b\<rparr>) = Some (r, ep') \<and> conn_ok (ep_conn ep') \<and>
              length (ep_send_buf ep') = length (ep_send_buf (?ep\<lparr>ep_backend := b\<rparr>)) \<and>
              (r = Ok () \<longrightarrow> flushed (length (ep_send_buf (?ep\<lparr>ep_backend := b\<rparr>))) (ep_conn ep')) \<and>
              cnt (ep_backend ep') \<le> cnt (ep_backend (?ep\<lparr>ep_backend := b\<rparr>)) + todo (ep_conn (?ep\<lparr>ep_backend := b\<rparr>))"
            by (rule less.hyps) (use smaller ok in simp_all)
          then obtain r' ep' where "flush_egress B (?ep\<lparr>ep_backend := b\<rparr>) = Some (r', ep')" "conn_ok (ep_conn ep')"
              "length (ep_send_buf ep') = length (ep_send_buf ep)"
              "r' = Ok () \<longrightarrow> flushed (length (ep_send_buf ep)) (ep_conn ep')"
              "cnt (ep_backend ep') \<le> cnt b + todo ?c'"
            using fits by auto
          moreover have "flush_egress B ep = flush_egress B (?ep\<lparr>ep_backend := b\<rparr>)"
            using fits \<open>sent_packet i ?c = Inr p\<close> step s Inr by (simp add: Let_def)
          ultimately show ?thesis using cnt smaller by auto
        qed
      qed
    qed
  qed
qed


section \<open>Receiving all there is\<close>

text \<open>
  \<open>inbox B buf b ds buf' b'\<close>: the backend hands out the datagrams \<open>ds\<close>, one \<open>recv\<close> each, before it
  reports an error or nothing.
\<close>

inductive inbox :: "'b backend \<Rightarrow> bytes \<Rightarrow> 'b \<Rightarrow> bytes list \<Rightarrow> bytes \<Rightarrow> 'b \<Rightarrow> bool" for B where
  inbox_error: "be_recv B buf b = (Inl e, buf', b') \<Longrightarrow> inbox B buf b [] buf' b'"
| inbox_empty: "be_recv B buf b = (Inr (0, a), buf', b') \<Longrightarrow> inbox B buf b [] buf' b'"
| inbox_more: "be_recv B buf b = (Inr (n, a), buf', b') \<Longrightarrow> n \<noteq> 0 \<Longrightarrow> n \<le> length buf' \<Longrightarrow>
    inbox B buf' b' ds buf'' b'' \<Longrightarrow> inbox B buf b (take n buf' # ds) buf'' b''"

inductive_cases inbox_Nil: "inbox B buf b [] buf' b'"
inductive_cases inbox_Cons: "inbox B buf b (d # ds) buf' b'"

context datagram_backend
begin

lemma inbox_next:
  assumes "be_recv B buf b = (Inr (n, a), buf', b')" and "n \<noteq> 0" and "inbox B buf' b' ds buf'' b''"
  shows "inbox B buf b (take n buf' # ds) buf'' b''"
  using assms recv_keeps [of buf b "Inr (n, a)" buf' b'] recv_fits [of buf b n a buf' b']
  by (intro inbox_more) simp_all

text \<open>What was handed out fits the buffer, and so does what \<open>ingest\<close> gets.\<close>

lemma inbox_sizes: "inbox B buf b ds buf' b' \<Longrightarrow> length buf' = length buf \<and>
    list_all (\<lambda>d. d \<noteq> [] \<and> length d \<le> length buf) ds"
proof (induction rule: inbox.induct)
  case (inbox_more buf b n a buf' b' ds buf'' b'')
  then show ?case using recv_keeps [of buf b "Inr (n, a)" buf' b'] by (auto simp: list_all_iff)
qed (auto dest: recv_keeps)

end

text \<open>Datagrams ingested one after the other, until the first error.\<close>

fun ingest_all :: "('t, 'c) platform \<Rightarrow> nat \<Rightarrow> bytes list \<Rightarrow> 't conn \<Rightarrow> (unit, connection_error) result \<times> 't conn" where
  "ingest_all pf now [] c = (Ok (), c)"
| "ingest_all pf now (d # ds) c = (case ingest pf now d c of
       (Inl e, c) \<Rightarrow> (Inl e, c)
     | (Inr n, c) \<Rightarrow> ingest_all pf now ds c)"

lemma recv_all:
  assumes "inbox B (ep_recv_buf ep) (ep_backend ep) ds buf' b'"
  shows "case ingest_all pf now ds (ep_conn ep) of
      (Inr u, c') \<Rightarrow> recv_loop pf B now ep = Some (Ok (), ep\<lparr>ep_conn := c', ep_backend := b', ep_recv_buf := buf'\<rparr>)
    | (Inl e, c') \<Rightarrow> \<exists>ep'. recv_loop pf B now ep = Some (Inl e, ep') \<and> ep_conn ep' = c' \<and>
        ep_send_buf ep' = ep_send_buf ep"
  using assms
proof (induction "ep_recv_buf ep" "ep_backend ep" ds buf' b' arbitrary: ep rule: inbox.induct)
  case (inbox_more n a buf' b' ds buf'' b'')
  let ?ep = "ep\<lparr>ep_recv_buf := buf', ep_backend := b'\<rparr>"
  obtain r c where i: "ingest pf now (take n buf') (ep_conn ep) = (r, c)" by fastforce
  have s: "slice buf' 0 n = (Ok (take n buf') :: (bytes, connection_error) result)" using inbox_more(3)
      by (simp add: slice_def)
  show ?case
  proof (cases r)
    case (Inl e)
    then show ?thesis
      using inbox_more(1,2) s i by (subst recv_loop.simps) (simp add: inbox_more(1) Let_def)
  next
    case (Inr k)
    have eq: "recv_loop pf B now ep = recv_loop pf B now (?ep\<lparr>ep_conn := c\<rparr>)"
      using inbox_more(1,2) s i Inr by (subst recv_loop.simps) (simp add: inbox_more(1) Let_def)
    obtain q c' where q: "ingest_all pf now ds c = (q, c')" by fastforce
    with i Inr have "ingest_all pf now (take n buf' # ds) (ep_conn ep) = (q, c')" by simp
    then show ?thesis
      using inbox_more(5) [of "?ep\<lparr>ep_conn := c\<rparr>"] q by (cases q) (simp_all add: eq)
  qed
qed (subst recv_loop.simps, simp add: Let_def)+

lemma step_all:
  assumes p: "be_poll B timeout_ms (ep_backend ep) = (Inr True, b)"
    and i: "inbox B (ep_recv_buf ep) b ds buf' b'"
  shows "case ingest_all pf now ds (ep_conn ep) of
      (Inr u, c') \<Rightarrow> step pf B now timeout_ms ep =
        Option.bind (flush_egress B (ep\<lparr>ep_conn := c', ep_backend := b', ep_recv_buf := buf'\<rparr>))
          (\<lambda>(r, ep). Some (andthen r (\<lambda>_. Ok True), ep))
    | (Inl e, c') \<Rightarrow> \<exists>ep'. step pf B now timeout_ms ep = Some (Inl e, ep') \<and> ep_conn ep' = c' \<and>
        ep_send_buf ep' = ep_send_buf ep"
  using recv_all [of B "ep\<lparr>ep_backend := b\<rparr>" ds buf' b' pf now] i
  by (auto simp: step_def p Let_def split: prod.splits sum.splits)

section \<open>The loops over steps\<close>

text \<open>A backend that at any time runs out of datagrams.\<close>

definition drains :: "'b backend \<Rightarrow> bool" where
  "drains B \<longleftrightarrow> (\<forall>buf b. \<exists>ds buf' b'. inbox B buf b ds buf' b')"

lemma ingest_all_ok: "conn_ok c \<Longrightarrow> conn_ok (snd (ingest_all pf now ds c))"
proof (induction ds arbitrary: c)
  case (Cons d ds)
  have "conn_ok (snd (ingest pf now d c))" using conn_ok_call [OF Cons.prems, of pf "Ingest now d"] by simp
  with Cons.IH show ?case by (auto split: prod.split sum.split)
qed simp

lemma flush_some:
  assumes "conn_ok (ep_conn ep)"
  shows "\<exists>r ep'. flush_egress B ep = Some (r, ep') \<and> conn_ok (ep_conn ep')"
  using flush_returns [where cnt = "\<lambda>_. 0" and B = B, OF assms] by fastforce

lemma step_returns:
  assumes "drains B" and c: "conn_ok (ep_conn ep)"
  shows "\<exists>r ep'. step pf B now t ep = Some (r, ep') \<and> conn_ok (ep_conn ep')"
proof -
  obtain p b where p: "be_poll B t (ep_backend ep) = (p, b)" by fastforce
  obtain ds buf' b' where i: "inbox B (ep_recv_buf (ep\<lparr>ep_backend := b\<rparr>)) (ep_backend (ep\<lparr>ep_backend := b\<rparr>)) ds buf' b'"
    using assms(1) unfolding drains_def by blast
  obtain q c' where q: "ingest_all pf now ds (ep_conn ep) = (q, c')" by fastforce
  have c': "conn_ok c'" using ingest_all_ok [OF c, of pf now ds] q by simp
  consider (bad) e where "p = Inl e" | (idle) "p = Inr False" | (work) "p = Inr True" by (cases p) auto
  then show ?thesis
  proof cases
    case bad
    with p c show ?thesis by (simp add: step_def)
  next
    case idle
    with p flush_some [of "ep\<lparr>ep_backend := b\<rparr>" B] c show ?thesis by (auto simp: step_def Let_def)
  next
    case work
    show ?thesis
      using recv_all [OF i, of pf now] p work q c' flush_some [of
          "ep\<lparr>ep_conn := c', ep_backend := b', ep_recv_buf := buf'\<rparr>" B]
      by (cases q) (auto simp: step_def Let_def)
  qed
qed

lemma handshake_loop_ends:
  assumes d: "drains B" and "conn_ok (ep_conn ep)"
  shows "\<exists>r ep'. handshake_loop pf B clock iterations ep = Some (r, ep') \<and>
     (r = Ok () \<longrightarrow> is_established (ep_conn ep'))"
  using assms(2)
proof (induction "1001 - iterations" arbitrary: iterations ep rule: less_induct)
  case less
  show ?case
  proof (cases "is_established (ep_conn ep)")
    case True
    then show ?thesis by (subst handshake_loop.simps) simp
  next
    case False
    obtain r ep' where s: "step pf B (clock iterations) 100 ep = Some (r, ep')" "conn_ok (ep_conn ep')"
      using step_returns [OF d less.prems] by blast
    show ?thesis
    proof (cases r)
      case (Inl e)
      with False s show ?thesis by (subst handshake_loop.simps) simp
    next
      case (Inr w)
      show ?thesis
      proof (cases "iterations + 1 > 1000")
        case True
        with False s Inr show ?thesis by (subst handshake_loop.simps) simp
      next
        case more: False
        then have "1001 - (iterations + 1) < 1001 - iterations" by simp
        from less.hyps [OF this s(2)] False s(1) Inr more show ?thesis
          by (subst handshake_loop.simps) simp
      qed
    qed
  qed
qed

lemma in_world_conn [simp]: "ep_conn (in_world w ep) = ep_conn ep"
  by (simp add: in_world_def)

lemma drive_loop_ends:
  assumes d: "drains A" "drains B" and "conn_ok (ep_conn c)" "conn_ok (ep_conn s)"
  shows "\<exists>r c' s'. drive_loop pf A pf' B clock iterations w c s = Some (r, c', s') \<and>
     (r = Ok () \<longrightarrow> ep_is_established c' \<and> ep_is_established s')"
  using assms(3,4)
proof (induction "1001 - iterations" arbitrary: iterations w c s rule: less_induct)
  case less
  obtain r c' where 1: "step pf A (clock iterations) 10 (in_world w c) = Some (r, c')" "conn_ok (ep_conn c')"
    using step_returns [OF d(1), of "in_world w c" pf "clock iterations" 10] less.prems(1) by auto
  obtain q s' where 2: "step pf' B (clock iterations) 10 (in_world (snd (ep_backend c')) s) = Some (q, s')"
      "conn_ok (ep_conn s')"
    using step_returns [OF d(2), of "in_world (snd (ep_backend c')) s" pf' "clock iterations" 10] less.prems(2) by auto
  have more: "\<exists>r c'' s''. drive_loop pf A pf' B clock (iterations + 1) (snd (ep_backend s')) c' s' =
      Some (r, c'', s'') \<and>
      (r = Ok () \<longrightarrow> ep_is_established c'' \<and> ep_is_established s'')" if "\<not> iterations > 1000"
    using that 1(2) 2(2) by (intro less.hyps) simp_all
  show ?case
  proof (cases "(ep_is_established c \<and> ep_is_established s) \<or> iterations > 1000 \<or> r = Inl Panic \<or> q = Inl Panic")
    case True
    then show ?thesis
      by (subst drive_loop.simps) (auto simp: 1 2 split: sum.split fail.split)
  next
    case False
    have "drive_loop pf A pf' B clock iterations w c s =
        drive_loop pf A pf' B clock (iterations + 1) (snd (ep_backend s')) c' s'"
      using False by (subst drive_loop.simps) (auto simp: 1 2 split: sum.split fail.split)
    with more False show ?thesis by simp
  qed
qed

lemma handshake_aborts:
  assumes "state (ep_conn ep) \<noteq> Established" and p: "be_poll B 100 (ep_backend ep) = (Inr True, b)"
    and i: "inbox B (ep_recv_buf ep) b ds buf' b'" and e: "fst (ingest_all pf (clock 0) ds (ep_conn ep)) = Inl e"
  shows "\<exists>ep'. handshake pf B clock ep = Some (Inl e, ep')"
proof -
  obtain c' where "ingest_all pf (clock 0) ds (ep_conn ep) = (Inl e, c')" using e by (metis prod.collapse)
  with step_all [OF p i, of pf "clock 0"] obtain ep' where "step pf B (clock 0) 100 ep = Some (Inl e, ep')" by auto
  with assms(1) show ?thesis
    unfolding handshake_def by (subst handshake_loop.simps) (simp add: is_established_def)
qed

section \<open>Data larger than a datagram\<close>

lemma idle_app:
  assumes "next_to_send c = None" and "has_keys (get_space ApplicationData c)"
  shows "crypto_part ApplicationData c = []" and "ack_part ApplicationData c = []"
    and "pending_crypto c ! 2 = []"
  using assms
  by (auto simp: next_to_send_def space_frames_def crypto_part_def Let_def split: if_splits)

lemma send_data_parts [simp]:
  "get_space i (send_data d c) = get_space i c" "crypto_part i (send_data d c) = crypto_part i c"
  "ack_part i (send_data d c) = ack_part i c" "done_part i st (send_data d c) = done_part i st c"
  "state (send_data d c) = state c" "pending_crypto (send_data d c) = pending_crypto c"
  "pending_app_data (send_data d c) = pending_app_data c @ d"
  "stream_send_offset (send_data d c) = stream_send_offset c" "version (send_data d c) = version c"
  "dst_cid (send_data d c) = dst_cid c" "src_cid (send_data d c) = src_cid c"
  "appdata_space (send_data d c) = appdata_space c"
  by (simp_all add: send_data_def crypto_part_def ack_part_def done_part_def)

lemma next_after_send:
  assumes "state c = Established" and "next_to_send c = None" and "has_keys (get_space ApplicationData c)"
    and "d \<noteq> []"
  shows "next_to_send (send_data d c) = Some ApplicationData"
proof -
  have s: "stream_part i st x = []" if "i \<noteq> ApplicationData" for i st and x :: "'a conn"
    using that by (simp add: stream_part_def)
  show ?thesis
    using assms by (auto simp: next_to_send_def space_frames_def s stream_part_def split: if_splits)
qed

lemma app_packet_ok:
  assumes "state c = Established" and "local_keys (appdata_space c) = Some ka" and "keys_match ka kb"
    and "unat (peeks c ApplicationData) < 2 ^ 32" and "frames_ok (space_frames ApplicationData Established c)"
  obtains p where "sent_packet ApplicationData c = Ok p"
proof -
  let ?n = "encoded_pn_len (peeks c ApplicationData)"
  let ?s = "get_space ApplicationData (sent ApplicationData Established c)"
  have k: "local_keys ?s = Some ka" using assms(2) by (simp add: get_sent get_space_eqs space_defs)
  let ?r = "set_keys \<lparr>keys_local = kb, keys_remote = kb\<rparr> (space_new ApplicationData)"
  have r: "remote_keys ?r = Some kb" "largest_recv_pn ?r = 0"
    by (simp_all add: remote_keys_def set_keys_def space_new_def largest_recv_pn_def)
  have pn: "decode_packet_number (largest_recv_pn ?r) (take_bit (8 * ?n) (peeks c ApplicationData)) (of_nat ?n) =
      peeks c ApplicationData"
    unfolding r(2) by (rule decode_first_pn [OF encoded_pn_len_ok encoded_pn_len_fits [OF assms(4)]])
  show thesis
    using short_packet [OF assms(3) k r(1) assms(5) refl pn, of "version c" "dst_cid c" "src_cid c"] that assms(1)
    by (auto simp: sent_packet_def peeks_def)
qed

lemma send_too_much:
  assumes c: "conn_ok c" "state c = Established" "next_to_send c = None" "pending_app_data c = []"
    and k: "local_keys (appdata_space c) = Some ka" "keys_typed ka" "keys_match ka kb"
    and size: "unat (peeks c ApplicationData) < 2 ^ 32" "unat (stream_send_offset c) < 2 ^ 62"
    and d: "length (ep_send_buf ep) \<le> length d" "length d < 2 ^ 61" "d \<noteq> []" and e: "ep_conn ep = c"
  shows "\<exists>ep'. send_app_data B d ep = Some (Ok (), ep') \<and> ep_backend ep' = ep_backend ep \<and>
     pending_app_data (ep_conn ep') = [] \<and>
     stream_send_offset (ep_conn ep') = stream_send_offset c + of_nat (length d)"
proof -
  let ?a = "send_data d c" and ?ep = "ep\<lparr>ep_conn := send_data d c\<rparr>"
  have h: "has_keys (get_space ApplicationData c)"
    using k(1) by (auto simp: has_keys_def local_keys_def get_space_eqs)
  note idle = idle_app [OF c(3) h]
  have ok: "conn_ok ?a" using conn_ok_call [OF c(1), of undefined "SendData d"] by simp
  have nxt: "next_to_send ?a = Some ApplicationData" using next_after_send [OF c(2,3) h d(3)] .
  have fs: "space_frames ApplicationData Established ?a = [Stream 0 (stream_send_offset c) d False]"
    using idle d(3) c(4) by (simp add: space_frames_def done_part_def stream_part_def)
  have fok: "frames_ok (space_frames ApplicationData Established ?a)"
    unfolding fs using size(2) d by (simp add: frames_ok_def length_ok_def VARINT_MAX_unat)
  have ka: "local_keys (appdata_space ?a) = Some ka" using k(1) by (simp add: send_data_def)
  obtain p where p: "sent_packet ApplicationData ?a = Ok p"
    using app_packet_ok [of ?a, OF _ ka k(3) _ fok] c(2) size(1) by (auto simp: peeks_def)
  have "local_keys (get_space ApplicationData (sent ApplicationData Established ?a)) = Some ka"
    using ka by (simp add: get_sent get_space_eqs space_defs)
  then have "length (frames_wire [Stream 0 (stream_send_offset c) d False]) \<le> length p"
    using p c(2) fok unfolding fs [symmetric]
    by (intro short_packet_length [OF _ k(2)]) (auto simp: sent_packet_def)
  moreover have "length d < length (frames_wire [Stream 0 (stream_send_offset c) d False])"
    using d(3) by (simp add: frames_wire_def sized_bytes_def)
  ultimately have big: "length (ep_send_buf ep) < length p" using d(1) by simp
  let ?c' = "sent ApplicationData Established ?a"
  have "flush_egress B ?ep = Some (Ok (), ?ep\<lparr>ep_conn := ?c', ep_send_buf := ep_send_buf ep\<rparr>)"
    using flush_step [of ?ep ApplicationData B] ok nxt c(2) p big by (simp add: Let_def)
  then show ?thesis
    using d(3) c(2,4) by (simp add: send_app_data_def e sent_out stream_part_def)
qed


section \<open>The server's first acknowledgement\<close>

lemma accept_then_ingest:
  fixes pf :: "('t, 'c) platform"
  assumes k: "keys_match (keys_local ck) (keys_remote sk)" and d: "length dst \<le> 20" "length src \<le> 20"
    and size: "length ch + sample_len (keys_local ck) + tag_len (keys_local ck) + 2000 < 2 ^ 62"
      "4 + sample_len (keys_local ck) \<le> 1100"
    and ch: "ch \<noteq> []" and p: "build_initial_packet ck dst src ch = Ok packet"
    and s: "server_initial_keys (pf_provider pf) dst = Ok sk" "server_new pf cfg = Inr u0"
      "tls_read_hs pf u0 ch = (None, u1)"
  obtains hdr s s' where "s = accepted_conn pf now hdr sk ch u1"
      and "s' = space_mut InitialSpace (record_recv_pn now 0) s"
    and "accept pf now packet cfg = Ok s" and "ingest pf now packet s = (Ok (length packet), s')"
    and "lh_version hdr = VERSION_1" and "lh_dst_cid hdr = ConnectionId dst" and "lh_src_cid hdr = ConnectionId src"
    and "length packet \<le> packet_bound (keys_local ck) (length ch + 10)" and "packet \<noteq> []"
    and "next_to_send s' = Some InitialSpace" and "ack_part InitialSpace s' = [ack_frame [0, 0]]"
proof -
  obtain hdr i m where h: "parse_long_header packet = Ok (hdr, i)" "lh_ty hdr = Initial"
      "lh_dst_cid hdr = ConnectionId dst" "lh_src_cid hdr = ConnectionId src"
      "decrypt_initial packet hdr sk = Ok (Crypto 0 ch # replicate m Padding, 0)"
      "lh_version hdr = VERSION_1" "length packet \<le> packet_bound (keys_local ck) (length ch + 10)"
        "1200 \<le> length packet"
    using initial_packet_sized [OF k d size] p by auto
  define s where "s = accepted_conn pf now hdr sk ch u1"
  have "client_hello_of (Crypto 0 ch # replicate m Padding) = ch"
    by (induction m) simp_all
  moreover have "read_hs pf ch u0 = (Ok (), u1)" using s(3) by (simp add: read_hs_def)
  ultimately have a: "accept pf now packet cfg = Ok s"
    using h s(1,2) by (simp add: accept_def Let_def tls_result_def s_def)
  note f = accepted_conn_fields [of pf now hdr sk ch u1, folded s_def]
  have g: "get_space InitialSpace s = record_recv_pn now 0 (set_keys sk (space_new InitialSpace))"
    using f(6) by (simp add: get_space_eqs)
  then have "remote_keys (get_space InitialSpace s) = Some (keys_remote sk)"
    by (simp add: remote_keys_def record_recv_pn_def set_keys_def Let_def)
  then have dec: "decrypt_and_parse_long (get_space InitialSpace s) packet (hdr_pn_offset_long hdr) =
      Ok (0, [Crypto 0 ch] @ replicate m Padding)"
    using h(5) by (auto simp: decrypt_initial_def decrypt_and_parse_long_def Let_def result_dest)
  define s' where "s' = space_mut InitialSpace (record_recv_pn now 0) s"
  have ty: "lh_ty hdr = space_long_type InitialSpace" "state s \<noteq> Closed" using h(2) f(2) by simp_all
  note e = ingest_long [OF h(1) ty(1) dec ty(2), of pf now, folded s'_def]
  have "length ch < 2 ^ 62" using size(1) by simp
  then have "unat (of_nat (length ch) :: u64) = length ch" by (rule unat_of_nat_u64)
  then have n: "(of_nat (length ch) :: u64) \<noteq> 0" using ch by auto
  have "crypto_recv_offset s' ! 0 = of_nat (length ch)" using f(7) by (simp add: s'_def)
  with n have "process_frames pf [Crypto 0 ch] InitialSpace s' = (Ok (), s')"
    by (simp add: process_frames_def process_frame_def process_crypto_def seqA_def)
  then have e: "ingest pf now packet s = (Ok (length packet), s')" using e by (simp add: seqA_def)
  have g': "get_space InitialSpace s' = record_recv_pn now 0
      (record_recv_pn now 0 (set_keys sk (space_new InitialSpace)))"
    unfolding s'_def get_space_mut g by simp
  have acks: "sp_pending_acks (get_space InitialSpace s') = [0, 0]" "has_keys (get_space InitialSpace s')"
    unfolding g' by (simp_all add: record_recv_pn_def set_keys_def space_new_def has_keys_def)
  then have "next_to_send s' = Some InitialSpace" "ack_part InitialSpace s' = [ack_frame [0, 0]]"
    by (simp_all add: next_to_send_def space_frames_def ack_part_def)
  then show thesis using that [OF s_def s'_def a e h(6,3,4,7)] h(8) by fastforce
qed

lemma double_ack: "acked (ack_frame [0, 0]) = {-1, 0}"
proof -
  have "acked (ack_frame [0, 0]) = {int (unat (fold max [0, 0] (0 :: u64))) - int (length [0, 0 :: u64]) + 1 ..
      int (unat (fold max [0, 0] (0 :: u64)))}"
    by (rule acked_ack_frame) simp_all
  also have "\<dots> = {-1 .. 0}" by simp
  also have "\<dots> = {-1, 0}" by (auto simp: set_eq_iff)
  finally show ?thesis .
qed

section \<open>Endpoints that come up\<close>

text \<open>The epoll backend: the peer is learned from the first datagram and kept from then on.\<close>

lemma epoll_peer_kept:
  assumes "eb_peer (fst b) = Some a"
  shows "eb_peer (fst (snd (epoll_send os d b))) = Some a"
    and "eb_peer (fst (snd (snd (epoll_recv os buf b)))) = Some a"
    and "eb_peer (fst (snd (epoll_poll os t b))) = Some a"
  using assms
  by (auto simp: epoll_send_def epoll_recv_def epoll_poll_def Let_def split: prod.split sum.split option.split)

end
