(* ===== verification/Runtime_Props.thy ===== *)
theory Runtime_Props
  imports Runtime_Proofs
begin

text \<open>
  The theorems about \<open>src/runtime.rs\<close>, with a queue of datagrams as the concrete backend.
\<close>

section \<open>A concrete backend\<close>

text \<open>
  For the witnesses: a queue of datagrams to receive and the list of those sent. It polls ready while
  there is something to receive.
\<close>

definition toy_backend :: "(bytes list \<times> bytes list) backend" where
  "toy_backend = \<lparr>
     be_send = (\<lambda>d b. (Inr (length d), fst b, snd b @ [d])),
     be_recv = (\<lambda>buf b. case fst b of
         [] \<Rightarrow> (Inl WouldBlock, buf, b)
       | d # ds \<Rightarrow> let n = min (length d) (length buf) in
           (Inr (n, [127, 0, 0, 1], 4433), take n d @ drop n buf, ds, snd b)),
     be_poll = (\<lambda>t b. (Inr (fst b \<noteq> []), b)),
     be_peer_addr = (\<lambda>b. None)\<rparr>"

interpretation toy: datagram_backend toy_backend
  by unfold_locales (auto simp: toy_backend_def Let_def split: list.splits)

definition toy_endpoint :: "nat conn \<Rightarrow> bytes list \<Rightarrow> (nat, bytes list \<times> bytes list) endpoint" where
  "toy_endpoint c ds = endpoint_new c (ds, [])"

lemma toy_endpoint_fields [simp]:
  "ep_conn (toy_endpoint c ds) = c" "ep_backend (toy_endpoint c ds) = (ds, [])"
  "length (ep_send_buf (toy_endpoint c ds)) = 2048" "ep_recv_buf (toy_endpoint c ds) = replicate 2048 0"
  by (simp_all add: toy_endpoint_def endpoint_new_def MAX_DGRAM_def)

section \<open>Theorems\<close>

text \<open>
  C28: \<open>flush_egress\<close> always returns. On an endpoint whose connection is reachable it sends at most four
  packets (any measure of the backend that a send raises by at most one is raised by at most four); the
  connection stays well-formed and the send buffer keeps its size; and when it returns without an
  error, nothing is left to send or the last packet did not fit the buffer.
\<close>

theorem flush_ends:
  fixes cnt :: "'b \<Rightarrow> nat"
  assumes "reachable pf (ep_conn ep)" and "\<And>d b. cnt (snd (be_send B d b)) \<le> cnt b + 1"
  shows "\<exists>r ep'. flush_egress B ep = Some (r, ep') \<and> conn_ok (ep_conn ep') \<and>
     length (ep_send_buf ep') = length (ep_send_buf ep) \<and> cnt (ep_backend ep') \<le> cnt (ep_backend ep) + 4 \<and>
     (r = Ok () \<longrightarrow> flushed (length (ep_send_buf ep)) (ep_conn ep'))"
proof -
  note ok = reachable_ok [OF assms(1)]
  show ?thesis
    using flush_returns [where cnt = cnt and B = B, OF ok assms(2)] todo_le [of "ep_conn ep"] by fastforce
qed

theorem flush_ends_witness:
  "\<exists>r ep'. flush_egress toy_backend (toy_endpoint toy_client []) = Some (r, ep') \<and>
     length (snd (ep_backend ep')) \<le> 4"
proof -
  have "length (snd (snd (be_send toy_backend d b))) \<le> length (snd b) + 1" for d b
    by (simp add: toy_backend_def)
  from flush_ends [where cnt = "\<lambda>b. length (snd b)" and ep = "toy_endpoint toy_client []", simplified,
      OF toy_reachable this [simplified]]
  show ?thesis by (auto simp: toy_endpoint_def endpoint_new_def)
qed


text \<open>
  C29: one step of the event loop. When the backend polls ready and hands out the datagrams \<open>ds\<close>, \<open>step\<close>
  ingests them in order. If all are ingested it flushes; at the first error it returns this error
  instead: the datagrams behind it stay in the backend and nothing is sent.
\<close>

theorem step_outcome:
  assumes "be_poll B timeout_ms (ep_backend ep) = (Inr True, b)"
    and "inbox B (ep_recv_buf ep) b ds buf' b'"
  shows "case ingest_all pf now ds (ep_conn ep) of
      (Inr u, c') \<Rightarrow> step pf B now timeout_ms ep =
        Option.bind (flush_egress B (ep\<lparr>ep_conn := c', ep_backend := b', ep_recv_buf := buf'\<rparr>))
          (\<lambda>(r, ep). Some (andthen r (\<lambda>_. Ok True), ep))
    | (Inl e, c') \<Rightarrow> \<exists>ep'. step pf B now timeout_ms ep = Some (Inl e, ep') \<and> ep_conn ep' = c' \<and>
        ep_send_buf ep' = ep_send_buf ep"
  using assms by (rule step_all)

text \<open>Two stray datagrams of one byte in the inbox of the concrete client.\<close>

lemma toy_inbox:
  "be_poll toy_backend t ([[0], [0]], []) = (Inr True, [[0], [0]], [])"
  "inbox toy_backend (replicate 2048 0) ([[0], [0]], []) [[0], [0]] (replicate 2048 0) ([], [])"
proof -
  have r: "be_recv toy_backend (replicate 2048 0) ([0] # ds, []) =
      (Inr (1, [127, 0, 0, 1], 4433), replicate 2048 0, ds, [])" for ds
    by (simp add: toy_backend_def numeral_eq_Suc)
  have "be_recv toy_backend (replicate 2048 0) ([], []) = (Inl WouldBlock, replicate 2048 0, [], [])"
    by (simp add: toy_backend_def)
  then have "inbox toy_backend (replicate 2048 0) ([], []) [] (replicate 2048 0) ([], [])" by (rule inbox_error)
  from toy.inbox_next [OF r _ toy.inbox_next [OF r _ this]]
  show "inbox toy_backend (replicate 2048 0) ([[0], [0]], []) [[0], [0]] (replicate 2048 0) ([], [])"
    by (simp add: numeral_eq_Suc)
qed (simp add: toy_backend_def)

lemma toy_stray: "ingest toy_platform now [0] toy_client = (Error (InPacket FixedBitNotSet), toy_client)"
  by (simp add: ingest_def ingest_packet_def parse_short_header_def ensure_def index_at_def toy_client_eq Let_def)

theorem step_outcome_witness:
  "\<exists>ep'. step toy_platform toy_backend 0 100 (toy_endpoint toy_client [[0], [0]]) =
     Some (Error (InPacket FixedBitNotSet), ep')"
  using step_outcome [of toy_backend 100 "toy_endpoint toy_client [[0], [0]]", simplified, OF toy_inbox,
      of toy_platform 0]
  by (auto simp: toy_stray)

text \<open>
  C31: a stray datagram ends the handshake. When the first datagrams that arrive on an endpoint that is
  not established contain one that \<open>ingest\<close> rejects - anyone can send one, it need not be authentic -
  \<open>handshake\<close> returns that error, where RFC 9000 has such packets discarded.
\<close>

theorem stray_datagram_ends_handshake:
  assumes "state (ep_conn ep) \<noteq> Established" and "be_poll B 100 (ep_backend ep) = (Inr True, b)"
    and "inbox B (ep_recv_buf ep) b ds buf' b'" and "fst (ingest_all pf (clock 0) ds (ep_conn ep)) = Inl e"
  shows "\<exists>ep'. handshake pf B clock ep = Some (Inl e, ep')"
  using assms by (rule handshake_aborts)

theorem stray_datagram_ends_handshake_witness:
  "\<exists>ep'. handshake toy_platform toy_backend (\<lambda>i. i) (toy_endpoint toy_client [[0], [0]]) =
     Some (Error (InPacket FixedBitNotSet), ep')"
  using stray_datagram_ends_handshake [of "toy_endpoint toy_client [[0], [0]]" toy_backend, simplified,
      OF _ toy_inbox, of toy_platform "\<lambda>i. i"]
  by (simp add: toy_stray) (simp add: toy_client_eq)

text \<open>
  C30: the handshake loops end. Over backends that at any time run out of datagrams, \<open>handshake\<close> and
  \<open>drive_handshake\<close> return, after at most 1001 steps of each endpoint, and when they return without an
  error the endpoints are established.
\<close>

theorem handshake_ends:
  assumes "reachable pf (ep_conn c)" and "reachable pf' (ep_conn s)" and "drains A" and "drains B"
  shows "(\<exists>r ep'. handshake pf A clock c = Some (r, ep') \<and> (r = Ok () \<longrightarrow> ep_is_established ep')) \<and>
     (\<exists>r c' s'. drive_handshake pf A pf' B clock w c s = Some (r, c', s') \<and>
       (r = Ok () \<longrightarrow> ep_is_established c' \<and> ep_is_established s'))"
  using handshake_loop_ends [OF assms(3) reachable_ok [OF assms(1)], of pf clock 0]
    drive_loop_ends [OF assms(3,4) reachable_ok [OF assms(1)] reachable_ok [OF assms(2)], of pf pf' clock 0 w]
  by (simp add: handshake_def drive_handshake_def ep_is_established_def)

lemma toy_drains: "drains toy_backend"
proof -
  have "\<exists>ds' buf' b'. inbox toy_backend buf (ds, out) ds' buf' b'" for buf ds out
  proof (induction ds arbitrary: buf)
    case Nil
    have "be_recv toy_backend buf ([], out) = (Inl WouldBlock, buf, [], out)" by (simp add: toy_backend_def)
    then show ?case by (blast intro: inbox_error)
  next
    case (Cons d ds)
    let ?n = "min (length d) (length buf)" and ?buf =
        "take (min (length d) (length buf)) d @ drop (min (length d) (length buf)) buf"
    have r: "be_recv toy_backend buf (d # ds, out) = (Inr (?n, [127, 0, 0, 1], 4433), ?buf, ds, out)"
      by (simp add: toy_backend_def Let_def)
    obtain ds' buf' b' where i: "inbox toy_backend ?buf (ds, out) ds' buf' b'" using Cons.IH by blast
    show ?case
    proof (cases "?n = 0")
      case True
      show ?thesis using inbox_empty [OF r [unfolded True]] by blast
    next
      case False
      from toy.inbox_next [OF r False i] show ?thesis by blast
    qed
  qed
  then show ?thesis by (auto simp: drains_def)
qed

theorem handshake_ends_witness:
  "\<exists>r ep'. handshake toy_platform toy_backend (\<lambda>i. i) (toy_endpoint toy_client [[0]]) = Some (r, ep') \<and>
     (r = Ok () \<longrightarrow> ep_is_established ep')"
  using handshake_ends [of toy_platform "toy_endpoint toy_client [[0]]" toy_platform "toy_endpoint toy_client [[0]]",
      simplified, OF toy_reachable toy_drains toy_drains, of "\<lambda>i. i"] by blast


text \<open>
  C32: data larger than a datagram is lost. On an idle established connection, \<open>send_app_data\<close> of at
  least as many bytes as the send buffer has (2048 for an endpoint from \<open>new\<close>) returns success; nothing
  was sent, nothing is pending, and the stream's offset has moved past the data.
\<close>

theorem send_app_data_lost:
  assumes "conn_ok (ep_conn ep)" and "state (ep_conn ep) = Established" and "next_to_send (ep_conn ep) = None"
    and "pending_app_data (ep_conn ep) = []" and "local_keys (appdata_space (ep_conn ep)) = Some ka"
    and "keys_typed ka" and "keys_match ka kb" and "unat (peeks (ep_conn ep) ApplicationData) < 2 ^ 32"
    and "unat (stream_send_offset (ep_conn ep)) < 2 ^ 62"
    and "length (ep_send_buf ep) \<le> length d" and "length d < 2 ^ 61" and "d \<noteq> []"
  shows "\<exists>ep'. send_app_data B d ep = Some (Ok (), ep') \<and> ep_backend ep' = ep_backend ep \<and>
     pending_app_data (ep_conn ep') = [] \<and>
     stream_send_offset (ep_conn ep') = stream_send_offset (ep_conn ep) + of_nat (length d)"
  using assms refl by (rule send_too_much)

theorem send_app_data_lost_witness:
  "\<exists>ep'. send_app_data toy_backend (replicate 3000 7) (toy_endpoint (toy_conn []) []) = Some (Ok (), ep') \<and>
     snd (ep_backend ep') = [] \<and> pending_app_data (ep_conn ep') = [] \<and> stream_send_offset (ep_conn ep') = 3000"
proof -
  have "next_to_send (toy_conn []) = None"
    by (simp add: next_to_send_def space_frames_def crypto_part_def ack_part_def done_part_def stream_part_def)
  from send_app_data_lost [of "toy_endpoint (toy_conn []) []" toy_dir_keys toy_dir_keys "replicate 3000 7" toy_backend,
      simplified, OF toy_conn_ok this toy_typed toy_match]
  show ?thesis by (auto simp: peeks_def)
qed

text \<open>
  C33: the server acknowledges the client's first packet twice. \<open>accept\<close> records it, and \<open>ep_server\<close>
  ingests the same datagram again: the ACK frame that the server's first packet carries covers the
  packet numbers -1 and 0, which RFC 9000 (section 19.3.1) makes a connection error.
\<close>

theorem first_ack_wrong:
  assumes "keys_match (keys_local ck) (keys_remote sk)" and "length dst \<le> 20" and "length src \<le> 20"
    and "length ch + sample_len (keys_local ck) + tag_len (keys_local ck) + 2000 < 2 ^ 62"
    and "4 + sample_len (keys_local ck) \<le> 1100"
    and "ch \<noteq> []" and "build_initial_packet ck dst src ch = Ok packet"
    and "server_initial_keys (pf_provider pf) dst = Ok sk" and "server_new pf cfg = Inr u0"
    and "tls_read_hs pf u0 ch = (None, u1)"
  shows "\<exists>s s'. accept pf now packet cfg = Ok s \<and> ingest pf now packet s = (Ok (length packet), s') \<and>
     next_to_send s' = Some InitialSpace \<and> ack_part InitialSpace s' = [ack_frame [0, 0]] \<and>
     acked (ack_frame [0, 0]) = {-1, 0}"
  by (rule accept_then_ingest [OF assms, of now]) (use double_ack in blast)

theorem first_ack_wrong_witness:
  "\<exists>packet s s'. accept toy_platform 0 packet (0 :: nat) = Ok s \<and>
     ingest toy_platform 0 packet s = (Ok (length packet), s') \<and> ack_part InitialSpace s' = [ack_frame [0, 0]]"
proof -
  have k: "keys_match (keys_local toy_keys) (keys_remote toy_keys)"
    "length [1, 2, 3 :: u8] + sample_len (keys_local toy_keys) + tag_len (keys_local toy_keys) + 2000 < 2 ^ 62"
    "4 + sample_len (keys_local toy_keys) \<le> 1100"
    using toy_match by (simp_all add: toy_keys_def)
  have l: "length [5 :: u8] \<le> 20" "length [6 :: u8] \<le> 20" "[1, 2, 3 :: u8] \<noteq> []" by simp_all
  obtain packet where p: "build_initial_packet toy_keys [5] [6] [1, 2, 3] = Ok packet"
    using initial_packet [OF k(1) l(1,2) k(2,3)] by blast
  have t: "server_new toy_platform (0 :: nat) = Inr 10" "tls_read_hs toy_platform 10 [1, 2, 3] = (None, 11)"
    by (simp_all add: toy_platform_def)
  from first_ack_wrong [OF k(1) l(1,2) k(2,3) l(3) p toy_initial_keys(2) t, of 0] show ?thesis by blast
qed

end
