(* ===== verification/Established.thy ===== *)
theory Established
  imports Runtime_Proofs
begin

text \<open>
  Established connections: flushing one sends exactly the packets of its spaces, in order; a packet with
  a short header arrives unless its masked first byte is rejected; and what a connection sends that has
  CRYPTO data and one acknowledgement for each space, as both sides do at the end of a handshake.
\<close>

section \<open>Flushing an established connection\<close>

text \<open>An established connection whose packets can all be built and fit a buffer of \<open>cap\<close> bytes.\<close>

definition sendable :: "nat \<Rightarrow> 't conn \<Rightarrow> bool" where
  "sendable cap c \<longleftrightarrow> conn_ok c \<and> state c = Established \<and>
     (\<forall>i. ready i c \<longrightarrow> (\<exists>p. sent_packet i c = Ok p \<and> p \<noteq> [] \<and> length p \<le> cap))"

text \<open>The packets it will send, space by space.\<close>

definition all_spaces :: "packet_number_space list" where
  "all_spaces = [InitialSpace, HandshakeSpace, ApplicationData]"

definition outbox :: "'t conn \<Rightarrow> bytes list" where
  "outbox c = map (\<lambda>i. projr (sent_packet i c)) (filter (\<lambda>i. ready i c) all_spaces)"

lemma next_is_find: "next_to_send c = find (\<lambda>i. ready i c) all_spaces"
  by (simp add: next_to_send_def ready_def all_spaces_def)

lemma frames_other:
  assumes "i \<noteq> j" and "state c = Established"
  shows "space_frames j Established (sent i Established c) = space_frames j Established c"
proof -
  have "done_part k Established x = []" for k and x :: "'a conn" by (simp add: done_part_def)
  moreover have "stream_part j Established (sent i Established c) = stream_part j Established c"
    using assms by (auto simp: stream_part_def sent_out)
  ultimately show ?thesis using parts_other [OF assms(1), of Established c] by (simp add: space_frames_def)
qed

lemma packet_other:
  assumes "i \<noteq> j" and "state c = Established"
  shows "sent_packet j (sent i Established c) = sent_packet j c"
proof -
  have "state (sent i Established c) = Established" using assms(2) by (simp add: done_part_def)
  then show ?thesis
    using assms by (simp add: sent_packet_def frames_other get_sent)
qed

lemma sent_not_ready:
  assumes "conn_ok c" and "state c = Established"
  shows "\<not> ready i (sent i Established c)"
  using ready_same [OF assms(1), of i] assms(2) by simp

lemma sent_sendable:
  assumes "sendable cap c" and "next_to_send c = Some i"
  shows "sendable cap (sent i Established c)"
proof -
  have c: "conn_ok c" "state c = Established" using assms(1) by (simp_all add: sendable_def)
  have "conn_ok (sent i Established c)"
    using conn_ok_call [OF c(1), of undefined "Egest 0"] c assms(2) by (simp add: egest_eq [OF c(1)])
  moreover have "\<exists>p. sent_packet j (sent i Established c) = Ok p \<and> p \<noteq> [] \<and> length p \<le> cap"
    if r: "ready j (sent i Established c)" for j
  proof -
    have "i \<noteq> j" using r sent_not_ready [OF c] by auto
    moreover have "ready j c" using ready_other [OF \<open>i \<noteq> j\<close>, of c] r c(2) by simp
    ultimately show ?thesis using assms(1) c(2) by (simp add: packet_other sendable_def)
  qed
  ultimately show ?thesis using c(2) by (simp add: sendable_def)
qed

lemma sent_outbox:
  assumes "sendable cap c" and "next_to_send c = Some i"
  shows "outbox c = projr (sent_packet i c) # outbox (sent i Established c)"
proof -
  have c: "conn_ok c" "state c = Established" using assms(1) by (simp_all add: sendable_def)
  let ?c = "sent i Established c"
  have r: "ready i c" "\<not> ready i ?c" using next_ready [OF assms(2)] sent_not_ready [OF c] by simp_all
  have o: "ready j ?c = ready j c" "sent_packet j ?c = sent_packet j c" if "j \<noteq> i" for j
    using ready_other [of i j c] packet_other [of i j c] that c(2) by auto
  have first: "i = InitialSpace \<or> (\<not> ready InitialSpace c \<and> (i = HandshakeSpace \<or> \<not> ready HandshakeSpace c))"
    using assms(2) by (auto simp: next_is_find all_spaces_def split: if_splits)
  show ?thesis
  proof (cases i)
    case InitialSpace
    with r o [of HandshakeSpace] o [of ApplicationData] show ?thesis by (simp add: outbox_def all_spaces_def)
  next
    case HandshakeSpace
    with r o [of InitialSpace] o [of ApplicationData] first show ?thesis by (simp add: outbox_def all_spaces_def)
  next
    case ApplicationData
    with r o [of InitialSpace] o [of HandshakeSpace] first show ?thesis by (simp add: outbox_def all_spaces_def)
  qed
qed

lemma outbox_idle: "next_to_send c = None \<Longrightarrow> outbox c = []"
  by (simp add: next_is_find find_None_iff outbox_def filter_empty_conv)

text \<open>The backend after it was handed the packets \<open>ps\<close>; that it takes them all.\<close>

fun after_sends :: "'b backend \<Rightarrow> bytes list \<Rightarrow> 'b \<Rightarrow> 'b" where
  "after_sends B [] b = b"
| "after_sends B (p # ps) b = after_sends B ps (snd (be_send B p b))"

fun takes :: "'b backend \<Rightarrow> bytes list \<Rightarrow> 'b \<Rightarrow> bool" where
  "takes B [] b \<longleftrightarrow> True"
| "takes B (p # ps) b \<longleftrightarrow> (\<exists>n. fst (be_send B p b) = Inr n) \<and> takes B ps (snd (be_send B p b))"

text \<open>One turn of the loop.\<close>

lemma flush_one:
  assumes "egest (length (ep_send_buf ep)) (ep_conn ep) = (Ok p, c)" and "p \<noteq> []"
    and "be_send B p (ep_backend ep) = (Inr n, b)"
  shows "flush_egress B ep =
     flush_egress B (ep\<lparr>ep_conn := c, ep_send_buf := p @ drop (length p) (ep_send_buf ep), ep_backend := b\<rparr>)"
  using assms by (subst flush_egress.simps) (simp add: Let_def)

text \<open>What flushing leaves: everything was sent, in order.\<close>

lemma flush_all:
  assumes "sendable (length (ep_send_buf ep)) (ep_conn ep)" and "takes B (outbox (ep_conn ep)) (ep_backend ep)"
  shows "\<exists>ep'. flush_egress B ep = Some (Ok (), ep') \<and> ep_backend ep' = after_sends B (outbox (ep_conn ep))
      (ep_backend ep) \<and>
     sendable (length (ep_send_buf ep)) (ep_conn ep') \<and> next_to_send (ep_conn ep') = None \<and>
     ep_recv_buf ep' = ep_recv_buf ep \<and> length (ep_send_buf ep') = length (ep_send_buf ep) \<and>
     received_app_data (ep_conn ep') = received_app_data (ep_conn ep) \<and> same_peer (ep_conn ep) (ep_conn ep') \<and>
     (\<forall>i. sp_keys (get_space i (ep_conn ep')) = sp_keys (get_space i (ep_conn ep)))"
  using assms
proof (induction "todo (ep_conn ep)" arbitrary: ep rule: less_induct)
  case less
  let ?c = "ep_conn ep" and ?n = "length (ep_send_buf ep)"
  have c: "conn_ok ?c" "state ?c = Established" using less.prems(1) by (simp_all add: sendable_def)
  show ?case
  proof (cases "next_to_send ?c")
    case None
    with less.prems c show ?thesis by (simp add: flush_stop outbox_idle)
  next
    case (Some i)
    define c' where "c' = sent i Established ?c"
    obtain p where p: "sent_packet i ?c = Ok p" "p \<noteq> []" "length p \<le> ?n"
      using less.prems(1) next_ready [OF Some] by (auto simp: sendable_def)
    have out: "outbox ?c = p # outbox c'" using sent_outbox [OF less.prems(1) Some] p(1) by (simp add: c'_def)
    obtain m b where s: "be_send B p (ep_backend ep) = (Inr m, b)" and t: "takes B (outbox c') b"
      using less.prems(2) unfolding out by (cases "be_send B p (ep_backend ep)") auto
    define ep1 where "ep1 = ep\<lparr>ep_conn := c', ep_send_buf := p @ drop (length p) (ep_send_buf ep), ep_backend := b\<rparr>"
    have e: "egest ?n ?c = (Ok p, c')" using p Some c by (simp add: egest_eq c'_def)
    have 1: "flush_egress B ep = flush_egress B ep1" unfolding ep1_def by (rule flush_one [OF e p(2) s])
    have n: "length (ep_send_buf ep1) = ?n" using p(3) by (simp add: ep1_def)
    have "todo (ep_conn ep1) < todo ?c"
      using todo_sent [OF c(1) next_ready [OF Some]] c(2) by (simp add: ep1_def c'_def)
    moreover have "sendable (length (ep_send_buf ep1)) (ep_conn ep1)" unfolding n
      using sent_sendable [OF less.prems(1) Some] by (simp add: ep1_def c'_def)
    moreover have "takes B (outbox (ep_conn ep1)) (ep_backend ep1)" using t by (simp add: ep1_def)
    ultimately obtain ep' where f: "flush_egress B ep1 = Some (Ok (), ep')"
        "ep_backend ep' = after_sends B (outbox (ep_conn ep1)) (ep_backend ep1)"
        "sendable ?n (ep_conn ep')" "next_to_send (ep_conn ep') = None"
        "ep_recv_buf ep' = ep_recv_buf ep1" "length (ep_send_buf ep') = ?n"
        "received_app_data (ep_conn ep') = received_app_data (ep_conn ep1)" "same_peer (ep_conn ep1) (ep_conn ep')"
        "\<And>i. sp_keys (get_space i (ep_conn ep')) = sp_keys (get_space i (ep_conn ep1))"
      using less.hyps [of ep1] n by auto
    have "same_peer ?c (ep_conn ep1)" by (simp add: ep1_def c'_def sent_same_peer)
    with f(8) have "same_peer ?c (ep_conn ep')" by (rule same_peer_trans [rotated])
    with f show ?thesis unfolding 1 out
      by (intro exI [of _ ep']) (simp add: s ep1_def c'_def sent_space)
  qed
qed

section \<open>A packet with a short header\<close>

lemma short_sent:
  fixes a :: "'t conn" and b :: "'u conn"
  assumes st: "state a = Established" "state b \<noteq> Closed" and cid: "length (dst_cid b) = length (dst_cid a)"
    and k: "local_keys (get_space ApplicationData a) = Some ka" "remote_keys (get_space ApplicationData b) = Some kb"
      "keys_match ka kb"
    and fs: "frames_ok (space_frames ApplicationData Established a)" and n:
        "n = encoded_pn_len (peeks a ApplicationData)"
    and pn: "decode_packet_number (largest_recv_pn (get_space ApplicationData b))
        (take_bit (8 * n) (peeks a ApplicationData)) (of_nat n) = peeks a ApplicationData"
  obtains pkt where "pkt \<noteq> []" and "sent_packet ApplicationData a = Ok pkt"
    and "length pkt \<le> length (dst_cid a) +
      packet_bound ka (length (frames_wire (space_frames ApplicationData Established a)))"
    and "\<And>(pf :: ('u, 'c) platform) now. ingest pf now pkt b =
      (case parse_short_header pkt (length (dst_cid b)) of
         Inl e \<Rightarrow> (map_err InPacket (Inl e), b)
       | Inr h \<Rightarrow> seqA (process_frames pf (space_frames ApplicationData Established a) ApplicationData)
           (\<lambda>_. returnA (length pkt))
           (space_mut ApplicationData (record_recv_pn now (peeks a ApplicationData)) b))"
proof -
  let ?fs = "space_frames ApplicationData Established a"
  let ?s = "get_space ApplicationData (sent ApplicationData Established a)"
  have s: "local_keys ?s = Some ka" using k(1) by (simp add: get_sent space_defs)
  obtain pkt m where p: "encrypt_packet ?s ApplicationData (version a) (dst_cid a) (src_cid a) ?fs
        (peeks a ApplicationData) n True = Ok pkt"
      "decrypt_and_parse (get_space ApplicationData b) pkt (1 + length (dst_cid a)) =
        Ok (peeks a ApplicationData, ?fs @ replicate m Padding)"
      "length pkt \<le> length (dst_cid a) + packet_bound ka (length (frames_wire ?fs))"
      "pkt \<noteq> []" "pkt ! 0 AND 0x80 = 0"
    using short_packet_sized [OF k(3) s k(2) fs n pn] by blast
  have i: "ingest pf now pkt b =
      (case parse_short_header pkt (length (dst_cid b)) of
         Inl e \<Rightarrow> (map_err InPacket (Inl e), b)
       | Inr h \<Rightarrow> seqA (process_frames pf ?fs ApplicationData) (\<lambda>_. returnA (length pkt))
           (space_mut ApplicationData (record_recv_pn now (peeks a ApplicationData)) b))"
    for pf :: "('u, 'c) platform" and now
  proof (cases "parse_short_header pkt (length (dst_cid b))")
    case (Inl e)
    then show ?thesis using p(4,5) st(2)
      by (cases e) (simp_all add: ingest_def ingest_packet_def index_at_def Let_def)
  next
    case (Inr h)
    obtain hdr l where h: "h = (hdr, l)" by fastforce
    have "hdr_pn_offset_short hdr = 1 + length (dst_cid a)" using short_header_cid [of pkt] Inr h cid by simp
    then have "ingest_packet pkt b = Ok (ApplicationData, peeks a ApplicationData, ?fs @ replicate m Padding)"
      using p Inr h by (simp add: ingest_packet_def index_at_def Let_def get_space_eqs)
    then show ?thesis using p(4) st(2) Inr h
      by (simp add: ingest_def process_frames_def process_padding seqA_def)
  qed
  have "sent_packet ApplicationData a = Ok pkt" using p(1) st(1) n by (simp add: sent_packet_def peeks_def)
  from that [OF p(4) this p(3) i] show thesis .
qed

section \<open>The client's answer\<close>

text \<open>The frames of a space: its CRYPTO data, if any, and one acknowledgement.\<close>

definition answer :: "bytes \<Rightarrow> u64 \<Rightarrow> frame list" where
  "answer d n = (if d \<noteq> [] then [Crypto 0 d] else []) @ [ack_frame [n]]"

lemma answer_small:
  assumes "length d < 2 ^ 61" and "n = 0 \<or> n = 1"
  shows "frames_ok (answer d n)" and "length (frames_wire (answer d n)) \<le> length d + 15" and "answer d n \<noteq> []"
proof -
  have "encoded_len 1 = 1" "encoded_len 0 = 1" by (simp_all add: encoded_len_def)
  then have a: "frames_ok [ack_frame [n]]" "length (frames_wire [ack_frame [n]]) = 5"
    using assms(2) by (auto simp: ack_frame_def frames_ok_def ranges_ok_def range_ok_def ecn_ok_def isize_max_def
      frames_wire_def varint_bytes_0 ecn_wire_def VARINT_MAX_eq)
  with small_crypto_frame [OF assms(1)]
  show "frames_ok (answer d n)" "length (frames_wire (answer d n)) \<le> length d + 15" "answer d n \<noteq> []"
    by (auto simp: answer_def frames_ok_def frames_wire_def)
qed

text \<open>
  An established connection \<open>a\<close> with CRYPTO data \<open>ds\<close> and one pending acknowledgement in every space,
  and its peer \<open>b\<close>; \<open>ka\<close> and \<open>kb\<close> are their keys.
\<close>

definition answering ::
  "nat \<Rightarrow> (packet_number_space \<Rightarrow> quic_keys) \<Rightarrow> (packet_number_space \<Rightarrow> quic_keys) \<Rightarrow>
    (packet_number_space \<Rightarrow> bytes) \<Rightarrow> (packet_number_space \<Rightarrow> u64) \<Rightarrow> 't conn \<Rightarrow> bool" where
  "answering cap ka kb d n a \<longleftrightarrow> conn_ok a \<and> state a = Established \<and> pending_app_data a = [] \<and>
     version a \<noteq> VERSION_NEGOTIATION \<and> length (dst_cid a) \<le> 20 \<and> length (src_cid a) \<le> 20 \<and>
     (\<forall>i. pending_crypto a ! pn_space_to_level i = d i \<and> (n i = 0 \<or> n i = 1) \<and>
        sp_pending_acks (get_space i a) = [n i] \<and> sp_keys (get_space i a) = Some (ka i) \<and>
        unat (sp_next_send_pn (get_space i a)) < 2 ^ 32 \<and>
        flight_ok (cap - 20) (keys_local (ka i)) (keys_remote (kb i)) (d i)) \<and> 20 \<le> cap"

definition hearing :: "(packet_number_space \<Rightarrow> quic_keys) \<Rightarrow> packet_number_space \<Rightarrow> nat \<Rightarrow> 'u conn \<Rightarrow> bool" where
  "hearing kb i n b \<longleftrightarrow> state b \<noteq> Closed \<and> sp_keys (get_space i b) = Some (kb i) \<and>
     length (dst_cid b) = n \<and> (i = ApplicationData \<longrightarrow> sp_largest_recv_pn (get_space i b) = 0)"

lemma answer_frames:
  assumes "answering cap ka kb d n a"
  shows "space_frames i Established a = answer (d i) (n i)" and "ready i a"
proof -
  show f: "space_frames i Established a = answer (d i) (n i)"
    using assms by (simp add: answering_def space_frames_def crypto_part_def ack_part_def done_part_def stream_part_def
        answer_def)
  then show "ready i a" using assms by (simp add: answering_def ready_def has_keys_def f answer_def)
qed

lemma answer_sent:
  fixes a :: "'t conn" and b :: "'u conn"
  assumes a: "answering cap ka kb d n a" and b: "hearing kb i (length (dst_cid a)) b" and i: "i \<noteq> ApplicationData"
  obtains pkt where "pkt \<noteq> []" and "sent_packet i a = Ok pkt" and "length pkt \<le> cap"
    and "\<And>(pf :: ('u, 'c) platform) now. ingest pf now pkt b = seqA (process_frames pf (answer (d i) (n i)) i)
      (\<lambda>_. returnA (length pkt)) (space_mut i (record_recv_pn now (peeks a i)) b)"
proof -
  have st: "state a = Established" and f: "flight_ok (cap - 20) (keys_local (ka i)) (keys_remote (kb i)) (d i)"
    and n: "n i = 0 \<or> n i = 1" and l: "local_keys (get_space i a) = Some (keys_local (ka i))" and c: "20 \<le> cap"
    using a by (simp_all add: answering_def local_keys_def)
  note small = answer_small [OF flight_okD(2) [OF f] n]
  have fr: "space_frames i (state a) a = answer (d i) (n i)" using answer_frames(1) [OF a] st by simp
  have "long_link i a b"
    by (rule link_of_flight [OF f]; (unfold fr)?) (use a b i small in \<open>simp_all add: answering_def hearing_def\<close>)
  note e = long_sent [OF this, where 'c = 'c, unfolded fr]
  obtain pkt where p: "pkt \<noteq> []" "sent_packet i a = Ok pkt"
    and r: "\<And>(pf :: ('u, 'c) platform) now. ingest pf now pkt b = seqA (process_frames pf (answer (d i) (n i)) i)
      (\<lambda>_. returnA (length pkt)) (space_mut i (record_recv_pn now (peeks a i)) b)"
    and s: "\<And>k. local_keys (get_space i a) = Some k \<Longrightarrow>
        length pkt \<le> packet_bound k (length (frames_wire (answer (d i) (n i))))"
    by (rule e, rule that)
  have "length pkt \<le> cap" using s [OF l] flight_okD(4) [OF f small(2)] c by linarith
  from that [OF p this r] show thesis .
qed

lemma answer_sent_short:
  fixes a :: "'t conn" and b :: "'u conn"
  assumes a: "answering cap ka kb d n a" and b: "hearing kb ApplicationData (length (dst_cid a)) b"
  defines "i \<equiv> ApplicationData"
  obtains pkt where "pkt \<noteq> []" and "sent_packet i a = Ok pkt" and "length pkt \<le> cap"
    and "\<And>(pf :: ('u, 'c) platform) now. ingest pf now pkt b =
      (case parse_short_header pkt (length (dst_cid b)) of
         Inl e \<Rightarrow> (map_err InPacket (Inl e), b)
       | Inr h \<Rightarrow> seqA (process_frames pf (answer (d i) (n i)) i)
           (\<lambda>_. returnA (length pkt)) (space_mut i (record_recv_pn now (peeks a i)) b))"
proof -
  have st: "state a = Established" and f: "flight_ok (cap - 20) (keys_local (ka i)) (keys_remote (kb i)) (d i)"
    and n: "n i = 0 \<or> n i = 1" and l: "local_keys (get_space i a) = Some (keys_local (ka i))" and c: "20 \<le> cap"
    and cid: "length (dst_cid a) \<le> 20" and pn: "unat (peeks a i) < 2 ^ 32"
    using a by (simp_all add: answering_def local_keys_def peeks_def)
  note small = answer_small [OF flight_okD(2) [OF f] n]
  have fr: "space_frames i Established a = answer (d i) (n i)" using answer_frames(1) [OF a] .
  have r: "remote_keys (get_space i b) = Some (keys_remote (kb i))" "largest_recv_pn (get_space i b) = 0"
    "state b \<noteq> Closed" "length (dst_cid b) = length (dst_cid a)"
    using b by (simp_all add: hearing_def remote_keys_def largest_recv_pn_def i_def)
  have dec: "decode_packet_number (largest_recv_pn (get_space i b))
        (take_bit (8 * encoded_pn_len (peeks a i)) (peeks a i)) (of_nat (encoded_pn_len (peeks a i))) = peeks a i"
    unfolding r(2) by (rule decode_first_pn [OF encoded_pn_len_ok encoded_pn_len_fits [OF pn]])
  note e = short_sent [where 'c = 'c, OF st r(3,4) l [unfolded i_def] r(1) [unfolded i_def] flight_okD(1) [OF f,
      unfolded i_def]
      _ refl dec [unfolded i_def], folded i_def, unfolded fr, OF small(1)]
  obtain pkt where p: "pkt \<noteq> []" "sent_packet i a = Ok pkt"
    and s: "length pkt \<le> length (dst_cid a) + packet_bound (keys_local (ka i))
        (length (frames_wire (answer (d i) (n i))))"
    and q: "\<And>(pf :: ('u, 'c) platform) now. ingest pf now pkt b =
      (case parse_short_header pkt (length (dst_cid b)) of
         Inl e \<Rightarrow> (map_err InPacket (Inl e), b)
       | Inr h \<Rightarrow> seqA (process_frames pf (answer (d i) (n i)) i)
           (\<lambda>_. returnA (length pkt)) (space_mut i (record_recv_pn now (peeks a i)) b))"
    by (rule e, rule that)
  have "length pkt \<le> cap" using s flight_okD(4) [OF f small(2)] c cid by linarith
  from that [OF p this q] show thesis .
qed

lemma answering_sendable:
  assumes a: "answering cap ka kb d n a" and b: "\<And>i. hearing kb i (length (dst_cid a)) b"
  shows "sendable cap a" and "outbox a = map (\<lambda>i. projr (sent_packet i a)) all_spaces"
proof -
  have "\<exists>p. sent_packet i a = Ok p \<and> p \<noteq> [] \<and> length p \<le> cap" for i
  proof (cases "i = ApplicationData")
    case True
    then show ?thesis using answer_sent_short [OF a b] by metis
  next
    case False
    then show ?thesis using answer_sent [OF a b] by metis
  qed
  then show "sendable cap a" using a by (simp add: sendable_def answering_def)
  show "outbox a = map (\<lambda>i. projr (sent_packet i a)) all_spaces"
    using answer_frames(2) [OF a] by (simp add: outbox_def all_spaces_def)
qed

end
