(* ===== verification/Network.thy ===== *)
theory Network
  imports Established
begin

text \<open>
  Two endpoints over the operating system: what the server makes of the client's answer, the laws of a
  network that loses nothing, and the test \<open>handshake_via_endpoints\<close> of \<open>src/runtime.rs\<close> step by step.
\<close>

section \<open>The server hears it\<close>

text \<open>The server in TLS state \<open>u\<close> reads the client's Finished and may have more to say (tickets).\<close>

definition server_finish :: "('t, 'c) platform \<Rightarrow> 't \<Rightarrow> bytes \<Rightarrow> bytes \<Rightarrow> bool" where
  "server_finish pf u fin tickets \<longleftrightarrow> fin \<noteq> [] \<and> (\<exists>u' u''.
     tls_read_hs pf u fin = (None, u') \<and> tls_write_hs pf u' = (tickets, None, u''))"

definition finished_data :: "bytes \<Rightarrow> packet_number_space \<Rightarrow> bytes" where
  "finished_data fin i = (if i = HandshakeSpace then fin else [])"

lemma process_answer: "process_frames_at pf l (answer [] n) c = (Ok (), c)"
  by (rule process_quiet) (simp add: answer_def ack_frame_def)

lemma process_finish:
  assumes "server_finish pf (tls c) fin tickets" and "crypto_recv_offset c = [k, 0, 0]"
      and "pending_crypto c = [[], [], []]"
  obtains u where "process_frames_at pf 1 (answer fin n) c =
     (Ok (), c\<lparr>tls := u, pending_crypto := [[], tickets, []], crypto_recv_offset := [k, of_nat (length fin), 0]\<rparr>)"
proof -
  from assms(1) obtain u' u where u: "fin \<noteq> []" "tls_read_hs pf (tls c) fin = (None, u')"
      "tls_write_hs pf u' = (tickets, None, u)"
    unfolding server_finish_def by blast
  have "process_frame pf 1 (Crypto 0 fin) c =
     (Ok (), c\<lparr>tls := u, pending_crypto := [[], tickets, []], crypto_recv_offset := [k, of_nat (length fin), 0]\<rparr>)"
    using u assms(2,3)
    by (simp add: process_frame_def process_crypto_def read_hs_def write_hs_def process_tls_output_def
        handle_crypto_output_def Let_def)
  then have "process_frames_at pf 1 (answer fin n) c =
     (Ok (), c\<lparr>tls := u, pending_crypto := [[], tickets, []], crypto_recv_offset := [k, of_nat (length fin), 0]\<rparr>)"
    using u(1) by (simp add: answer_def seqA_def process_frame_def ack_frame_def)
  then show thesis by (rule that)
qed

lemma hear_record [simp]:
  "sp_keys (record_recv_pn now m s) = sp_keys s"
  "sp_pending_acks (record_recv_pn now m s) = sp_pending_acks s @ [m]"
  "sp_next_send_pn (record_recv_pn now m s) = sp_next_send_pn s"
  by (simp_all add: record_recv_pn_def Let_def)

lemma hearing_cong:
  assumes "hearing kb i n b" and "state x = state b" and "dst_cid x = dst_cid b"
      and "\<And>j. sp_keys (get_space j x) = sp_keys (get_space j b)"
    and "sp_largest_recv_pn (get_space ApplicationData x) = sp_largest_recv_pn (get_space ApplicationData b)"
  shows "hearing kb i n x"
  using assms by (auto simp: hearing_def)

text \<open>The Initial and the Handshake packet of the answer.\<close>

lemma hears_long:
  fixes a :: "'t conn" and b :: "'u conn" and pf :: "('u, 'c) platform"
  assumes a: "answering cap ka kb (finished_data fin) (\<lambda>_. 0) a"
    and pn: "peeks a InitialSpace = 1" "peeks a HandshakeSpace = 0"
    and b: "conn_ok b" "state b = Established" "\<And>i. hearing kb i (length (dst_cid a)) b"
      "crypto_recv_offset b = [k, 0, 0]" "pending_crypto b = [[], [], []]"
    and f: "server_finish pf (tls b) fin tickets"
  obtains q1 q2 b1 b2 u where "sent_packet InitialSpace a = Ok q1" and "sent_packet HandshakeSpace a = Ok q2"
    and "q1 \<noteq> []" and "q2 \<noteq> []" and "ingest pf now q1 b = (Ok (length q1), b1)"
        and "ingest pf now q2 b1 = (Ok (length q2), b2)"
    and "b2 = (space_mut HandshakeSpace (record_recv_pn now 0) (space_mut InitialSpace (record_recv_pn now 1) b))
      \<lparr>tls := u, pending_crypto := [[], tickets, []], crypto_recv_offset := [k, of_nat (length fin), 0]\<rparr>"
    and "conn_ok b2" and "same_peer b b2"
proof -
  let ?d = "finished_data fin"
  note e = answer_sent [where 'c = 'c, OF a b(3), of InitialSpace, simplified pn]
  obtain q1 where q1: "q1 \<noteq> []" "sent_packet InitialSpace a = Ok q1"
    and i1: "\<And>(pf :: ('u, 'c) platform) now. ingest pf now q1 b =
      seqA (process_frames pf (answer (?d InitialSpace) 0) InitialSpace)
        (\<lambda>_. returnA (length q1)) (space_mut InitialSpace (record_recv_pn now 1) b)"
    by (rule e) (simp, rule that)
  define b1 where "b1 = space_mut InitialSpace (record_recv_pn now 1) b"
  have i1: "ingest pf now q1 b = (Ok (length q1), b1)"
    unfolding i1 b1_def [symmetric] by (simp add: process_frames_def finished_data_def process_answer seqA_def)
  have "hearing kb i (length (dst_cid a)) b1" for i
    by (rule hearing_cong [OF b(3)]) (simp_all add: b1_def get_space_mut)
  note e = answer_sent [where 'c = 'c, OF a this, of HandshakeSpace, simplified pn]
  obtain q2 where q2: "q2 \<noteq> []" "sent_packet HandshakeSpace a = Ok q2"
    and i2: "\<And>(pf :: ('u, 'c) platform) now. ingest pf now q2 b1 =
      seqA (process_frames pf (answer (?d HandshakeSpace) 0) HandshakeSpace)
        (\<lambda>_. returnA (length q2)) (space_mut HandshakeSpace (record_recv_pn now 0) b1)"
    by (rule e) (simp, rule that)
  define c1 where "c1 = space_mut HandshakeSpace (record_recv_pn now 0) b1"
  have "tls c1 = tls b" "crypto_recv_offset c1 = [k, 0, 0]" "pending_crypto c1 = [[], [], []]"
    using b by (simp_all add: c1_def b1_def)
  then obtain u where u: "process_frames_at pf 1 (answer fin 0) c1 =
     (Ok (), c1\<lparr>tls := u, pending_crypto := [[], tickets, []], crypto_recv_offset := [k, of_nat (length fin), 0]\<rparr>)"
    using process_finish [of pf c1 fin tickets k 0] f by metis
  define b2 where "b2 = c1\<lparr>tls := u, pending_crypto := [[], tickets, []], crypto_recv_offset :=
      [k, of_nat (length fin), 0]\<rparr>"
  have i2: "ingest pf now q2 b1 = (Ok (length q2), b2)"
    unfolding i2 c1_def [symmetric] by (simp add: process_frames_def finished_data_def u b2_def seqA_def del:
        One_nat_def)
  show thesis
  proof (rule that [OF q1(2) q2(2) q1(1) q2(1) i1 i2 b2_def [unfolded c1_def b1_def]])
    show "conn_ok b2" using conn_ok_call [OF conn_ok_call [OF b(1), of pf "Ingest now q1"], of pf "Ingest now q2"]
        i1 i2 by simp
    show "same_peer b b2" using i1 i2
        same_peer_trans [of b b1 b2] call_same_peer [of b pf "Ingest now q1"] call_same_peer [of b1 pf
            "Ingest now q2"] by simp
  qed
qed

lemma hears_answer:
  fixes a :: "'t conn" and b :: "'u conn" and pf :: "('u, 'c) platform"
  assumes a: "answering cap ka kb (finished_data fin) (\<lambda>_. 0) a"
    and pn: "peeks a InitialSpace = 1" "peeks a HandshakeSpace = 0" "peeks a ApplicationData = 0"
    and b: "conn_ok b" "state b = Established" "\<And>i. hearing kb i (length (dst_cid a)) b"
      "crypto_recv_offset b = [k, 0, 0]" "pending_crypto b = [[], [], []]" "pending_app_data b = []"
      "\<And>i. sp_pending_acks (get_space i b) = []" "\<And>i. sp_next_send_pn (get_space i b) = 1"
      "version b \<noteq> VERSION_NEGOTIATION" "length (src_cid b) \<le> 20"
    and f: "server_finish pf (tls b) fin tickets"
    and flights: "\<And>i. flight_ok (cap - 20) (keys_local (kb i)) (keys_remote (ka i)) (finished_data tickets i)"
  obtains r b' where "ingest_all pf now (outbox a) b = (r, b')" and "r \<noteq> Inl Panic" and "state b' = Established"
    and "\<And>i. sp_keys (get_space i b') = Some (kb i)" and "same_peer b b'"
    and "r = Ok () \<Longrightarrow> answering cap kb ka (finished_data tickets) (peeks a) b'"
proof -
  let ?d = "finished_data fin"
  obtain q1 q2 b1 b2 u where q: "sent_packet InitialSpace a = Ok q1" "sent_packet HandshakeSpace a = Ok q2"
      "q1 \<noteq> []" "q2 \<noteq> []"
    and i: "ingest pf now q1 b = (Ok (length q1), b1)" "ingest pf now q2 b1 = (Ok (length q2), b2)"
    and b2: "b2 = (space_mut HandshakeSpace (record_recv_pn now 0) (space_mut InitialSpace (record_recv_pn now 1) b))
      \<lparr>tls := u, pending_crypto := [[], tickets, []], crypto_recv_offset := [k, of_nat (length fin), 0]\<rparr>"
    and ok2: "conn_ok b2" "same_peer b b2"
    by (rule hears_long [OF a pn(1,2) b(1-5) f, where now = now], rule that)
  have hear: "hearing kb i (length (dst_cid a)) b2" for i
    by (rule hearing_cong [OF b(3)]) (simp_all add: b2 get_space_mut)
  note e = answer_sent_short [where 'c = 'c, OF a hear, simplified pn]
  obtain q3 where q3: "sent_packet ApplicationData a = Ok q3"
    and i3: "\<And>(pf :: ('u, 'c) platform) now. ingest pf now q3 b2 =
      (case parse_short_header q3 (length (dst_cid b2)) of
         Inl e \<Rightarrow> (map_err InPacket (Inl e), b2)
       | Inr h \<Rightarrow> seqA (process_frames pf (answer (?d ApplicationData) 0) ApplicationData)
        (\<lambda>_. returnA (length q3)) (space_mut ApplicationData (record_recv_pn now 0) b2))"
    by (rule e) (rule that)
  have out: "outbox a = [q1, q2, q3]"
    using answering_sendable(2) [OF a b(3)] q q3 by (simp add: all_spaces_def)
  define b3 where "b3 = space_mut ApplicationData (record_recv_pn now 0) b2"
  have k2: "sp_keys (get_space i b2) = Some (kb i)" "state b2 = Established" for i
    using hear [of i] b(2) by (simp_all add: hearing_def b2)
  show thesis
  proof (cases "parse_short_header q3 (length (dst_cid b2))")
    case (Inl e)
    then obtain e' where "e = Err e'"
      using outcome_short_header [of q3 "length (dst_cid b2)"] by (cases e) (auto simp: outcome_def)
    with Inl i i3 have "ingest_all pf now (outbox a) b = (Error (InPacket e'), b2)" by (simp add: out)
    then show thesis by (rule that) (simp_all add: k2 ok2(2))
  next
    case (Inr h)
    then have i3: "ingest pf now q3 b2 = (Ok (length q3), b3)"
      unfolding i3 b3_def [symmetric] by (simp add: process_frames_def finished_data_def process_answer seqA_def)
    then have r: "ingest_all pf now (outbox a) b = (Ok (), b3)" using i by (simp add: out)
    have ok3: "conn_ok b3" "same_peer b b3"
      using conn_ok_call [OF ok2(1), of pf "Ingest now q3"]
        same_peer_trans [OF ok2(2), of b3] call_same_peer [of b2 pf "Ingest now q3"] i3 by simp_all
    have k3: "sp_keys (get_space i b3) = Some (kb i)" "state b3 = Established" for i
      using k2 by (simp_all add: b3_def get_space_mut)
    have "answering cap kb ka (finished_data tickets) (peeks a) b3"
      unfolding answering_def
    proof (intro conjI allI)
      fix i
      show "pending_crypto b3 ! pn_space_to_level i = finished_data tickets i"
        by (cases i) (simp_all add: b3_def b2 finished_data_def)
      show "sp_pending_acks (get_space i b3) = [peeks a i]" "peeks a i = 0 \<or> peeks a i = 1"
        "unat (sp_next_send_pn (get_space i b3)) < 2 ^ 32"
        using pn b(7,8) by (cases i; simp add: b3_def b2 get_space_mut)+
    qed (use k3 ok3(1) b a flights in \<open>simp_all add: answering_def b3_def b2 hearing_def\<close>)
    then show thesis by (intro that [OF r _ k3(2,1) ok3(2)]) simp_all
  qed
qed

section \<open>A lossless network\<close>

text \<open>
  What a system with a network that loses nothing does, as far as it can be observed: the sockets
  \<open>nw_bound\<close> that are open, the datagrams \<open>nw_mail\<close> waiting at each with the senders' addresses, and the
  sockets \<open>nw_watch\<close> that the epoll descriptors watch. \<open>home\<close> tells which socket an address belongs to.
\<close>

record 'o network =
  nw_bound :: "'o \<Rightarrow> nat set"
  nw_mail :: "'o \<Rightarrow> nat \<Rightarrow> (bytes \<times> socket_addr) list"
  nw_watch :: "'o \<Rightarrow> int \<Rightarrow> nat option"

text \<open>Nothing but the mail of socket \<open>k\<close> has changed.\<close>

definition nw_same :: "'o network \<Rightarrow> nat set \<Rightarrow> 'o \<Rightarrow> 'o \<Rightarrow> bool" where
  "nw_same nw K s s' \<longleftrightarrow> nw_bound nw s' = nw_bound nw s \<and> nw_watch nw s' = nw_watch nw s \<and>
     (\<forall>k. k \<notin> K \<longrightarrow> nw_mail nw s' k = nw_mail nw s k)"

locale lossless =
  fixes os :: "'o os" and nw :: "'o network" and home :: "socket_addr \<Rightarrow> nat"
  assumes binds: "\<exists>k s'. os_bind os a s = (Inr k, s') \<and> k \<notin> nw_bound nw s \<and>
        nw_bound nw s' = insert k (nw_bound nw s) \<and> nw_watch nw s' = nw_watch nw s \<and> nw_mail nw s' =
            (nw_mail nw s)(k := [])"
    and names: "\<exists>a s'. os_local_addr os k s = (Inr a, s') \<and> home a = k \<and> nw_same nw {} s s'"
    and unblocks: "\<exists>s'. os_set_nonblocking os k s = (Inr (), s') \<and> nw_same nw {} s s'"
    and creates: "\<exists>fd s'. os_epoll_create os s = (fd, s') \<and> 0 \<le> fd \<and> nw_watch nw s fd = None \<and> nw_same nw {} s s'"
    and adds: "\<exists>rc s'. os_epoll_add os fd k s = (rc, s') \<and> 0 \<le> rc \<and> nw_bound nw s' = nw_bound nw s \<and>
        nw_mail nw s' = nw_mail nw s \<and> nw_watch nw s' = (nw_watch nw s)(fd \<mapsto> k)"
    and waits: "nw_watch nw s fd = Some k \<Longrightarrow> \<exists>n s'. os_epoll_wait os fd t s = (n, s') \<and> 0 \<le> n \<and>
        (0 < n \<longleftrightarrow> nw_mail nw s k \<noteq> []) \<and> nw_same nw {} s s'"
    and sends: "\<exists>n src s'. os_send_to os k d to s = (Inr n, s') \<and> home src = k \<and> nw_same nw {home to} s s' \<and>
        nw_mail nw s' (home to) = nw_mail nw s (home to) @ [(d, src)]"
    and recv_none: "nw_mail nw s k = [] \<Longrightarrow> \<exists>s'. os_recv_from os k s = (Inl WouldBlock, s') \<and> nw_same nw {} s s'"
    and recv_first: "nw_mail nw s k = (d, src) # ms \<Longrightarrow> \<exists>s'. os_recv_from os k s = (Inr (d, src), s') \<and>
        nw_same nw {k} s s' \<and> nw_mail nw s' k = ms"

lemma nw_same_trans: "nw_same nw K a b \<Longrightarrow> nw_same nw L b c \<Longrightarrow> nw_same nw (K \<union> L) a c"
  by (auto simp: nw_same_def)

context lossless
begin

text \<open>Opening a socket with its epoll descriptor.\<close>

lemma open_socket:
  obtains eb s' where "epoll_open os a peer s = (Inr eb, s')" and "eb_peer eb = peer"
    and "eb_socket eb \<notin> nw_bound nw s" and "nw_bound nw s' = insert (eb_socket eb) (nw_bound nw s)"
    and "nw_mail nw s' = (nw_mail nw s)(eb_socket eb := [])"
    and "nw_watch nw s (eb_epoll_fd eb) = None" and "nw_watch nw s' = (nw_watch nw s)(eb_epoll_fd eb \<mapsto> eb_socket eb)"
proof -
  obtain k s1 where 1: "os_bind os a s = (Inr k, s1)" "k \<notin> nw_bound nw s" "nw_bound nw s1 = insert k (nw_bound nw s)"
      "nw_watch nw s1 = nw_watch nw s" "nw_mail nw s1 = (nw_mail nw s)(k := [])"
    using binds by blast
  obtain s2 where 2: "os_set_nonblocking os k s1 = (Inr (), s2)" "nw_same nw {} s1 s2"
    using unblocks by blast
  obtain fd s3 where 3: "os_epoll_create os s2 = (fd, s3)" "0 \<le> fd" "nw_watch nw s2 fd = None" "nw_same nw {} s2 s3"
    using creates by blast
  obtain rc s4 where 4: "os_epoll_add os fd k s3 = (rc, s4)" "0 \<le> rc" "nw_bound nw s4 = nw_bound nw s3"
      "nw_mail nw s4 = nw_mail nw s3" "nw_watch nw s4 = (nw_watch nw s3)(fd \<mapsto> k)"
    using adds by blast
  have s: "nw_bound nw s3 = nw_bound nw s1" "nw_watch nw s3 = nw_watch nw s1" "nw_mail nw s3 = nw_mail nw s1"
    "nw_watch nw s2 = nw_watch nw s1"
    using 2(2) 3(4) by (auto simp: nw_same_def fun_eq_iff)
  have "epoll_open os a peer s = (Inr \<lparr>eb_socket = k, eb_epoll_fd = fd, eb_peer = peer\<rparr>, s4)"
    using 1(1) 2(1) 3(1,2) 4(1,2) by (simp add: epoll_open_def)
  then show thesis by (rule that) (use 1 3(3) 4 s in simp_all)
qed

text \<open>Polling tells whether there is mail.\<close>

lemma poll_mail:
  assumes "nw_watch nw s (eb_epoll_fd eb) = Some k"
  obtains s' where "be_poll (epoll os) t (eb, s) = (Inr (nw_mail nw s k \<noteq> []), eb, s')" and "nw_same nw {} s s'"
  using waits [OF assms(1), of t] by (auto simp: epoll_def epoll_poll_def)

text \<open>All packets are taken, and arrive in order behind what is waiting.\<close>

lemma sends_all:
  assumes p: "eb_peer eb = Some to"
  obtains s' ms where "takes (epoll os) ps (eb, s)" and "after_sends (epoll os) ps (eb, s) = (eb, s')"
    and "nw_same nw {home to} s s'" and "nw_mail nw s' (home to) = nw_mail nw s (home to) @ ms"
    and "map fst ms = ps" and "list_all (\<lambda>m. home (snd m) = eb_socket eb) ms"
proof (induction ps arbitrary: s thesis)
  case Nil
  show ?case by (rule Nil [of s "[]"]) (simp_all add: nw_same_def)
next
  case (Cons p ps)
  obtain n src s1 where 1: "os_send_to os (eb_socket eb) p to s = (Inr n, s1)" "home src = eb_socket eb"
      "nw_same nw {home to} s s1" "nw_mail nw s1 (home to) = nw_mail nw s (home to) @ [(p, src)]"
    using sends by blast
  have e: "be_send (epoll os) p (eb, s) = (Inr n, eb, s1)"
    using 1(1) p by (simp add: epoll_def epoll_send_def)
  obtain s' ms where 2: "takes (epoll os) ps (eb, s1)" "after_sends (epoll os) ps (eb, s1) = (eb, s')"
      "nw_same nw {home to} s1 s'" "nw_mail nw s' (home to) = nw_mail nw s1 (home to) @ ms"
      "map fst ms = ps" "list_all (\<lambda>m. home (snd m) = eb_socket eb) ms"
    using Cons.IH [of s1] by blast
  show ?case
    by (rule Cons.prems [of s' "(p, src) # ms"])
      (use 1 2 e nw_same_trans [OF 1(3) 2(3)] in \<open>simp_all\<close>)
qed

text \<open>An endpoint receives the datagrams that wait at its socket, in order, and empties it.\<close>

lemma inbox_mail:
  assumes p: "eb_peer eb = Some to"
    and "map fst (nw_mail nw s (eb_socket eb)) = ds" and "list_all (\<lambda>d. d \<noteq> [] \<and> length d \<le> length buf) ds"
  obtains s' buf' where "inbox (epoll os) buf (eb, s) ds buf' (eb, s')" and "nw_same nw {eb_socket eb} s s'"
    and "nw_mail nw s' (eb_socket eb) = []"
  using assms(2,3)
proof (induction ds arbitrary: s buf thesis)
  case Nil
  then obtain s' where s: "os_recv_from os (eb_socket eb) s = (Inl WouldBlock, s')" "nw_same nw {} s s'"
    using recv_none by fastforce
  then have "be_recv (epoll os) buf (eb, s) = (Inl WouldBlock, buf, eb, s')"
    by (simp add: epoll_def epoll_recv_def)
  then show ?case using Nil(1,2) s(2) by (intro Nil(1) [of buf s'] inbox_error) (auto simp: nw_same_def)
next
  case (Cons d ds)
  obtain src ms where m: "nw_mail nw s (eb_socket eb) = (d, src) # ms" "map fst ms = ds"
    using Cons.prems(2) by (cases "nw_mail nw s (eb_socket eb)") auto
  obtain s1 where 1: "os_recv_from os (eb_socket eb) s = (Inr (d, src), s1)" "nw_same nw {eb_socket eb} s s1"
      "nw_mail nw s1 (eb_socket eb) = ms"
    using recv_first [OF m(1)] by blast
  have d: "d \<noteq> []" "length d \<le> length buf" using Cons.prems(3) by simp_all
  let ?buf = "d @ drop (length d) buf"
  have r: "be_recv (epoll os) buf (eb, s) = (Inr (length d, src), ?buf, eb, s1)"
    using 1(1) p d(2) by (simp add: epoll_def epoll_recv_def Let_def min_absorb1)
  obtain s' buf' where 2: "inbox (epoll os) ?buf (eb, s1) ds buf' (eb, s')" "nw_same nw {eb_socket eb} s1 s'"
      "nw_mail nw s' (eb_socket eb) = []"
  proof (rule Cons.IH)
    show "map fst (nw_mail nw s1 (eb_socket eb)) = ds" using 1(3) m(2) by simp
    show "list_all (\<lambda>x. x \<noteq> [] \<and> length x \<le> length ?buf) ds" using Cons.prems(3) d(2) by simp
  qed
  have "inbox (epoll os) buf (eb, s) (take (length d) ?buf # ds) buf' (eb, s')"
    by (rule epoll.inbox_next [OF r _ 2(1)]) (use d(1) in simp)
  then show ?case using nw_same_trans [OF 1(2) 2(2)] 2(3) by (intro Cons.prems(1)) simp_all
qed

end

section \<open>The test \<open>handshake_via_endpoints\<close>\<close>

text \<open>
  The test of \<open>src/runtime.rs\<close>: \<open>None\<close> is a test that does not return, a panic one that fails. \<open>name\<close>
  is \<open>"localhost"\<close> there, \<open>server_addr\<close> is \<open>127.0.0.1:0\<close>.
\<close>

definition handshake_via_endpoints ::
  "('t, 'c) platform \<Rightarrow> ('u, 'd) platform \<Rightarrow> 'o os \<Rightarrow> nat \<Rightarrow> (nat \<Rightarrow> nat) \<Rightarrow> socket_addr \<Rightarrow> string \<Rightarrow> 'd \<Rightarrow> 'o \<Rightarrow>
     (('t, epoll_backend \<times> 'o) endpoint \<times> ('u, epoll_backend \<times> 'o) endpoint, connection_error) result option" where
  "handshake_via_endpoints pf pf' os now clock server_addr name config s =
     (case epoll_bind os server_addr s of
        (Inl e, s) \<Rightarrow> Some Panics
      | (Inr server_be, s) \<Rightarrow> (case os_local_addr os (eb_socket server_be) s of
          (Inl e, s) \<Rightarrow> Some Panics
        | (Inr server_local, s) \<Rightarrow> (case ep_client pf os server_local name s of
            (Inl e, s) \<Rightarrow> Some Panics
          | (Inr client_ep, s) \<Rightarrow> (case epoll_poll os 5000 (server_be, s) of
              (Inl e, b) \<Rightarrow> Some Panics
            | (Inr w, b) \<Rightarrow> (case epoll_recv os (replicate 2048 0) b of
                (Inl e, buf, b) \<Rightarrow> Some Panics
              | (Inr (n, a), buf, b) \<Rightarrow> (case slice buf 0 n of
                  Inl e \<Rightarrow> Some (Inl e)
                | Inr packet \<Rightarrow> (case ep_server pf' os now packet b config of
                    None \<Rightarrow> None
                  | Some (Inl e, s) \<Rightarrow> Some Panics
                  | Some (Inr server_ep, s) \<Rightarrow>
                      (case drive_handshake pf (epoll os) pf' (epoll os) clock s client_ep server_ep of
                        None \<Rightarrow> None
                      | Some (Inl e, _) \<Rightarrow> Some Panics
                      | Some (Inr _, client_ep, server_ep) \<Rightarrow>
                          if ep_is_established client_ep \<and> ep_is_established server_ep
                          then Some (Ok (client_ep, server_ep)) else Some Panics))))))))"

section \<open>The steps of a lossless handshake\<close>

definition space_keys :: "'k \<Rightarrow> 'k \<Rightarrow> 'k \<Rightarrow> packet_number_space \<Rightarrow> 'k" where
  "space_keys ik hk ok i = (case i of InitialSpace \<Rightarrow> ik | HandshakeSpace \<Rightarrow> hk | ApplicationData \<Rightarrow> ok)"

lemma space_keys_simps [simp]:
  "space_keys ik hk ok InitialSpace = ik" "space_keys ik hk ok HandshakeSpace = hk"
    "space_keys ik hk ok ApplicationData = ok"
  by (simp_all add: space_keys_def)

text \<open>The server's flight goes out whole.\<close>

lemma server_flight:
  fixes s :: "'u conn" and c :: "'t conn" and pf :: "('t, 'p) platform"
  assumes l: "lossless os nw home"
    and s: "server_ready sh ee acks ik hk ok s" "zero_acks acks" and c: "client_ready ck c"
    and script: "client_script pf (tls c) sh ee fin hkc okc"
    and k: "flight_ok 2048 (keys_local ik) (keys_remote ck) sh" "flight_ok 2048 (keys_local hk) (keys_remote hkc) ee"
      "flight_ok 2048 (keys_local ok) (keys_remote okc) []"
    and v: "version s \<noteq> VERSION_NEGOTIATION" "length (dst_cid s) \<le> 20" "length (src_cid s) \<le> 20"
    and e: "ep_conn ep = s" "length (ep_send_buf ep) = 2048" "ep_backend ep = (eb, w)" "eb_peer eb = Some to"
  obtains ep' w' ms c' where "flush_egress (epoll os) ep = Some (Ok (), ep')" and "ep_backend ep' = (eb, w')"
    and "nw_same nw {home to} w w'" and "nw_mail nw w' (home to) = nw_mail nw w (home to) @ ms"
    and "list_all (\<lambda>d. d \<noteq> [] \<and> length d \<le> 2048) (map fst ms)" and "ms \<noteq> []"
    and "ingest_all pf now (map fst ms) c = (Ok (), c')" and "client_done ck hkc okc fin c c'"
    and "server_done ik hk ok s (ep_conn ep')"
    and "length (ep_send_buf ep') = 2048" and "ep_recv_buf ep' = ep_recv_buf ep"
proof -
  obtain p1 p2 p3 s1 s2 s3 c1 c2 c3 where
    g: "egest 2048 s = (Ok p1, s1)" "egest 2048 s1 = (Ok p2, s2)" "egest 2048 s2 = (Ok p3, s3)"
      "p1 \<noteq> []" "p2 \<noteq> []" "p3 \<noteq> []" "length p1 \<le> 2048" "length p2 \<le> 2048" "length p3 \<le> 2048"
    and i: "ingest pf now p1 c = (Ok (length p1), c1)" "ingest pf now p2 c1 = (Ok (length p2), c2)"
      "ingest pf now p3 c2 = (Ok (length p3), c3)"
    and d: "client_done ck hkc okc fin c c3" "server_done ik hk ok s s3" "next_to_send s3 = None"
    using handshake_runs [OF s c script k v, of now] by blast
  obtain w' ms where t: "takes (epoll os) [p1, p2, p3] (eb, w)" "after_sends (epoll os) [p1, p2, p3] (eb, w) = (eb, w')"
      "nw_same nw {home to} w w'" "nw_mail nw w' (home to) = nw_mail nw w (home to) @ ms" "map fst ms = [p1, p2, p3]"
    using lossless.sends_all [OF l e(4), of "[p1, p2, p3]" w] by metis
  obtain b1 n1 b2 n2 n3 where b: "be_send (epoll os) p1 (eb, w) = (Inr n1, b1)"
      "be_send (epoll os) p2 b1 = (Inr n2, b2)"
      "be_send (epoll os) p3 b2 = (Inr n3, eb, w')"
    using t(1,2) by (auto simp: prod_eq_iff)
  define ep1 where "ep1 = ep\<lparr>ep_conn := s1, ep_send_buf := p1 @ drop (length p1) (ep_send_buf ep), ep_backend := b1\<rparr>"
  define ep2 where "ep2 = ep1\<lparr>ep_conn := s2, ep_send_buf := p2 @ drop (length p2) (ep_send_buf ep1), ep_backend := b2\<rparr>"
  define ep3 where "ep3 = ep2\<lparr>ep_conn := s3, ep_send_buf := p3 @ drop (length p3) (ep_send_buf ep2), ep_backend :=
      (eb, w')\<rparr>"
  have f: "ep_conn ep1 = s1" "ep_conn ep2 = s2" "ep_conn ep3 = s3" "ep_backend ep1 = b1" "ep_backend ep2 = b2"
    "length (ep_send_buf ep1) = 2048" "length (ep_send_buf ep2) = 2048" "length (ep_send_buf ep3) = 2048"
    "ep_recv_buf ep3 = ep_recv_buf ep" "ep_backend ep3 = (eb, w')"
    using e(2) g(7-9) by (simp_all add: ep1_def ep2_def ep3_def)
  have ok3: "conn_ok s3" "state s3 = Established" using d(2) by (simp_all add: server_done_def)
  have "flush_egress (epoll os) ep = flush_egress (epoll os) ep1"
    unfolding ep1_def using g b e by (intro flush_one) simp_all
  also have "\<dots> = flush_egress (epoll os) ep2"
    unfolding ep2_def using g b f by (intro flush_one) simp_all
  also have "\<dots> = flush_egress (epoll os) ep3"
    unfolding ep3_def using g b f by (intro flush_one) simp_all
  also have "\<dots> = Some (Ok (), ep3)"
    using flush_stop [of ep3 "epoll os"] ok3 d(3) f by simp
  finally have fl: "flush_egress (epoll os) ep = Some (Ok (), ep3)" .
  have ing: "ingest_all pf now (map fst ms) c = (Ok (), c3)" using i t(5) by simp
  show thesis
    by (rule that [OF fl f(10) t(3,4) _ _ ing]) (use g t(5) d f in auto)
qed

text \<open>The client's step: it reads the flight and answers.\<close>

lemma client_answering:
  assumes d: "client_done ck hkc okc fin c c'" and v: "version c \<noteq> VERSION_NEGOTIATION" "length (dst_cid c) \<le> 20"
      "length (src_cid c) \<le> 20"
    and k: "flight_ok 2028 (keys_local ck) (keys_remote sk) []" "flight_ok 2028 (keys_local hkc) (keys_remote hks) fin"
      "flight_ok 2028 (keys_local okc) (keys_remote oks) []"
  shows "answering 2048 (space_keys ck hkc okc) (space_keys sk hks oks) (finished_data fin) (\<lambda>_. 0) c'"
  unfolding answering_def
proof (intro conjI allI)
  fix i
  show "pending_crypto c' ! pn_space_to_level i = finished_data fin i"
      "sp_keys (get_space i c') = Some (space_keys ck hkc okc i)"
    "flight_ok (2048 - 20) (keys_local (space_keys ck hkc okc i)) (keys_remote (space_keys sk hks oks i))
      (finished_data fin i)"
    "unat (sp_next_send_pn (get_space i c')) < 2 ^ 32"
    using d k by (cases i; simp add: client_done_def finished_data_def)+
qed (use d v in \<open>auto simp: client_done_def same_peer_def\<close>)

lemma client_step:
  assumes l: "lossless os nw home"
    and ep: "ep_backend ep = (eb, w)" "eb_peer eb = Some to" "nw_watch nw w (eb_epoll_fd eb) = Some (eb_socket eb)"
      "length (ep_recv_buf ep) = 2048" "length (ep_send_buf ep) = 2048"
    and m: "nw_mail nw w (eb_socket eb) = ms" "ms \<noteq> []" "list_all (\<lambda>d. d \<noteq> [] \<and> length d \<le> 2048) (map fst ms)"
    and i: "ingest_all pf now (map fst ms) (ep_conn ep) = (Ok (), c)"
    and send: "sendable 2048 c" and to: "home to \<noteq> eb_socket eb"
  obtains ep' w' out where "step pf (epoll os) now t ep = Some (Ok True, ep')" and "ep_backend ep' = (eb, w')"
    and "state (ep_conn ep') = Established" and "nw_watch nw w' = nw_watch nw w"
    and "nw_mail nw w' (home to) = nw_mail nw w (home to) @ out" and "map fst out = outbox c"
    and "\<And>i. sp_keys (get_space i (ep_conn ep')) = sp_keys (get_space i c)"
proof -
  obtain w1 where p: "be_poll (epoll os) t (eb, w) = (Inr True, eb, w1)" and s1: "nw_same nw {} w w1"
    using lossless.poll_mail [OF l ep(3), of t] m by auto
  have "map fst (nw_mail nw w1 (eb_socket eb)) = map fst ms" using s1 m(1) by (simp add: nw_same_def)
  then obtain w2 buf' where b: "inbox (epoll os) (ep_recv_buf ep) (eb, w1) (map fst ms) buf' (eb, w2)"
      and s2: "nw_same nw {eb_socket eb} w1 w2"
    using lossless.inbox_mail [OF l ep(2) _ m(3) [folded ep(4)]] by blast
  define ep1 where "ep1 = ep\<lparr>ep_conn := c, ep_backend := (eb, w2), ep_recv_buf := buf'\<rparr>"
  have st: "step pf (epoll os) now t ep =
      Option.bind (flush_egress (epoll os) ep1) (\<lambda>(r, ep). Some (andthen r (\<lambda>_. Ok True), ep))"
    using step_all [of "epoll os" t ep "(eb, w1)" "map fst ms" buf' "(eb, w2)" pf now] p b i ep(1)
        by (simp add: ep1_def)
  obtain w3 out where o: "takes (epoll os) (outbox c) (eb, w2)" "after_sends (epoll os) (outbox c) (eb, w2) = (eb, w3)"
      "nw_same nw {home to} w2 w3" "nw_mail nw w3 (home to) = nw_mail nw w2 (home to) @ out" "map fst out = outbox c"
    using lossless.sends_all [OF l ep(2), of "outbox c" w2] by metis
  obtain ep' where f: "flush_egress (epoll os) ep1 = Some (Ok (), ep')" "ep_backend ep' = (eb, w3)"
      "sendable 2048 (ep_conn ep')" "\<And>i. sp_keys (get_space i (ep_conn ep')) = sp_keys (get_space i c)"
    using flush_all [of ep1 "epoll os"] send o(1,2) ep(5) by (auto simp: ep1_def)
  have "step pf (epoll os) now t ep = Some (Ok True, ep')" using st f(1) by simp
  moreover have "state (ep_conn ep') = Established" using f(3) by (simp add: sendable_def)
  moreover have "nw_watch nw w3 = nw_watch nw w" using s1 s2 o(3) by (simp add: nw_same_def)
  moreover have "nw_mail nw w3 (home to) = nw_mail nw w (home to) @ out"
    using s1 s2 o(4) to by (simp add: nw_same_def)
  ultimately show thesis using that f(2,4) o(5) by blast
qed

text \<open>The server's step: whatever it makes of the answer, it stays established.\<close>

lemma server_step:
  assumes l: "lossless os nw home"
    and ep: "ep_backend ep = (eb, w)" "eb_peer eb = Some to" "nw_watch nw w (eb_epoll_fd eb) = Some (eb_socket eb)"
      "length (ep_recv_buf ep) = 2048" "length (ep_send_buf ep) = 2048"
    and m: "nw_mail nw w (eb_socket eb) = ms" "ms \<noteq> []" "list_all (\<lambda>d. d \<noteq> [] \<and> length d \<le> 2048) (map fst ms)"
    and i: "ingest_all pf now (map fst ms) (ep_conn ep) = (r, b)" "r \<noteq> Inl Panic" "state b = Established"
    and send: "r = Ok () \<Longrightarrow> sendable 2048 b"
  obtains q ep' where "step pf (epoll os) now t ep = Some (q, ep')" and "q \<noteq> Inl Panic"
    and "state (ep_conn ep') = Established"
    and "\<And>i. sp_keys (get_space i (ep_conn ep')) = sp_keys (get_space i b)"
proof -
  obtain w1 where p: "be_poll (epoll os) t (eb, w) = (Inr True, eb, w1)" and s1: "nw_same nw {} w w1"
    using lossless.poll_mail [OF l ep(3), of t] m by auto
  have "map fst (nw_mail nw w1 (eb_socket eb)) = map fst ms" using s1 m(1) by (simp add: nw_same_def)
  then obtain w2 buf' where b: "inbox (epoll os) (ep_recv_buf ep) (eb, w1) (map fst ms) buf' (eb, w2)"
    using lossless.inbox_mail [OF l ep(2) _ m(3) [folded ep(4)]] by blast
  note st = step_all [of "epoll os" t ep "(eb, w1)" "map fst ms" buf' "(eb, w2)" pf now, unfolded i(1) ep(1), OF p b]
  show thesis
  proof (cases r)
    case (Inl e)
    then obtain ep' where "step pf (epoll os) now t ep = Some (Inl e, ep')" "ep_conn ep' = b" using st by auto
    with Inl i show thesis by (intro that [of "Inl e" ep']) auto
  next
    case (Inr u)
    define ep1 where "ep1 = ep\<lparr>ep_conn := b, ep_backend := (eb, w2), ep_recv_buf := buf'\<rparr>"
    have s: "sendable 2048 b" using send Inr by simp
    obtain w3 out where o: "takes (epoll os) (outbox b) (eb, w2)" "after_sends (epoll os) (outbox b) (eb, w2) =
        (eb, w3)"
      using lossless.sends_all [OF l ep(2), of "outbox b" w2] by metis
    obtain ep' where f: "flush_egress (epoll os) ep1 = Some (Ok (), ep')"
        "sendable 2048 (ep_conn ep')" "\<And>i. sp_keys (get_space i (ep_conn ep')) = sp_keys (get_space i b)"
      using flush_all [of ep1 "epoll os"] s o ep(5) by (auto simp: ep1_def)
    have "step pf (epoll os) now t ep = Some (Ok True, ep')" using st f(1) Inr by (simp add: ep1_def)
    then show thesis using f by (intro that [of "Ok True" ep']) (auto simp: sendable_def)
  qed
qed

section \<open>The whole test\<close>

text \<open>The TLS side of the server, from the ClientHello to the client's Finished.\<close>

definition server_flights ::
  "('t, 'c) platform \<Rightarrow> 't \<Rightarrow> bytes \<Rightarrow> bytes \<Rightarrow> bytes \<Rightarrow> bytes \<Rightarrow> quic_keys \<Rightarrow> quic_keys \<Rightarrow> bool" where
  "server_flights pf u sh ee fin tickets hk ok \<longleftrightarrow> sh \<noteq> [] \<and> ee \<noteq> [] \<and> (\<exists>u2 u3.
     tls_write_hs pf u = (sh, Some (HandshakeKeys hk), u2) \<and> tls_write_hs pf u2 = (ee, Some (OneRttKeys ok), u3) \<and>
     server_finish pf u3 fin tickets)"

lemma server_flightsD:
  assumes "server_flights pf u sh ee fin tickets hk ok"
  shows "server_script pf u sh ee hk ok" and "server_finish pf (tls (accepted_conn pf now hdr k ch u)) fin tickets"
  using assms
  by (auto simp: server_flights_def server_script_def accepted_conn_def accept_handshake_output_def
      process_tls_output_def)

text \<open>The two endpoints, driven over the network once the server's flight waits for the client.\<close>

lemma drive_twice:
  fixes pf :: "('t, 'c) platform" and pf' :: "('u, 'd) platform"
  assumes c: "state (ep_conn ce) \<noteq> Established"
    and 1: "step pf A (clock 0) 10 (in_world w ce) = Some (r, ce')" "r \<noteq> Inl Panic" "state (ep_conn ce') = Established"
    and 2: "step pf' B (clock 0) 10 (in_world (snd (ep_backend ce')) se) = Some (q, se')" "q \<noteq> Inl Panic"
      "state (ep_conn se') = Established"
  shows "drive_handshake pf A pf' B clock w ce se = Some (Ok (), ce', se')"
proof -
  have e: "ep_is_established ce'" "ep_is_established se'" "\<not> ep_is_established ce"
    using c 1(3) 2(3) by (simp_all add: ep_is_established_def is_established_def)
  have "drive_loop pf A pf' B clock 1 (snd (ep_backend se')) ce' se' = Some (Ok (), ce', se')"
    using e by (subst drive_loop.simps) simp
  moreover have "drive_loop pf A pf' B clock 0 w ce se = drive_loop pf A pf' B clock (0 + 1) (snd (ep_backend se'))
      ce' se'"
    using e(3) 1(1,2) 2(1,2) by (subst drive_loop.simps) (auto split: sum.split fail.split)
  ultimately show ?thesis by (simp add: drive_handshake_def)
qed

text \<open>The server is up: its flight is in the client's mailbox.\<close>

lemma answered:
  fixes pf :: "('t, 'c) platform" and pf' :: "('u, 'd) platform"
  assumes l: "lossless os nw home"
    and d: "client_done ck hkc okc fin c c'" "server_done sk hks oks s s'" "client_ready ck c"
    and v: "version c \<noteq> VERSION_NEGOTIATION" "length (dst_cid c) \<le> 20" "length (src_cid c) \<le> 20"
      "version s \<noteq> VERSION_NEGOTIATION" "length (src_cid s) \<le> 20" "length (dst_cid s) = length (dst_cid c)"
      "crypto_recv_offset s = [k, 0, 0]"
    and f: "server_finish pf' (tls s) fin tickets"
    and up: "flight_ok 2028 (keys_local ck) (keys_remote sk) []" "flight_ok 2028 (keys_local hkc) (keys_remote hks) fin"
      "flight_ok 2028 (keys_local okc) (keys_remote oks) []"
    and down: "flight_ok 2028 (keys_local sk) (keys_remote ck) []"
        "flight_ok 2028 (keys_local hks) (keys_remote hkc) tickets"
      "flight_ok 2028 (keys_local oks) (keys_remote okc) []"
    and i: "ingest_all pf (clock 0) (map fst ms) c = (Ok (), c')"
    and ce: "ep_conn ce = c" "fst (ep_backend ce) = cb" "eb_peer cb = Some la" "home la = eb_socket sb"
      "length (ep_recv_buf ce) = 2048" "length (ep_send_buf ce) = 2048"
    and se: "ep_conn se = s'" "fst (ep_backend se) = sb" "eb_peer sb = Some ca"
      "length (ep_recv_buf se) = 2048" "length (ep_send_buf se) = 2048"
    and w: "nw_watch nw w (eb_epoll_fd cb) = Some (eb_socket cb)" "nw_watch nw w (eb_epoll_fd sb) = Some (eb_socket sb)"
      "eb_socket cb \<noteq> eb_socket sb" "nw_mail nw w (eb_socket cb) = ms" "nw_mail nw w (eb_socket sb) = []"
      "ms \<noteq> []" "list_all (\<lambda>d. d \<noteq> [] \<and> length d \<le> 2048) (map fst ms)"
  shows "\<exists>ce' se'. drive_handshake pf (epoll os) pf' (epoll os) clock w ce se = Some (Ok (), ce', se') \<and>
     ep_is_established ce' \<and> ep_is_established se' \<and>
     sp_keys (get_space ApplicationData (ep_conn ce')) = Some okc \<and>
     sp_keys (get_space ApplicationData (ep_conn se')) = Some oks"
proof -
  let ?kc = "space_keys ck hkc okc" and ?ks = "space_keys sk hks oks"
  have ans: "answering 2048 ?kc ?ks (finished_data fin) (\<lambda>_. 0) c'" using client_answering [OF d(1) v(1-3) up] .
  have s': "conn_ok s'" "state s' = Established" "crypto_recv_offset s' = [k, 0, 0]" "tls s' = tls s"
    "pending_crypto s' = [[], [], []]" "pending_app_data s' = []" "\<And>i. sp_pending_acks (get_space i s') = []"
    "\<And>i. sp_next_send_pn (get_space i s') = 1" "version s' = version s" "dst_cid s' = dst_cid s"
      "src_cid s' = src_cid s"
    using d(2) v(7) by (simp_all add: server_done_def same_peer_def)
  have c': "dst_cid c' = dst_cid c" "state c' = Established" using d(1) by (simp_all add: client_done_def same_peer_def)
  have hear: "hearing ?ks i (length (dst_cid c')) s'" for i
    using d(2) v(6) s' c' by (cases i) (simp_all add: hearing_def server_done_def)
  have send: "sendable 2048 c'" "outbox c' = map (\<lambda>i. projr (sent_packet i c')) all_spaces"
    using answering_sendable [OF ans hear] by simp_all
  have box: "list_all (\<lambda>d. d \<noteq> [] \<and> length d \<le> 2048) (outbox c')" "outbox c' \<noteq> []"
    using send(1) answer_frames(2) [OF ans] unfolding send(2)
    by (auto simp: sendable_def list_all_iff all_spaces_def) (metis sum.sel(2))+
  have peeks: "peeks c' InitialSpace = 1" "peeks c' HandshakeSpace = 0" "peeks c' ApplicationData = 0"
    using d(1) by (simp_all add: client_done_def peeks_def)
  have flights: "flight_ok (2048 - 20) (keys_local (?ks i)) (keys_remote (?kc i)) (finished_data tickets i)" for i
    using down by (cases i) (simp_all add: finished_data_def)

  have "state c \<noteq> Established" using d(3) by (simp add: client_ready_def)
  have b: "ep_backend (in_world w ce) = (cb, w)" "ep_recv_buf (in_world w ce) = ep_recv_buf ce"
    "ep_send_buf (in_world w ce) = ep_send_buf ce"
    using ce(2) by (simp_all add: in_world_def)
  note e = client_step [OF l b(1) ce(3) w(1) _ _ w(4,6,7) _ send(1), unfolded b(2,3) in_world_conn ce(1,4), OF ce(5,6) i
      w(3) [symmetric], of 10]
  obtain ce' w' out where 1: "step pf (epoll os) (clock 0) 10 (in_world w ce) = Some (Ok True, ce')"
      "ep_backend ce' = (cb, w')"
      "state (ep_conn ce') = Established" "nw_watch nw w' = nw_watch nw w"
      "nw_mail nw w' (eb_socket sb) = nw_mail nw w (eb_socket sb) @ out" "map fst out = outbox c'"
      "\<And>i. sp_keys (get_space i (ep_conn ce')) = sp_keys (get_space i c')"
    by (rule e, rule that)
  have b': "ep_backend (in_world w' se) = (sb, w')" "ep_recv_buf (in_world w' se) = ep_recv_buf se"
    "ep_send_buf (in_world w' se) = ep_send_buf se"
    using se(2) by (simp_all add: in_world_def)
  have mail: "nw_mail nw w' (eb_socket sb) = out" "out \<noteq> []" "list_all (\<lambda>d. d \<noteq> [] \<and> length d \<le> 2048) (map fst out)"
    "nw_watch nw w' (eb_epoll_fd sb) = Some (eb_socket sb)"
    using 1(4-6) w(2,5) box by auto
  obtain r s4 where r: "ingest_all pf' (clock 0) (map fst out) s' = (r, s4)" "r \<noteq> Inl Panic" "state s4 = Established"
      "\<And>i. sp_keys (get_space i s4) = Some (?ks i)" "same_peer s' s4"
      "r = Ok () \<Longrightarrow> answering 2048 ?ks ?kc (finished_data tickets) (peeks c') s4"
    using hears_answer [OF ans peeks s'(1,2) hear s'(3,5-8) _ _ f [folded s'(4)] flights, of "clock 0"]
      v(4,5) s'(9,11) unfolding 1(6) by metis
  have "sendable 2048 s4" if "r = Ok ()"
  proof (rule answering_sendable(1) [OF r(6) [OF that]])
    show "hearing ?kc i (length (dst_cid s4)) c'" for i
      using d(1) c' v(6) s'(10) r(5) by (cases i) (simp_all add: hearing_def client_done_def same_peer_def)
  qed
  note e = server_step [where t = 10, OF l b'(1) se(3) mail(4) _ _ mail(1-3) _ r(2,3) this,
      unfolded b'(2,3) in_world_conn se(1), OF se(4,5) r(1)]
  obtain q se' where 2: "step pf' (epoll os) (clock 0) 10 (in_world w' se) = Some (q, se')" "q \<noteq> Inl Panic"
      "state (ep_conn se') = Established" "\<And>i. sp_keys (get_space i (ep_conn se')) = sp_keys (get_space i s4)"
    by (rule e) (assumption, rule that)
  have "drive_handshake pf (epoll os) pf' (epoll os) clock w ce se = Some (Ok (), ce', se')"
    by (rule drive_twice [where clock = clock, OF _ 1(1) _ 1(3) _ 2(2,3)]) (use \<open>state c \<noteq> Established\<close> ce(1) 1(2)
        2(1) in simp_all)
  moreover have "sp_keys (get_space ApplicationData c') = Some okc" using d(1) by (simp add: client_done_def)
  ultimately show ?thesis
    using 1(3,7) 2(3,4) r(4) by (simp add: ep_is_established_def is_established_def)
qed

lemma flight_ok_mono:
  "flight_ok cap a b d \<Longrightarrow> cap \<le> cap' \<Longrightarrow> cap' < 2 ^ 61 \<Longrightarrow> length d' \<le> length d \<Longrightarrow> flight_ok cap' a b d'"
  by (auto simp: flight_ok_def packet_bound_def)

text \<open>Connecting over the network.\<close>

lemma lossless_client:
  assumes l: "lossless os nw home" and c: "connect pf name = Ok (c, packet)"
  obtains cb s' src where "ep_client pf os to name s = (Ok (endpoint_new c (cb, s')), s')" and "eb_peer cb = Some to"
    and "eb_socket cb \<notin> nw_bound nw s" and "nw_bound nw s' = insert (eb_socket cb) (nw_bound nw s)"
    and "nw_watch nw s (eb_epoll_fd cb) = None" and "nw_watch nw s' = (nw_watch nw s)(eb_epoll_fd cb \<mapsto> eb_socket cb)"
    and "home src = eb_socket cb"
    and "home to \<noteq> eb_socket cb \<Longrightarrow> nw_mail nw s' = (nw_mail nw s)(eb_socket cb := [], home to :=
        nw_mail nw s (home to) @ [(packet, src)])"
proof -
  obtain cb s1 where 1: "epoll_open os (fst to, 0) (Some to) s = (Inr cb, s1)" "eb_peer cb = Some to"
      "eb_socket cb \<notin> nw_bound nw s" "nw_bound nw s1 = insert (eb_socket cb) (nw_bound nw s)"
      "nw_mail nw s1 = (nw_mail nw s)(eb_socket cb := [])"
      "nw_watch nw s (eb_epoll_fd cb) = None" "nw_watch nw s1 = (nw_watch nw s)(eb_epoll_fd cb \<mapsto> eb_socket cb)"
    by (rule lossless.open_socket [OF l], rule that)
  obtain n src s2 where 2: "os_send_to os (eb_socket cb) packet to s1 = (Inr n, s2)" "home src = eb_socket cb"
      "nw_same nw {home to} s1 s2" "nw_mail nw s2 (home to) = nw_mail nw s1 (home to) @ [(packet, src)]"
    using lossless.sends [OF l] by blast
  have "ep_client pf os to name s = (Ok (endpoint_new c (cb, s2)), s2)"
    using c 1(1,2) 2(1) by (simp add: ep_client_def epoll_new_def epoll_send_def Let_def)
  then show thesis
  proof (rule that [OF _ 1(2,3) _ 1(6) _ 2(2)])
    assume h: "home to \<noteq> eb_socket cb"
    show "nw_mail nw s2 = (nw_mail nw s)(eb_socket cb := [], home to := nw_mail nw s (home to) @ [(packet, src)])"
      using 1(5) 2(3,4) h by (auto simp: nw_same_def fun_eq_iff)
  qed (use 1 2(3) in \<open>simp_all add: nw_same_def\<close>)
qed

text \<open>The sockets, and the client's first packet on its way to the server, which receives it.\<close>

lemma lossless_first:
  assumes l: "lossless os nw home" and c: "connect pf name = Ok (c, packet)"
  obtains sb o1 la o2 cb o3 ca o4 o5 where "epoll_open os addr None o0 = (Inr sb, o1)" and "eb_peer sb = None"
    and "os_local_addr os (eb_socket sb) o1 = (Inr la, o2)" and "home la = eb_socket sb"
    and "ep_client pf os la name o2 = (Ok (endpoint_new c (cb, o3)), o3)" and "eb_peer cb = Some la"
    and "home ca = eb_socket cb" and "eb_socket cb \<noteq> eb_socket sb"
    and "nw_watch nw o3 (eb_epoll_fd sb) = Some (eb_socket sb)" and "nw_watch nw o3 (eb_epoll_fd cb) =
        Some (eb_socket cb)"
    and "epoll_poll os 5000 (sb, o3) = (Inr True, sb, o4)" and "os_recv_from os (eb_socket sb) o4 =
        (Inr (packet, ca), o5)"
    and "nw_mail nw o5 (eb_socket sb) = []" and "nw_watch nw o5 = nw_watch nw o3"
        and "nw_mail nw o5 (eb_socket cb) = []"
proof -
  obtain sb o1 where 1: "epoll_open os addr None o0 = (Inr sb, o1)" "eb_peer sb = None"
      "nw_bound nw o1 = insert (eb_socket sb) (nw_bound nw o0)" "nw_mail nw o1 = (nw_mail nw o0)(eb_socket sb := [])"
      "nw_watch nw o1 = (nw_watch nw o0)(eb_epoll_fd sb \<mapsto> eb_socket sb)"
    by (rule lossless.open_socket [OF l], rule that)
  obtain la o2 where 2: "os_local_addr os (eb_socket sb) o1 = (Inr la, o2)" "home la = eb_socket sb"
      "nw_same nw {} o1 o2"
    using lossless.names [OF l] by blast
  have o2: "nw_bound nw o2 = nw_bound nw o1" "nw_watch nw o2 = nw_watch nw o1" "nw_mail nw o2 = nw_mail nw o1"
    using 2(3) by (auto simp: nw_same_def)
  obtain cb o3 ca where 3: "ep_client pf os la name o2 = (Ok (endpoint_new c (cb, o3)), o3)" "eb_peer cb = Some la"
      "eb_socket cb \<notin> nw_bound nw o2" "nw_watch nw o2 (eb_epoll_fd cb) = None"
      "nw_watch nw o3 = (nw_watch nw o2)(eb_epoll_fd cb \<mapsto> eb_socket cb)" "home ca = eb_socket cb"
      "home la \<noteq> eb_socket cb \<Longrightarrow> nw_mail nw o3 = (nw_mail nw o2)(eb_socket cb := [], home la :=
        nw_mail nw o2 (home la) @ [(packet, ca)])"
    by (rule lossless_client [OF l c], rule that)
  have ne: "eb_socket cb \<noteq> eb_socket sb" using 3(3) 1(3) o2(1) by auto
  have m3: "nw_mail nw o3 (eb_socket cb) = []" "nw_mail nw o3 (eb_socket sb) = [(packet, ca)]"
    using 3(7) 2(2) 1(4) o2(3) ne by simp_all
  have fd: "nw_watch nw o3 (eb_epoll_fd sb) = Some (eb_socket sb)"
      "nw_watch nw o3 (eb_epoll_fd cb) = Some (eb_socket cb)"
    using 3(4,5) 1(5) o2(2) by auto
  obtain o4 where 4: "epoll_poll os 5000 (sb, o3) = (Inr True, sb, o4)" "nw_same nw {} o3 o4"
    using lossless.poll_mail [OF l fd(1), of 5000] m3(2) by (auto simp: epoll_def)
  have "nw_mail nw o4 (eb_socket sb) = [(packet, ca)]" using 4(2) m3(2) by (simp add: nw_same_def)
  then obtain o5 where 5: "os_recv_from os (eb_socket sb) o4 = (Inr (packet, ca), o5)" "nw_same nw {eb_socket sb} o4 o5"
      "nw_mail nw o5 (eb_socket sb) = []"
    using lossless.recv_first [OF l] by metis
  have o5: "nw_watch nw o5 = nw_watch nw o3" "nw_mail nw o5 (eb_socket cb) = []"
    using 4(2) 5(2) m3(1) ne by (simp_all add: nw_same_def)
  from that [OF 1(1,2) 2(1,2) 3(1,2,6) ne fd 4(1) 5(1,3) o5] show thesis .
qed

text \<open>The server that accepts it, once it has ingested it again.\<close>

lemma server_up:
  fixes pf :: "('t, 'c) platform" and pf' :: "('u, 'd) platform"
  assumes c: "connect pf name = Ok (c, packet)"
    and t: "client_new pf SkipVerify name = Inr t0" "tls_write_hs pf t0 = (ch, kc, t1)" "ch \<noteq> []"
    and k: "client_initial_keys (pf_provider pf) (dst_cid c) = Ok ck"
      "server_initial_keys (pf_provider pf') (dst_cid c) = Ok sk" "4 + sample_len (keys_local ck) \<le> 1100"
    and s: "server_new pf' cfg = Inr u0" "tls_read_hs pf' u0 ch = (None, u1)"
    and script: "server_flights pf' u1 sh ee fin tickets hks oks"
    and up: "flight_ok 2028 (keys_local ck) (keys_remote sk) ch"
  obtains s1 s2 where "accept pf' now packet cfg = Ok s1" and "ingest pf' now packet s1 = (Ok (length packet), s2)"
    and "length packet \<le> 2048" and "server_ready sh ee [0, 0] sk hks oks s2"
        and "server_finish pf' (tls s2) fin tickets"
    and "tls c = t1" and "version c = VERSION_1" and "length (dst_cid c) = 8" and "length (src_cid c) = 8"
    and "version s2 = VERSION_1" and "length (dst_cid s2) = 8" and "length (src_cid s2) = 8"
    and "crypto_recv_offset s2 = [of_nat (length ch), 0, 0]"
proof -
  obtain dcid scid where b: "build_initial_packet ck dcid scid ch = Ok packet"
      and r: "random_bytes pf 0 8 = (Ok dcid :: (bytes, connection_error) result)"
        "random_bytes pf 1 8 = (Ok scid :: (bytes, connection_error) result)"
      and cid: "dst_cid c = dcid" "src_cid c = scid" "version c = VERSION_1" "tls c = t1"
    using c by (rule connect_okD) (use t k(1) in auto)
  have len: "length dcid = 8" "length scid = 8"
    using length_random_bytes [OF r(1)] length_random_bytes [OF r(2)] by simp_all
  have size: "length ch + sample_len (keys_local ck) + tag_len (keys_local ck) + 2000 < 2 ^ 62"
    using flight_okD(3) [OF up] by simp
  note e = accept_then_ingest [OF flight_okD(1) [OF up] _ _ size k(3) t(3) b k(2) [unfolded cid(1)] s, of now]
  obtain hdr s1 s2 where a: "s1 = accepted_conn pf' now hdr sk ch u1"
      "s2 = space_mut InitialSpace (record_recv_pn now 0) s1"
      "accept pf' now packet cfg = Ok s1" "ingest pf' now packet s1 = (Ok (length packet), s2)"
      "lh_version hdr = VERSION_1" "lh_dst_cid hdr = ConnectionId dcid" "lh_src_cid hdr = ConnectionId scid"
      "length packet \<le> packet_bound (keys_local ck) (length ch + 10)" "packet \<noteq> []"
    by (rule e) (use len in simp, use len in simp, rule that)
  have pl: "length packet \<le> 2048" using a(8) flight_okD(4) [OF up, of "length ch + 10"] by simp
  note fl = server_flightsD(1) [OF script] server_flightsD(2) [OF script, of now hdr sk ch, folded a(1)]
  note fields = accepted_conn_fields [of pf' now hdr sk ch u1, folded a(1)]
  have sr: "server_ready sh ee [0, 0] sk hks oks s2"
    unfolding a(2) using server_ready_again [OF server_readyI [OF a(3,1) fl(1)]] .
  have "server_finish pf' (tls s2) fin tickets" using fl(2) by (simp add: a(2))
  moreover have "version s2 = VERSION_1" "length (dst_cid s2) = 8" "length (src_cid s2) = 8"
    "crypto_recv_offset s2 = [of_nat (length ch), 0, 0]"
    using fields(3-5,7) a(5-7) len by (simp_all add: a(2))
  ultimately show thesis using len cid by (intro that [OF a(3,4) pl sr]) simp_all
qed

lemma lossless_test:
  fixes pf :: "('t, 'c) platform" and pf' :: "('u, 'd) platform"
  assumes l: "lossless os nw home"
    and c: "connect pf name = Ok (c, packet)"
    and t: "client_new pf SkipVerify name = Inr t0" "tls_write_hs pf t0 = (ch, kc, t1)" "ch \<noteq> []"
    and k: "client_initial_keys (pf_provider pf) (dst_cid c) = Ok ck"
      "server_initial_keys (pf_provider pf') (dst_cid c) = Ok sk" "4 + sample_len (keys_local ck) \<le> 1100"
    and s: "server_new pf' cfg = Inr u0" "tls_read_hs pf' u0 ch = (None, u1)"
    and script: "client_script pf t1 sh ee fin hkc okc" "server_flights pf' u1 sh ee fin tickets hks oks"
    and up: "flight_ok 2028 (keys_local ck) (keys_remote sk) ch" "flight_ok 2028 (keys_local hkc) (keys_remote hks) fin"
      "flight_ok 2028 (keys_local okc) (keys_remote oks) []"
    and down: "flight_ok 2028 (keys_local sk) (keys_remote ck) sh"
        "flight_ok 2028 (keys_local hks) (keys_remote hkc) ee"
      "flight_ok 2028 (keys_local hks) (keys_remote hkc) tickets" "flight_ok 2028 (keys_local oks) (keys_remote okc) []"
  shows "\<exists>ce se. handshake_via_endpoints pf pf' os now clock addr name cfg o0 = Some (Ok (ce, se)) \<and>
     ep_is_established ce \<and> ep_is_established se \<and>
     sp_keys (get_space ApplicationData (ep_conn ce)) = Some okc \<and>
     sp_keys (get_space ApplicationData (ep_conn se)) = Some oks"
proof -
  obtain sb o1 la o2 cb o3 ca o4 o5 where n: "epoll_open os addr None o0 = (Inr sb, o1)" "eb_peer sb = None"
      "os_local_addr os (eb_socket sb) o1 = (Inr la, o2)" "home la = eb_socket sb"
      "ep_client pf os la name o2 = (Ok (endpoint_new c (cb, o3)), o3)" "eb_peer cb = Some la"
      "home ca = eb_socket cb" and ne: "eb_socket cb \<noteq> eb_socket sb"
    and fd: "nw_watch nw o3 (eb_epoll_fd sb) = Some (eb_socket sb)"
        "nw_watch nw o3 (eb_epoll_fd cb) = Some (eb_socket cb)"
    and 5: "epoll_poll os 5000 (sb, o3) = (Inr True, sb, o4)" "os_recv_from os (eb_socket sb) o4 =
        (Inr (packet, ca), o5)"
      "nw_mail nw o5 (eb_socket sb) = []" "nw_watch nw o5 = nw_watch nw o3" "nw_mail nw o5 (eb_socket cb) = []"
    by (rule lossless_first [OF l c], rule that)
  obtain s1 s2 where a: "accept pf' now packet cfg = Ok s1" "ingest pf' now packet s1 = (Ok (length packet), s2)"
      "length packet \<le> 2048" and sr: "server_ready sh ee [0, 0] sk hks oks s2" and fin:
        "server_finish pf' (tls s2) fin tickets"
    and cid: "tls c = t1" "version c = VERSION_1" "length (dst_cid c) = 8" "length (src_cid c) = 8"
    and sid: "version s2 = VERSION_1" "length (dst_cid s2) = 8" "length (src_cid s2) = 8"
        "crypto_recv_offset s2 = [of_nat (length ch), 0, 0]"
    by (rule server_up [OF c t k s script(2) up(1)], rule that)
  have v1: "version c \<noteq> VERSION_NEGOTIATION" "length (dst_cid c) \<le> 20" "length (src_cid c) \<le> 20"
    and v2: "version s2 \<noteq> VERSION_NEGOTIATION" "length (dst_cid s2) \<le> 20" "length (src_cid s2) \<le> 20"
      "length (dst_cid s2) = length (dst_cid c)"
    using cid sid by (simp_all add: VERSION_1_def VERSION_NEGOTIATION_def)
  let ?sb = "sb\<lparr>eb_peer := Some ca\<rparr>"
  define se where "se = (endpoint_new s1 (?sb, o5))\<lparr>ep_conn := s2\<rparr>"
  have se: "ep_conn se = s2" "length (ep_send_buf se) = 2048" "ep_backend se = (?sb, o5)" "eb_peer ?sb = Some ca"
    "length (ep_recv_buf se) = 2048"
    by (simp_all add: se_def endpoint_new_def MAX_DGRAM_def)
  have cr: "client_ready ck c" using client_readyI [OF c k(1)] .
  note big = flight_ok_mono [where cap' = 2048 and cap = 2028, simplified]
  note e = server_flight [OF l sr _ cr script(1) [folded cid(1)] big [OF down(1)] big [OF down(2)] big [OF down(4)]
      v2(1-3) se(1-4), of "clock 0"]
  obtain se' o6 ms c' where 6: "flush_egress (epoll os) se = Some (Ok (), se')" "ep_backend se' = (?sb, o6)"
      "nw_same nw {home ca} o5 o6" "nw_mail nw o6 (home ca) = nw_mail nw o5 (home ca) @ ms"
      "list_all (\<lambda>d. d \<noteq> [] \<and> length d \<le> 2048) (map fst ms)" "ms \<noteq> []"
      "ingest_all pf (clock 0) (map fst ms) c = (Ok (), c')" "client_done ck hkc okc fin c c'"
      "server_done sk hks oks s2 (ep_conn se')" "length (ep_send_buf se') = 2048" "ep_recv_buf se' = ep_recv_buf se"
    by (rule e) (simp add: zero_acks_def, simp, simp, simp, rule that)
  have sv: "ep_server pf' os now packet (?sb, o5) cfg = Some (Ok se', o6)"
    using a(1,2) 6(1,2) unfolding se_def by (simp add: ep_server_def endpoint_new_def)
  have o6: "nw_watch nw o6 = nw_watch nw o3" "nw_mail nw o6 (eb_socket cb) = ms" "nw_mail nw o6 (eb_socket sb) = []"
    using 6(3,4) 5(3-5) n(7) ne by (simp_all add: nw_same_def)
  define ce where "ce = endpoint_new c (cb, o3)"
  have ce: "ep_conn ce = c" "fst (ep_backend ce) = cb" "length (ep_recv_buf ce) = 2048" "length (ep_send_buf ce) = 2048"
    by (simp_all add: ce_def endpoint_new_def MAX_DGRAM_def)
  note same = flight_ok_mono [where cap' = 2028 and cap = 2028, simplified]
  have "flight_ok 2028 (keys_local ck) (keys_remote sk) []" "flight_ok 2028 (keys_local sk) (keys_remote ck) []"
    using same [OF up(1), of "[]"] same [OF down(1), of "[]"] by simp_all
  then have "\<exists>ce' se2. drive_handshake pf (epoll os) pf' (epoll os) clock o6 ce se' = Some (Ok (), ce', se2) \<and>
     ep_is_established ce' \<and> ep_is_established se2 \<and>
     sp_keys (get_space ApplicationData (ep_conn ce')) = Some okc \<and>
     sp_keys (get_space ApplicationData (ep_conn se2)) = Some oks"
    using answered [where sb = ?sb and w = o6 and clock = clock and se = se', OF l 6(8,9) cr v1 v2(1,3,4) sid(4)
        fin _ up(2,3) _ down(3,4) 6(7) ce(1,2) n(6) _ ce(3,4) refl _ se(4)
      _ 6(10)]
      n(4) 6(2,5,6,11) se(5) fd o6 ne by simp
  then obtain ce' se2 where d: "drive_handshake pf (epoll os) pf' (epoll os) clock o6 ce se' = Some (Ok (), ce', se2)"
     "ep_is_established ce'" "ep_is_established se2"
     "sp_keys (get_space ApplicationData (ep_conn ce')) = Some okc"
     "sp_keys (get_space ApplicationData (ep_conn se2)) = Some oks"
    by blast
  have rc: "epoll_recv os (replicate 2048 0) (sb, o4) =
      (Inr (length packet, ca), packet @ drop (length packet) (replicate 2048 0), ?sb, o5)"
    using 5(2) n(2) a(3) by (simp add: epoll_recv_def Let_def min_absorb1)
  have sl: "slice (packet @ drop (length packet) (replicate 2048 0)) 0 (length packet) =
      (Ok packet :: (bytes, connection_error) result)"
    by (simp add: slice_def)
  have "handshake_via_endpoints pf pf' os now clock addr name cfg o0 = Some (Ok (ce', se2))"
    using n(1,3,5) 5(1) rc sl sv d(1-3) unfolding ce_def
    by (simp add: handshake_via_endpoints_def epoll_bind_def del: drop_replicate)
  with d show ?thesis by blast
qed

end
