(* ===== verification/Network_Props.thy ===== *)
theory Network_Props
  imports Network
begin

text \<open>
  The theorem that the test of \<open>src/runtime.rs\<close> passes over a lossless network, and a loopback network.
\<close>

section \<open>A loopback network\<close>

text \<open>
  A concrete system for the witness: sockets are ports, numbered from 1; every datagram goes to the
  socket of the port it is sent to; a new epoll descriptor is larger than all that watch a socket.
\<close>

record loopback =
  lo_ports :: nat
  lo_mail :: "nat \<Rightarrow> (bytes \<times> socket_addr) list"
  lo_watch :: "(int \<times> nat) list"

definition loopback_os :: "loopback os" where
  "loopback_os = \<lparr>
     os_bind = (\<lambda>a s. let k = lo_ports s + 1 in (Inr k, s\<lparr>lo_ports := k, lo_mail := (lo_mail s)(k := [])\<rparr>)),
     os_local_addr = (\<lambda>k s. (Inr ([127, 0, 0, 1], k), s)),
     os_set_nonblocking = (\<lambda>k s. (Inr (), s)),
     os_send_to = (\<lambda>k d a s. (Inr (length d),
       s\<lparr>lo_mail := (lo_mail s)(snd a := lo_mail s (snd a) @ [(d, ([127, 0, 0, 1], k))])\<rparr>)),
     os_recv_from = (\<lambda>k s. case lo_mail s k of
         [] \<Rightarrow> (Inl WouldBlock, s)
       | m # ms \<Rightarrow> (Inr m, s\<lparr>lo_mail := (lo_mail s)(k := ms)\<rparr>)),
     os_drop_socket = (\<lambda>k s. s),
     os_epoll_create = (\<lambda>s. (Max (set (0 # map fst (lo_watch s))) + 1, s)),
     os_epoll_add = (\<lambda>fd k s. (0, s\<lparr>lo_watch := (fd, k) # lo_watch s\<rparr>)),
     os_epoll_wait = (\<lambda>fd t s. (case map_of (lo_watch s) fd of None \<Rightarrow> 0 | Some k \<Rightarrow> int (length (lo_mail s k)), s)),
     os_close = (\<lambda>fd s. s),
     os_last_error = (\<lambda>s. OtherIo)\<rparr>"

definition loopback_view :: "loopback network" where
  "loopback_view = \<lparr>nw_bound = (\<lambda>s. {1..lo_ports s}), nw_mail = lo_mail, nw_watch = (\<lambda>s. map_of (lo_watch s))\<rparr>"

interpretation loopback: lossless loopback_os loopback_view snd
proof -
  have fresh: "map_of ws (Max (set (0 # map fst ws)) + 1) = None" "0 \<le> Max (set (0 # map fst ws)) + 1"
    for ws :: "(int \<times> nat) list"
  proof -
    have m: "x \<le> Max (set (0 # map fst ws))" if "x \<in> set (0 # map fst ws)" for x
      using that by (intro Max_ge) simp_all
    then have "Max (set (0 # map fst ws)) + 1 \<notin> fst ` set ws"
      by (metis add_le_same_cancel1 list.set_intros(2) list.set_map not_one_le_zero)
    then show "map_of ws (Max (set (0 # map fst ws)) + 1) = None" by (simp add: map_of_eq_None_iff)
    show "0 \<le> Max (set (0 # map fst ws)) + 1" using m [of 0] by simp
  qed
  show "lossless loopback_os loopback_view snd"
    by unfold_locales
      (use fresh in \<open>auto simp: loopback_os_def loopback_view_def nw_same_def Let_def simp del: list.set\<close>)
qed

section \<open>Two endpoints\<close>

text \<open>
  C2: the test \<open>handshake_via_endpoints\<close> passes. Over every system with a network that loses nothing, a
  client endpoint connects to a bound server, the server accepts, and \<open>drive_handshake\<close> returns \<open>Ok\<close>
  with both endpoints established, each holding the keys of application data that its TLS gave it.
  Assumed are what TLS does on the two sides (\<open>client_script\<close>, \<open>server_flights\<close>) and that each flight,
  under matching keys, fits the send buffer less the 20 bytes that a connection ID may take.
\<close>

theorem endpoints_handshake:
  fixes pf :: "('t, 'c) platform" and pf' :: "('u, 'd) platform"
  assumes "lossless os nw home" and "connect pf name = Ok (c, packet)"
    and "client_new pf SkipVerify name = Inr t0" and "tls_write_hs pf t0 = (ch, kc, t1)" and "ch \<noteq> []"
    and "client_initial_keys (pf_provider pf) (dst_cid c) = Ok ck"
    and "server_initial_keys (pf_provider pf') (dst_cid c) = Ok sk" and "4 + sample_len (keys_local ck) \<le> 1100"
    and "server_new pf' cfg = Inr u0" and "tls_read_hs pf' u0 ch = (None, u1)"
    and "client_script pf t1 sh ee fin hkc okc" and "server_flights pf' u1 sh ee fin tickets hks oks"
    and "flight_ok 2028 (keys_local ck) (keys_remote sk) ch" and "flight_ok 2028 (keys_local hkc) (keys_remote hks) fin"
    and "flight_ok 2028 (keys_local okc) (keys_remote oks) []"
    and "flight_ok 2028 (keys_local sk) (keys_remote ck) sh" and "flight_ok 2028 (keys_local hks) (keys_remote hkc) ee"
    and "flight_ok 2028 (keys_local hks) (keys_remote hkc) tickets"
        and "flight_ok 2028 (keys_local oks) (keys_remote okc) []"
  shows "\<exists>ce se. handshake_via_endpoints pf pf' os now clock addr name cfg s0 = Some (Ok (ce, se)) \<and>
     ep_is_established ce \<and> ep_is_established se \<and>
     sp_keys (get_space ApplicationData (ep_conn ce)) = Some okc \<and>
     sp_keys (get_space ApplicationData (ep_conn se)) = Some oks"
  using assms by (rule lossless_test)

lemma toy_server_flights: "server_flights toy_platform 11 [4, 5] [6] [9] [] toy_keys toy_keys"
  by (simp add: server_flights_def server_finish_def toy_platform_def)

theorem endpoints_handshake_witness:
  "\<exists>ce se. handshake_via_endpoints toy_platform toy_platform loopback_os 0 (\<lambda>i. i) ([127, 0, 0, 1], 0) ''a'' 0
       \<lparr>lo_ports = 0, lo_mail = (\<lambda>k. []), lo_watch = []\<rparr> = Some (Ok (ce, se)) \<and>
     ep_is_established ce \<and> ep_is_established se"
proof -
  obtain packet where c: "connect toy_platform ''a'' = Ok (toy_client, packet)" using toy_connects by blast
  have f: "flight_ok 2028 (keys_local toy_keys) (keys_remote toy_keys) d" if "length d \<le> 3" for d
    using toy_match that by (simp add: toy_keys_def flight_ok_def packet_bound_def)
  have n: "[1, 2, 3 :: u8] \<noteq> []" by simp
  from endpoints_handshake [OF loopback.lossless_axioms c toy_tls(1,2) n toy_initial_keys toy_flights(6) toy_tls(3-5)
      toy_server_flights f f f f f f f]
  show ?thesis by (simp add: numeral_eq_Suc) blast
qed

end
