(* ===== verification/Text.thy ===== *)
theory Text
  imports Errors
begin

text \<open>
  What the programs use of Rust's library on strings, as functions on their UTF-8 bytes: validation,
  white space and trimming, splitting, and the parsers of numbers and socket addresses. The lemmas say
  where valid strings can be cut and what trimming and splitting leave.
\<close>

section \<open>Strings\<close>

text \<open>
  A Rust \<open>str\<close> is its UTF-8 bytes. \<open>ascii\<close> writes a literal.
\<close>

definition ascii :: "string \<Rightarrow> bytes" where
  "ascii s = map of_char s"

text \<open>\<open>std::str::from_utf8\<close>: the well-formed sequences of the Unicode standard (table 3-7).\<close>

definition cont_byte :: "u8 \<Rightarrow> bool" where
  "cont_byte b \<longleftrightarrow> 0x80 \<le> b \<and> b \<le> 0xBF"

definition second_ok :: "u8 \<Rightarrow> u8 \<Rightarrow> bool" where
  "second_ok lead b \<longleftrightarrow> cont_byte b \<and> (lead = 0xE0 \<longrightarrow> 0xA0 \<le> b) \<and> (lead = 0xED \<longrightarrow> b \<le> 0x9F) \<and>
     (lead = 0xF0 \<longrightarrow> 0x90 \<le> b) \<and> (lead = 0xF4 \<longrightarrow> b \<le> 0x8F)"

definition char_width :: "u8 \<Rightarrow> nat" where
  "char_width b = (if b < 0x80 then 1 else if 0xC2 \<le> b \<and> b \<le> 0xDF then 2
     else if 0xE0 \<le> b \<and> b \<le> 0xEF then 3 else if 0xF0 \<le> b \<and> b \<le> 0xF4 then 4 else 0)"

text \<open>The number of bytes of the character at the front.\<close>

definition char_at :: "bytes \<Rightarrow> nat option" where
  "char_at s = (case s of [] \<Rightarrow> None | lead # bs \<Rightarrow>
     let n = char_width lead in
     if 0 < n \<and> n \<le> length s \<and> (1 < n \<longrightarrow> second_ok lead (hd bs)) \<and> list_all cont_byte (take (n - 1) bs)
     then Some n else None)"

lemma char_at_SomeD: "char_at s = Some n \<Longrightarrow> s \<noteq> [] \<and> 0 < n \<and> n \<le> length s"
  by (auto simp: char_at_def Let_def split: list.splits if_splits)

function utf8_valid :: "bytes \<Rightarrow> bool" where
  "utf8_valid s \<longleftrightarrow> s = [] \<or> (case char_at s of None \<Rightarrow> False | Some n \<Rightarrow> utf8_valid (drop n s))"
  by pat_completeness auto
termination
  by (relation "measure length") (auto dest: char_at_SomeD)

declare utf8_valid.simps [simp del]

section \<open>White space\<close>

text \<open>The characters with the property \<open>White_Space\<close>, encoded.\<close>

definition white_space :: "bytes list" where
  "white_space = [[9], [10], [11], [12], [13], [32], [0xC2, 0x85], [0xC2, 0xA0], [0xE1, 0x9A, 0x80]] @
     map (\<lambda>b. [0xE2, 0x80, b]) ([0x80, 0x81, 0x82, 0x83, 0x84, 0x85, 0x86, 0x87, 0x88, 0x89, 0x8A, 0xA8, 0xA9, 0xAF]) @
     [[0xE2, 0x81, 0x9F], [0xE3, 0x80, 0x80]]"

definition starts_with :: "bytes \<Rightarrow> bytes \<Rightarrow> bool" where
  "starts_with w s \<longleftrightarrow> take (length w) s = w"

definition first_of :: "bytes list \<Rightarrow> bytes \<Rightarrow> bytes option" where
  "first_of ws s = find (\<lambda>w. w \<noteq> [] \<and> starts_with w s) ws"

lemma first_of_SomeD: "first_of ws s = Some w \<Longrightarrow> w \<in> set ws \<and> w \<noteq> [] \<and> s = w @ drop (length w) s"
  by (auto simp: first_of_def starts_with_def find_Some_iff) (metis append_take_drop_id)

lemma first_of_shorter: "first_of ws s = Some w \<Longrightarrow> length (drop (length w) s) < length s"
  by (drule first_of_SomeD) (metis add_diff_cancel_left' length_append length_drop length_greater_0_conv
      less_add_same_cancel2)

text \<open>What remains after the characters \<open>ws\<close> are stripped from the front, as often as they come.\<close>

function strip_front :: "bytes list \<Rightarrow> bytes \<Rightarrow> bytes" where
  "strip_front ws s = (case first_of ws s of None \<Rightarrow> s | Some w \<Rightarrow> strip_front ws (drop (length w) s))"
  by pat_completeness auto
termination
  by (relation "measure (\<lambda>(ws, s). length s)") (auto dest: first_of_shorter)

declare strip_front.simps [simp del]

definition trim_start :: "bytes \<Rightarrow> bytes" where
  "trim_start s = strip_front white_space s"

definition trim_end :: "bytes \<Rightarrow> bytes" where
  "trim_end s = rev (strip_front (map rev white_space) (rev s))"

definition trim :: "bytes \<Rightarrow> bytes" where
  "trim s = trim_end (trim_start s)"

text \<open>\<open>split_whitespace\<close>; \<open>cur\<close> is the word read so far, backwards.\<close>

function split_words :: "bytes \<Rightarrow> bytes \<Rightarrow> bytes list" where
  "split_words cur s = (case first_of white_space s of
       Some w \<Rightarrow> (if cur = [] then [] else [rev cur]) @ split_words [] (drop (length w) s)
     | None \<Rightarrow> (case s of
         [] \<Rightarrow> (if cur = [] then [] else [rev cur])
       | b # bs \<Rightarrow> split_words (b # cur) bs))"
  by pat_completeness auto
termination
  by (relation "measure (\<lambda>(cur, s). length s)") (auto dest: first_of_shorter)

declare split_words.simps [simp del]

definition split_whitespace :: "bytes \<Rightarrow> bytes list" where
  "split_whitespace s = split_words [] s"

section \<open>Other operations on strings\<close>

definition strip_prefix :: "bytes \<Rightarrow> bytes \<Rightarrow> bytes option" where
  "strip_prefix p s = (if starts_with p s then Some (drop (length p) s) else None)"

text \<open>\<open>trim_end_matches\<close> with an ASCII character.\<close>

definition trim_end_matches :: "u8 \<Rightarrow> bytes \<Rightarrow> bytes" where
  "trim_end_matches c s = rev (dropWhile (\<lambda>b. b = c) (rev s))"

text \<open>\<open>splitn\<close> with an ASCII character.\<close>

fun splitn :: "nat \<Rightarrow> u8 \<Rightarrow> bytes \<Rightarrow> bytes list" where
  "splitn 0 c s = []"
| "splitn (Suc 0) c s = [s]"
| "splitn (Suc (Suc n)) c s = (if c \<in> set s
     then takeWhile (\<lambda>b. b \<noteq> c) s # splitn (Suc n) c (tl (dropWhile (\<lambda>b. b \<noteq> c) s)) else [s])"

definition nth_item :: "nat \<Rightarrow> 'a list \<Rightarrow> 'a option" where
  "nth_item n xs = (if n < length xs then Some (xs ! n) else None)"

text \<open>\<open>chunks\<close>: pieces of \<open>n\<close> elements, the last one may be shorter.\<close>

function chunks :: "nat \<Rightarrow> 'a list \<Rightarrow> 'a list list" where
  "chunks n xs = (if xs = [] \<or> n = 0 then [] else take n xs # chunks n (drop n xs))"
  by pat_completeness auto
termination
  by (relation "measure (\<lambda>(n, xs). length xs)") auto

declare chunks.simps [simp del]

section \<open>Numbers\<close>

definition is_digit :: "u8 \<Rightarrow> bool" where
  "is_digit b \<longleftrightarrow> 48 \<le> b \<and> b \<le> 57"

definition digit :: "u8 \<Rightarrow> int" where
  "digit b = uint (b - 48)"

text \<open>\<open>s.parse::<u16>()\<close>: digits behind an optional plus sign, no overflow.\<close>

definition parse_u16 :: "bytes \<Rightarrow> nat option" where
  "parse_u16 s = (let ds = (if starts_with [43] s then tl s else s);
       v = foldl (\<lambda>v b. 10 * v + digit b) 0 ds in
     if ds \<noteq> [] \<and> list_all is_digit ds \<and> v < 65536 then Some (nat v) else None)"

section \<open>Socket addresses\<close>

text \<open>
  \<open>SocketAddr::from_str\<close>. A reader takes a value from the front of a string, or fails. A number of the
  given radix has at most \<open>max_digits\<close> digits (if there is a limit) and lies below \<open>bound\<close>; leading zeros
  are allowed or not.
\<close>

definition hex_digit :: "int \<Rightarrow> u8 \<Rightarrow> int option" where
  "hex_digit radix b = (let v = (if is_digit b then uint (b - 48)
       else if 97 \<le> b \<and> b \<le> 102 then uint (b - 97) + 10
       else if 65 \<le> b \<and> b \<le> 70 then uint (b - 65) + 10 else 16) in if v < radix then Some v else None)"

definition read_number :: "int \<Rightarrow> nat option \<Rightarrow> int \<Rightarrow> bool \<Rightarrow> bytes \<Rightarrow> (int \<times> bytes) option" where
  "read_number radix max_digits bound zeros s =
     (let ds = takeWhile (\<lambda>b. hex_digit radix b \<noteq> None) s;
          v = foldl (\<lambda>v b. radix * v + the (hex_digit radix b)) 0 ds in
      if ds = [] \<or> (case max_digits of None \<Rightarrow> False | Some m \<Rightarrow> m < length ds) \<or> bound \<le> v \<or>
         (\<not> zeros \<and> hd ds = 48 \<and> 1 < length ds)
      then None else Some (v, drop (length ds) s))"

definition read_char :: "u8 \<Rightarrow> bytes \<Rightarrow> bytes option" where
  "read_char c s = (case s of b # bs \<Rightarrow> if b = c then Some bs else None | [] \<Rightarrow> None)"

text \<open>\<open>n\<close> items with the separator before each but the first.\<close>

definition read_octet :: "bool \<Rightarrow> bytes \<Rightarrow> (u8 \<times> bytes) option" where
  "read_octet dot s = Option.bind (if dot then read_char 46 s else Some s) (\<lambda>s.
     Option.bind (read_number 10 (Some 3) 256 False s) (\<lambda>(v, s). Some (of_int v, s)))"

definition read_ipv4 :: "bytes \<Rightarrow> (bytes \<times> bytes) option" where
  "read_ipv4 s =
     Option.bind (read_octet False s) (\<lambda>(a, s). Option.bind (read_octet True s) (\<lambda>(b, s).
     Option.bind (read_octet True s) (\<lambda>(c, s). Option.bind (read_octet True s) (\<lambda>(d, s).
     Some ([a, b, c, d], s)))))"

text \<open>
  \<open>read_groups\<close> of an IPv6 address, from group \<open>i\<close> of \<open>n\<close> on: pairs of bytes, the rest of the string, and
  whether an IPv4 address ended it.
\<close>

function read_groups :: "nat \<Rightarrow> nat \<Rightarrow> bytes \<Rightarrow> bytes \<times> bytes \<times> bool" where
  "read_groups i n s =
     (if n \<le> i then ([], s, False)
      else
        let rest = (if 0 < i then read_char 58 s else Some s) in
        case (if i < n - 1 then Option.bind rest read_ipv4 else None) of
          Some (ip, s) \<Rightarrow> (ip, s, True)
        | None \<Rightarrow> (case Option.bind rest (read_number 16 (Some 4) 65536 True) of
            None \<Rightarrow> ([], s, False)
          | Some (g, s) \<Rightarrow> (case read_groups (i + 1) n s of
              (gs, s, v4) \<Rightarrow> (of_int (g div 256) # of_int (g mod 256) # gs, s, v4))))"
  by pat_completeness auto
termination
  by (relation "measure (\<lambda>(i, n, s). n - i)") auto

declare read_groups.simps [simp del]

definition read_ipv6 :: "bytes \<Rightarrow> (bytes \<times> bytes) option" where
  "read_ipv6 s = (case read_groups 0 8 s of (front, s, v4) \<Rightarrow>
     if length front = 16 then Some (front, s)
     else if v4 then None
     else Option.bind (read_char 58 s) (\<lambda>s. Option.bind (read_char 58 s) (\<lambda>s.
       case read_groups 0 (8 - (length front div 2 + 1)) s of (back, s, _) \<Rightarrow>
         Some (front @ replicate (16 - length front - length back) 0 @ back, s))))"

definition read_port :: "bytes \<Rightarrow> (int \<times> bytes) option" where
  "read_port s = Option.bind (read_char 58 s) (read_number 10 None 65536 True)"

definition read_scope :: "bytes \<Rightarrow> bytes" where
  "read_scope s = (case Option.bind (read_char 37 s) (read_number 10 None (2 ^ 32) True) of
     Some (_, s) \<Rightarrow> s | None \<Rightarrow> s)"

text \<open>An address with its port; the scope of an IPv6 address is read and not kept.\<close>

definition parse_socket_addr :: "bytes \<Rightarrow> (bytes \<times> nat) option" where
  "parse_socket_addr s =
     (let v4 = Option.bind (read_ipv4 s) (\<lambda>(ip, s). Option.bind (read_port s) (\<lambda>(p, s). Some ((ip, nat p), s)));
          v6 = Option.bind (read_char 91 s) (\<lambda>s. Option.bind (read_ipv6 s) (\<lambda>(ip, s).
            Option.bind (read_char 93 (read_scope s)) (\<lambda>s. Option.bind (read_port s) (\<lambda>(p, s). Some ((ip, nat p),
                s))))) in
      case (if v4 \<noteq> None then v4 else v6) of
        Some (a, []) \<Rightarrow> Some a
      | _ \<Rightarrow> None)"

section \<open>Valid strings\<close>

lemma utf8_Nil [simp]: "utf8_valid []"
  by (simp add: utf8_valid.simps)

lemma utf8_step: "char_at s = Some n \<Longrightarrow> utf8_valid s = utf8_valid (drop n s)"
  using char_at_SomeD by (subst utf8_valid.simps) auto

lemma utf8_char: "utf8_valid s \<Longrightarrow> s \<noteq> [] \<Longrightarrow> \<exists>n. char_at s = Some n"
  by (subst (asm) utf8_valid.simps) (auto split: option.splits)

lemma char_at_append: "n \<le> length a \<Longrightarrow> char_at (a @ b) = Some n \<longleftrightarrow> char_at a = Some n"
proof (cases a)
  case Nil
  assume "n \<le> length a"
  then show ?thesis using Nil char_at_SomeD [of b n] by (auto simp: char_at_def)
next
  case (Cons x a')
  assume n: "n \<le> length a"
  have "take (n - 1) (a' @ b) = take (n - 1) a'" using n Cons by simp
  moreover have "1 < n \<Longrightarrow> hd (a' @ b) = hd a'" using n Cons by (cases a') simp_all
  ultimately show ?thesis using n Cons by (auto simp: char_at_def Let_def)
qed

lemma utf8_append: "utf8_valid a \<Longrightarrow> utf8_valid (a @ b) = utf8_valid b"
proof (induction a rule: length_induct)
  case (1 a)
  show ?case
  proof (cases "a = []")
    case False
    then obtain n where n: "char_at a = Some n" using utf8_char 1(2) by blast
    note l = char_at_SomeD [OF n]
    have "char_at (a @ b) = Some n" using n l by (simp add: char_at_append)
    then have "utf8_valid (a @ b) = utf8_valid (drop n a @ b)" using l by (simp add: utf8_step)
    also have "\<dots> = utf8_valid b" using 1 utf8_step [OF n] l by simp
    finally show ?thesis .
  qed simp
qed

text \<open>A string can be cut before any byte that does not continue a character.\<close>

lemma utf8_cut:
  assumes "utf8_valid (a @ b)" and c: "b = [] \<or> \<not> cont_byte (hd b)"
  shows "utf8_valid a \<and> utf8_valid b"
  using assms(1)
proof (induction a rule: length_induct)
  case (1 a)
  show ?case
  proof (cases a)
    case Nil
    with 1(2) show ?thesis by simp
  next
    case (Cons x a')
    then obtain n where n: "char_at (a @ b) = Some n" using utf8_char [OF 1(2)] by auto
    note l = char_at_SomeD [OF n]
    have "n \<le> length a"
    proof (rule ccontr)
      assume "\<not> n \<le> length a"
      then have m: "length a' < n - 1" "length a < n" using Cons by simp_all
      then have "b \<noteq> []" using l by auto
      have "list_all cont_byte (take (n - 1) (a' @ b))"
        using n Cons by (auto simp: char_at_def Let_def split: if_splits)
      moreover have "hd b \<in> set (take (n - 1) (a' @ b))"
        using m \<open>b \<noteq> []\<close> by (cases b) (auto simp: take_Cons')
      ultimately show False using c \<open>b \<noteq> []\<close> by (auto simp: list_all_iff)
    qed
    then have a: "char_at a = Some n" using n by (simp add: char_at_append)
    have "utf8_valid (drop n a @ b)" using 1(2) utf8_step [OF n] \<open>n \<le> length a\<close> by simp
    then have "utf8_valid (drop n a) \<and> utf8_valid b" using 1(1) l Cons
        by (metis \<open>n \<le> length a\<close> diff_less length_drop length_greater_0_conv list.distinct(1))
    then show ?thesis using utf8_step [OF a] by simp
  qed
qed

lemma utf8_ascii: "list_all (\<lambda>b. b < 0x80) s \<Longrightarrow> utf8_valid s"
proof (induction s)
  case (Cons b s)
  then have "char_at (b # s) = Some 1" by (simp add: char_at_def char_width_def)
  then show ?case using Cons by (simp add: utf8_step)
qed simp

lemma ascii_not_cont: "b < 0x80 \<Longrightarrow> \<not> cont_byte b"
  by (auto simp: cont_byte_def)

lemma white_space_facts: "list_all (\<lambda>w. utf8_valid w \<and> w \<noteq> [] \<and> \<not> cont_byte (hd w) \<and> \<not> (33 \<le> hd w \<and> hd w < 0x80))
    white_space"
  by code_simp

lemma white_space_valid: "w \<in> set white_space \<Longrightarrow> utf8_valid w \<and> w \<noteq> [] \<and> \<not> cont_byte (hd w)"
  and white_space_hd: "w \<in> set white_space \<Longrightarrow> \<not> (33 \<le> hd w \<and> hd w < 0x80)"
  using white_space_facts by (auto simp: list_all_iff)

section \<open>Trimming\<close>

text \<open>A string without white space at its end.\<close>

definition tight :: "bytes \<Rightarrow> bool" where
  "tight s \<longleftrightarrow> (\<forall>w u. w \<in> set white_space \<longrightarrow> s \<noteq> u @ w)"

lemma first_of_None: "first_of ws s = None \<longleftrightarrow> (\<forall>w \<in> set ws. w \<noteq> [] \<longrightarrow> \<not> starts_with w s)"
  by (auto simp: first_of_def find_None_iff)

lemma starts_with_iff: "starts_with w s \<longleftrightarrow> (\<exists>u. s = w @ u)"
  by (metis append_eq_conv_conj append_take_drop_id starts_with_def)

lemma trim_end_tight: "tight s \<Longrightarrow> trim_end s = s"
proof -
  assume t: "tight s"
  have "first_of (map rev white_space) (rev s) = None"
    unfolding first_of_None
  proof (intro ballI impI notI)
    fix w assume w: "w \<in> set (map rev white_space)" "starts_with w (rev s)"
    then obtain u where "rev s = w @ u" by (auto simp: starts_with_iff)
    then have "s = rev u @ rev w" by (metis rev_append rev_rev_ident)
    moreover have "rev w \<in> set white_space" using w(1) by auto
    ultimately show False using t by (auto simp: tight_def)
  qed
  then show ?thesis by (simp add: trim_end_def strip_front.simps)
qed

lemma trim_end_line: "b = 10 \<or> b = 13 \<Longrightarrow> trim_end (s @ [b]) = trim_end s"
proof -
  assume "b = 10 \<or> b = 13"
  then have f: "first_of (map rev white_space) (b # rev s) = Some [b]"
    by (elim disjE) (simp_all add: first_of_def white_space_def starts_with_def)
  have "strip_front (map rev white_space) (b # rev s) = strip_front (map rev white_space) (rev s)"
    by (subst strip_front.simps) (simp add: f)
  then show ?thesis by (simp add: trim_end_def)
qed

lemma trim_start_word: "s \<noteq> [] \<Longrightarrow> 33 \<le> hd s \<Longrightarrow> hd s < 0x80 \<Longrightarrow> trim_start s = s"
proof -
  assume s: "s \<noteq> []" "33 \<le> hd s" "hd s < 0x80"
  then have "first_of white_space s = None"
    using white_space_hd by (auto simp: first_of_None starts_with_iff)
  then show ?thesis by (simp add: trim_start_def strip_front.simps)
qed

lemma tight_suffix: "tight (u @ s) \<Longrightarrow> tight s"
  by (auto simp: tight_def)

section \<open>Words\<close>

lemma split_words_ok:
  assumes "utf8_valid (rev cur @ s)"
    and "\<And>x y w. cur = x @ y \<Longrightarrow> x \<noteq> [] \<Longrightarrow> w \<in> set white_space \<Longrightarrow> \<not> starts_with w (rev x @ s)"
    and "u \<in> set (split_words cur s)"
  shows "utf8_valid u \<and> tight u"
  using assms
proof (induction cur s arbitrary: u rule: split_words.induct)
  case (1 cur s)
  have tight: "tight (rev cur)"
    unfolding tight_def
  proof (intro allI impI notI)
    fix w u assume w: "w \<in> set white_space" "rev cur = u @ w"
    then have "cur = rev w @ rev u" by (metis rev_append rev_rev_ident)
    moreover have "rev w \<noteq> []" using white_space_valid [OF w(1)] by simp
    ultimately have "\<not> starts_with w (rev (rev w) @ s)" using "1.prems"(2) w(1) by blast
    then show False by (simp add: starts_with_iff)
  qed
  show ?case
  proof (cases "first_of white_space s")
    case (Some w)
    note w = first_of_SomeD [OF Some]
    note v = white_space_valid [OF conjunct1 [OF w]]
    define r where "r = drop (length w) s"
    have s: "s = w @ r" using w by (simp add: r_def)
    have "s = [] \<or> \<not> cont_byte (hd s)" using v s by simp
    from utf8_cut [OF "1.prems"(1) this] have c: "utf8_valid (rev cur)" "utf8_valid s" by simp_all
    then have "utf8_valid r" using v utf8_append [of w r] s by simp
    moreover have "u \<in> set (split_words [] r) \<or> u = rev cur"
      using "1.prems"(3) Some by (auto simp: split_words.simps [of cur s] r_def split: if_splits)
    moreover have "utf8_valid u \<and> tight u" if "u \<in> set (split_words [] r)"
      using "1.IH"(2) [OF Some, of u] that \<open>utf8_valid r\<close> by (simp add: r_def)
    ultimately show ?thesis using c tight by auto
  next
    case None
    show ?thesis
    proof (cases s)
      case Nil
      then show ?thesis using "1.prems"(1,3) None tight
        by (auto simp: split_words.simps [of cur "[]"] split: if_splits)
    next
      case (Cons b bs)
      have "u \<in> set (split_words (b # cur) bs)" using "1.prems"(3) None Cons
          by (simp add: split_words.simps [of cur "b # bs"])
      moreover have "utf8_valid (rev (b # cur) @ bs)" using "1.prems"(1) Cons by simp
      moreover have "\<not> starts_with w (rev x @ bs)" if t: "b # cur = x @ y" "x \<noteq> []" "w \<in> set white_space" for x y w
      proof -
        obtain x' where x: "x = b # x'" "cur = x' @ y" using t(1,2) by (cases x) auto
        have "\<not> starts_with w (rev x' @ s)"
        proof (cases "x' = []")
          case True
          then show ?thesis using None t(3) white_space_valid [OF t(3)] by (simp add: first_of_None)
        next
          case False
          then show ?thesis using "1.prems"(2) x(2) t(3) by blast
        qed
        then show ?thesis using x(1) Cons by simp
      qed
      ultimately show ?thesis using "1.IH"(1) [OF None Cons] by blast
    qed
  qed
qed

lemma split_whitespace_ok: "utf8_valid s \<Longrightarrow> u \<in> set (split_whitespace s) \<Longrightarrow> utf8_valid u \<and> tight u"
  unfolding split_whitespace_def by (rule split_words_ok [of "[]"]) simp_all

lemma splitn_last:
  "p \<in> set (splitn n c s) \<Longrightarrow> length (splitn n c s) = n \<Longrightarrow> p = last (splitn n c s) \<Longrightarrow> \<exists>u. s = u @ p \<and> (u = [] \<or> last u = c)"
proof (induction n c s arbitrary: p rule: splitn.induct)
  case (3 n c s)
  show ?case
  proof (cases "c \<in> set s")
    case True
    let ?r = "tl (dropWhile (\<lambda>b. b \<noteq> c) s)"
    have s: "s = takeWhile (\<lambda>b. b \<noteq> c) s @ c # ?r"
      using True by (metis (mono_tags, lifting) dropWhile_eq_Nil_conv hd_dropWhile list.collapse takeWhile_dropWhile_id)
    have l: "length (splitn (Suc n) c ?r) = Suc n" "splitn (Suc n) c ?r \<noteq> []" "p = last (splitn (Suc n) c ?r)"
      using 3(3,4) True by (auto split: if_splits)
    then obtain u where u: "?r = u @ p" "u = [] \<or> last u = c"
      using 3(1) [OF True, of p] by (metis last_in_set)
    let ?u = "takeWhile (\<lambda>b. b \<noteq> c) s @ c # u"
    have "s = ?u @ p" "last ?u = c" using s u by auto
    then show ?thesis by blast
  next
    case False
    with 3(3) show ?thesis by simp
  qed
qed simp_all

end
