(* ===== verification/Interop.thy ===== *)
theory Interop
  imports Text Runtime
begin

text \<open>
  \<open>src/bin/deerquic-interop.rs\<close>, the program that the QUIC interop runner starts: a server that answers
  HTTP/0.9 requests with files, and a client that downloads a list of URLs, over the endpoints of
  \<open>Runtime\<close>. Every call of the source is in order; sleeping is left out, as the time of a step is the
  parameter \<open>clock\<close>. A loop without a bound is a partial function into \<open>option\<close>.
\<close>

section \<open>The surroundings of the program\<close>

text \<open>
  Environment variables, files and the PEM reader of rustls are the parameter \<open>host\<close>, with a state of
  type \<open>'w\<close>. A path is a string; a log file is named by a number. \<open>h_create_parents\<close> stands for
  \<open>create_dir_all\<close> on the parent of a path, whose result the program drops.
\<close>

datatype log_line =
    LogServerStarting bytes | LogClientStarting bytes socket_addr | LogRecvError io_error
  | LogFailed connection_error | LogAccepted | LogHandshakeComplete | LogTimeout | LogEmptyRequest
  | LogRequest bytes bytes | LogServing nat | LogNotFound io_error | LogRequests bytes
  | LogRequesting bytes | LogSaved nat bytes | LogDone

record ('c, 'w) host =
  h_var :: "bytes \<Rightarrow> 'w \<Rightarrow> bytes option"
  h_read :: "bytes \<Rightarrow> 'w \<Rightarrow> (io_error + bytes) \<times> 'w"
  h_create :: "bytes \<Rightarrow> 'w \<Rightarrow> (io_error + nat) \<times> 'w"
  h_log :: "nat \<Rightarrow> log_line \<Rightarrow> 'w \<Rightarrow> (io_error + unit) \<times> 'w"
  h_write :: "bytes \<Rightarrow> bytes \<Rightarrow> 'w \<Rightarrow> (io_error + unit) \<times> 'w"
  h_create_parents :: "bytes \<Rightarrow> 'w \<Rightarrow> 'w"
  h_server_config :: "bytes \<Rightarrow> bytes \<Rightarrow> 'c option"

text \<open>How the program can end, besides \<open>Ok(())\<close>: the kinds of \<open>io::Error\<close> it makes, and \<open>process::exit\<close>.\<close>

datatype interop_error = Io io_error | InvalidData | InvalidInput | Quic connection_error | ExitCode nat

text \<open>A program with state \<open>'s\<close>; \<open>None\<close> is not returning.\<close>

type_synonym ('s, 'a) prog = "'s \<Rightarrow> (('a, interop_error) result \<times> 's) option"

definition seqP :: "('s, 'a) prog \<Rightarrow> ('a \<Rightarrow> ('s, 'b) prog) \<Rightarrow> ('s, 'b) prog" where
  "seqP m k s = Option.bind (m s) (\<lambda>(r, s). case r of Inl e \<Rightarrow> Some (Inl e, s) | Inr x \<Rightarrow> k x s)"

text \<open>\<open>writeln!(log, ..)?\<close>, next to an endpoint.\<close>

definition write_log :: "('c, 'w) host \<Rightarrow> nat \<Rightarrow> log_line \<Rightarrow> ('e \<times> 'w, unit) prog" where
  "write_log h log line s = (case h_log h log line (snd s) of
       (Inl e, w) \<Rightarrow> Some (Error (Io e), fst s, w)
     | (Inr _, w) \<Rightarrow> Some (Ok (), fst s, w))"

text \<open>The log file, or the one in \<open>/tmp\<close>; without either, a panic.\<close>

definition open_log :: "('c, 'w) host \<Rightarrow> bytes \<Rightarrow> bytes \<Rightarrow> 'w \<Rightarrow> (nat, interop_error) result \<times> 'w" where
  "open_log h path fallback w = (case h_create h path w of
       (Inr log, w) \<Rightarrow> (Ok log, w)
     | (Inl e, w) \<Rightarrow> (case h_create h fallback w of
         (Inr log, w) \<Rightarrow> (Ok log, w)
       | (Inl e, w) \<Rightarrow> (Panics, w)))"

definition testcase :: "('c, 'w) host \<Rightarrow> 'w \<Rightarrow> bytes" where
  "testcase h w = (case h_var h (ascii ''TESTCASE'') w of Some tc \<Rightarrow> tc | None \<Rightarrow> ascii ''handshake'')"

definition is_supported :: "bytes \<Rightarrow> bool" where
  "is_supported tc \<longleftrightarrow> tc = ascii ''handshake'' \<or> tc = ascii ''transfer''"

definition load_server_config ::
  "('c, 'w) host \<Rightarrow> bytes \<Rightarrow> bytes \<Rightarrow> 'w \<Rightarrow> ('c, interop_error) result \<times> 'w" where
  "load_server_config h cert_path key_path w = (case h_read h cert_path w of
       (Inl e, w) \<Rightarrow> (Error (Io e), w)
     | (Inr cert_pem, w) \<Rightarrow> (case h_read h key_path w of
         (Inl e, w) \<Rightarrow> (Error (Io e), w)
       | (Inr key_pem, w) \<Rightarrow> (case h_server_config h cert_pem key_pem of
           None \<Rightarrow> (Error InvalidData, w)
         | Some config \<Rightarrow> (Ok config, w))))"

section \<open>Loops that both sides have\<close>

text \<open>\<open>loop { let _ = step(100); if is_established() { break } }\<close>: without a bound on the iterations.\<close>

partial_function (option) wait_established ::
  "('t, 'c) platform \<Rightarrow> 'b backend \<Rightarrow> (nat \<Rightarrow> nat) \<Rightarrow> nat \<Rightarrow> ('t, 'b) endpoint \<Rightarrow>
     ((unit, interop_error) result \<times> ('t, 'b) endpoint) option" where
  "wait_established pf B clock i ep =
     Option.bind (step pf B (clock i) 100 ep) (\<lambda>(r, ep).
       if r = Inl Panic then Some (Panics, ep)
       else if ep_is_established ep then Some (Ok (), ep)
       else wait_established pf B clock (i + 1) ep)"

text \<open>
  \<open>loop { let n = egest(&mut buf).unwrap_or(0); if n == 0 { break } let _ = send(&buf[..n]) }\<close> with a
  buffer of 2048 bytes.
\<close>

partial_function (option) pump ::
  "'b backend \<Rightarrow> ('t, 'b) endpoint \<Rightarrow> ((unit, interop_error) result \<times> ('t, 'b) endpoint) option" where
  "pump B ep =
     (case egest 2048 (ep_conn ep) of
        (Inl Panic, c) \<Rightarrow> Some (Panics, ep\<lparr>ep_conn := c\<rparr>)
      | (Inl (Err e), c) \<Rightarrow> Some (Ok (), ep\<lparr>ep_conn := c\<rparr>)
      | (Inr packet, c) \<Rightarrow>
          if packet = [] then Some (Ok (), ep\<lparr>ep_conn := c\<rparr>)
          else pump B (ep\<lparr>ep_conn := c, ep_backend := snd (be_send B packet (ep_backend ep))\<rparr>))"

text \<open>\<open>conn_mut().send_data(data)\<close> followed by this loop.\<close>

definition send_and_pump ::
  "'b backend \<Rightarrow> bytes \<Rightarrow> ('t, 'b) endpoint \<Rightarrow> ((unit, interop_error) result \<times> ('t, 'b) endpoint) option" where
  "send_and_pump B data ep = pump B (ep\<lparr>ep_conn := send_data data (ep_conn ep)\<rparr>)"

section \<open>The server\<close>

text \<open>Waiting for the client's first datagram; an error of \<open>poll\<close> is a panic (\<open>expect\<close>).\<close>

partial_function (option) await_initial ::
  "'b backend \<Rightarrow> bytes \<Rightarrow> 'b \<Rightarrow> ((bytes, io_error) result \<times> 'b) option" where
  "await_initial B buf b =
     (case be_poll B 5000 b of
        (Inl e, b) \<Rightarrow> Some (Panics, b)
      | (Inr worked, b) \<Rightarrow> (case be_recv B buf b of
          (Inr (n, addr), buf, b) \<Rightarrow> if n = 0 then await_initial B buf b else Some (slice buf 0 n, b)
        | (Inl e, buf, b) \<Rightarrow> if e = WouldBlock then await_initial B buf b else Some (Error e, b)))"

text \<open>The text of a request, and the path it names.\<close>

definition request_text :: "bytes \<Rightarrow> bytes" where
  "request_text bs = trim (if utf8_valid bs then bs else [])"

definition request_path :: "bytes \<Rightarrow> bytes" where
  "request_path req = trim_end_matches 10 (trim_end_matches 13
     (case strip_prefix (ascii ''GET /'') req of Some p \<Rightarrow> p | None \<Rightarrow> req))"

text \<open>Waiting for a request; \<open>None\<close> is the timeout, after more than 50 idle turns.\<close>

function await_request ::
  "('t, 'c) platform \<Rightarrow> 'b backend \<Rightarrow> (nat \<Rightarrow> nat) \<Rightarrow> nat \<Rightarrow> ('t, 'b) endpoint \<Rightarrow>
     ((bytes option, interop_error) result \<times> ('t, 'b) endpoint) option" where
  "await_request pf B clock idle ep =
     (case step pf B (clock idle) 100 ep of
        None \<Rightarrow> None
      | Some (r, ep) \<Rightarrow>
          if r = Inl Panic then Some (Panics, ep)
          else case recv_data 2048 (ep_conn ep) of (bs, c) \<Rightarrow>
            let ep = ep\<lparr>ep_conn := c\<rparr> in
            if bs \<noteq> [] then Some (Ok (Some (request_text bs)), ep)
            else if idle + 1 > 50 then Some (Ok None, ep)
            else await_request pf B clock (idle + 1) ep)"
  by pat_completeness auto
termination
  by (relation "measure (\<lambda>(pf, B, clock, idle, ep). 51 - idle)") auto

declare await_request.simps [simp del]

text \<open>\<open>for chunk in data.chunks(1024)\<close>\<close>

fun send_chunks ::
  "'b backend \<Rightarrow> bytes list \<Rightarrow> ('t, 'b) endpoint \<Rightarrow> ((unit, interop_error) result \<times> ('t, 'b) endpoint) option" where
  "send_chunks B [] ep = Some (Ok (), ep)"
| "send_chunks B (chunk # rest) ep = seqP (send_and_pump B chunk) (\<lambda>_. send_chunks B rest) ep"

definition serve_data ::
  "'b backend \<Rightarrow> bytes \<Rightarrow> ('t, 'b) endpoint \<Rightarrow> ((unit, interop_error) result \<times> ('t, 'b) endpoint) option" where
  "serve_data B data ep = send_chunks B (chunks 1024 data) ep"

text \<open>One turn of the serving loop: whether it goes on.\<close>

definition file_path :: "bytes \<Rightarrow> bytes \<Rightarrow> bytes" where
  "file_path docroot req = docroot @ ascii ''/'' @ request_path req"

definition answer_request ::
  "'b backend \<Rightarrow> ('c, 'w) host \<Rightarrow> bytes \<Rightarrow> nat \<Rightarrow> bytes \<Rightarrow> (('t, 'b) endpoint \<times> 'w, unit) prog" where
  "answer_request B h docroot log req = seqP (write_log h log (LogRequest req (file_path docroot req))) (\<lambda>_ (ep, w).
     case h_read h (file_path docroot req) w of
       (Inr data, w) \<Rightarrow> seqP (write_log h log (LogServing (length data))) (\<lambda>_ (ep, w).
         Option.bind (serve_data B data ep) (\<lambda>(r, ep). Some (r, ep, w))) (ep, w)
     | (Inl e, w) \<Rightarrow> write_log h log (LogNotFound e) (ep, w))"

partial_function (option) serve ::
  "('t, 'c) platform \<Rightarrow> 'b backend \<Rightarrow> ('k, 'w) host \<Rightarrow> (nat \<Rightarrow> nat \<Rightarrow> nat) \<Rightarrow> bytes \<Rightarrow> nat \<Rightarrow> nat \<Rightarrow>
     ('t, 'b) endpoint \<times> 'w \<Rightarrow> ((unit, interop_error) result \<times> ('t, 'b) endpoint \<times> 'w) option" where
  "serve pf B h clock docroot log k s =
     Option.bind (await_request pf B (clock k) 0 (fst s)) (\<lambda>(r, ep).
     case r of
       Inl e \<Rightarrow> Some (Inl e, ep, snd s)
     | Inr None \<Rightarrow> write_log h log LogTimeout (ep, snd s)
     | Inr (Some req) \<Rightarrow>
         if req = [] then write_log h log LogEmptyRequest (ep, snd s)
         else Option.bind (answer_request B h docroot log req (ep, snd s)) (\<lambda>(r, s).
           case r of Inl e \<Rightarrow> Some (Inl e, s) | Inr _ \<Rightarrow> serve pf B h clock docroot log (k + 1) s))"

text \<open>An endpoint that goes out of scope closes its descriptors.\<close>

definition close_endpoint ::
  "'o os \<Rightarrow> ('r \<times> ('t, epoll_backend \<times> 'o) endpoint \<times> 'w) \<Rightarrow> 'r \<times> 'o \<times> 'w" where
  "close_endpoint os x = (case x of (r, ep, w) \<Rightarrow> (r, epoll_drop os (ep_backend ep), w))"

text \<open>What the server does once it has accepted a connection.\<close>

definition run_accepted ::
  "('t, 'c) platform \<Rightarrow> 'b backend \<Rightarrow> ('k, 'w) host \<Rightarrow> (nat \<Rightarrow> nat \<Rightarrow> nat) \<Rightarrow> nat \<Rightarrow> (('t, 'b) endpoint \<times> 'w, unit) prog" where
  "run_accepted pf B h clock log =
     seqP (write_log h log LogAccepted) (\<lambda>_.
     seqP (\<lambda>(ep, w). Option.bind (wait_established pf B (clock 0) 0 ep) (\<lambda>(r, ep). Some (r, ep, w))) (\<lambda>_.
     seqP (write_log h log LogHandshakeComplete) (\<lambda>_.
     seqP (\<lambda>(ep, w). let docroot = (case h_var h (ascii ''DOCUMENT_ROOT'') w of Some d \<Rightarrow> d | None \<Rightarrow> ascii ''/www'') in
       serve pf B h clock docroot log 1 (ep, w)) (\<lambda>_.
     write_log h log LogDone))))"

definition run_server ::
  "('t, 'c) platform \<Rightarrow> 'o os \<Rightarrow> ('c, 'w) host \<Rightarrow> nat \<Rightarrow> (nat \<Rightarrow> nat \<Rightarrow> nat) \<Rightarrow> bytes \<Rightarrow> bytes \<Rightarrow> nat \<Rightarrow> ('o \<times> 'w, unit)
    prog" where
  "run_server pf os h now clock cert_path key_path port s = (case s of (net, w) \<Rightarrow>
     let tc = testcase h w in
     if \<not> is_supported tc then Some (Error (ExitCode 127), net, w)
     else case load_server_config h cert_path key_path w of
       (Inl e, w) \<Rightarrow> Some (Inl e, net, w)
     | (Inr config, w) \<Rightarrow> (case parse_socket_addr (ascii ''[::]:'' @ ascii (decimal port)) of
         None \<Rightarrow> Some (Panics, net, w)
       | Some bind_addr \<Rightarrow> (case epoll_bind os bind_addr net of
           (Inl e, net) \<Rightarrow> Some (Error (Io e), net, w)
         | (Inr backend, net) \<Rightarrow> (case open_log h (ascii ''/logs/'' @ tc @ ascii ''_server.log'')
             (ascii ''/tmp/deerquic_server.log'') w of
             (Inl e, w) \<Rightarrow> Some (Inl e, epoll_drop os (backend, net), w)
           | (Inr log, w) \<Rightarrow> (case h_log h log (LogServerStarting tc) w of
               (Inl e, w) \<Rightarrow> Some (Error (Io e), epoll_drop os (backend, net), w)
             | (Inr _, w) \<Rightarrow> (case await_initial (epoll os) (replicate 2048 0) (backend, net) of
                 None \<Rightarrow> None
               | Some (Inl Panic, b) \<Rightarrow> Some (Panics, epoll_drop os b, w)
               | Some (Inl (Err e), b) \<Rightarrow> (case h_log h log (LogRecvError e) w of
                     (Inl e', w) \<Rightarrow> Some (Error (Io e'), epoll_drop os b, w)
                   | (Inr _, w) \<Rightarrow> Some (Error (Io e), epoll_drop os b, w))
               | Some (Inr packet, b) \<Rightarrow> (case ep_server pf os now packet b config of
                     None \<Rightarrow> None
                   | Some (Inl Panic, net) \<Rightarrow> Some (Panics, net, w)
                   | Some (Inl (Err e), net) \<Rightarrow> Some (Error (Quic e), net, snd (h_log h log (LogFailed e) w))
                   | Some (Inr ep, net) \<Rightarrow>
                       map_option (close_endpoint os) (run_accepted pf (epoll os) h clock log (ep, w)))))))))"

section \<open>The client\<close>

definition url_path :: "bytes \<Rightarrow> bytes" where
  "url_path url = (case nth_item 3 (splitn 4 47 url) of Some p \<Rightarrow> p | None \<Rightarrow> ascii ''index.html'')"

definition request_line :: "bytes \<Rightarrow> bytes" where
  "request_line path = ascii ''GET /'' @ path @ [13, 10]"

text \<open>Receiving the response until nothing came for more than 30 turns.\<close>

partial_function (option) download ::
  "('t, 'c) platform \<Rightarrow> 'b backend \<Rightarrow> (nat \<Rightarrow> nat) \<Rightarrow> nat \<Rightarrow> nat \<Rightarrow> bytes \<Rightarrow> ('t, 'b) endpoint \<Rightarrow>
     ((bytes, interop_error) result \<times> ('t, 'b) endpoint) option" where
  "download pf B clock i silence data ep =
     Option.bind (step pf B (clock i) 100 ep) (\<lambda>(r, ep).
       if r = Inl Panic then Some (Panics, ep)
       else case recv_data 16384 (ep_conn ep) of (bs, c) \<Rightarrow>
         let ep = ep\<lparr>ep_conn := c\<rparr> in
         if bs \<noteq> [] then download pf B clock (i + 1) 0 (data @ bs) ep
         else if silence + 1 > 30 then Some (Ok data, ep)
         else download pf B clock (i + 1) (silence + 1) data ep)"

definition fetch ::
  "('t, 'c) platform \<Rightarrow> 'b backend \<Rightarrow> ('k, 'w) host \<Rightarrow> (nat \<Rightarrow> nat) \<Rightarrow> bytes \<Rightarrow> nat \<Rightarrow> bytes \<Rightarrow>
     (('t, 'b) endpoint \<times> 'w, unit) prog" where
  "fetch pf B h clock dl_root log url =
     (let path = url_path url; line = request_line path; save_path = dl_root @ ascii ''/'' @ path in
      seqP (write_log h log (LogRequesting line)) (\<lambda>_.
      seqP (\<lambda>(ep, w). Option.bind (send_and_pump B line ep) (\<lambda>(r, ep). Some (r, ep, w))) (\<lambda>_.
      seqP (\<lambda>(ep, w). Option.bind (download pf B clock 0 0 [] ep) (\<lambda>(r, ep). Some (r, ep, w))) (\<lambda>data.
      seqP (\<lambda>(ep, w). case h_write h save_path data (h_create_parents h save_path w) of
          (Inl e, w) \<Rightarrow> Some (Error (Io e), ep, w)
        | (Inr _, w) \<Rightarrow> Some (Ok (), ep, w)) (\<lambda>_.
      write_log h log (LogSaved (length data) save_path))))))"

fun fetch_all ::
  "('t, 'c) platform \<Rightarrow> 'b backend \<Rightarrow> ('k, 'w) host \<Rightarrow> (nat \<Rightarrow> nat \<Rightarrow> nat) \<Rightarrow> bytes \<Rightarrow> nat \<Rightarrow> nat \<Rightarrow> bytes list \<Rightarrow>
     (('t, 'b) endpoint \<times> 'w, unit) prog" where
  "fetch_all pf B h clock dl_root log k [] s = Some (Ok (), s)"
| "fetch_all pf B h clock dl_root log k (url # urls) s =
     seqP (fetch pf B h (clock k) dl_root log url) (\<lambda>_. fetch_all pf B h clock dl_root log (k + 1) urls) s"

definition run_connected ::
  "('t, 'c) platform \<Rightarrow> 'b backend \<Rightarrow> ('k, 'w) host \<Rightarrow> (nat \<Rightarrow> nat \<Rightarrow> nat) \<Rightarrow> nat \<Rightarrow> (('t, 'b) endpoint \<times> 'w, unit) prog" where
  "run_connected pf B h clock log =
     seqP (\<lambda>(ep, w). Option.bind (wait_established pf B (clock 0) 0 ep) (\<lambda>(r, ep). Some (r, ep, w))) (\<lambda>_.
     seqP (write_log h log LogHandshakeComplete) (\<lambda>_ (ep, w).
       let dl_root = (case h_var h (ascii ''DOWNLOAD_ROOT'') w of Some d \<Rightarrow> d | None \<Rightarrow> ascii ''/downloads'');
           requests = (case h_var h (ascii ''REQUESTS'') w of Some r \<Rightarrow> r | None \<Rightarrow> []) in
       seqP (write_log h log (LogRequests requests)) (\<lambda>_.
       seqP (fetch_all pf B h clock dl_root log 1 (split_whitespace requests)) (\<lambda>_.
       write_log h log LogDone)) (ep, w)))"

definition run_client ::
  "('t, 'c) platform \<Rightarrow> 'o os \<Rightarrow> ('k, 'w) host \<Rightarrow> (nat \<Rightarrow> nat \<Rightarrow> nat) \<Rightarrow> bytes \<Rightarrow> nat \<Rightarrow> ('o \<times> 'w, unit) prog" where
  "run_client pf os h clock host_name port s = (case s of (net, w) \<Rightarrow>
     let tc = testcase h w in
     if \<not> is_supported tc then Some (Error (ExitCode 127), net, w)
     else case parse_socket_addr (host_name @ ascii '':'' @ ascii (decimal port)) of
       None \<Rightarrow> Some (Error InvalidInput, net, w)
     | Some addr \<Rightarrow> (case open_log h (ascii ''/logs/'' @ tc @ ascii ''_client.log'')
         (ascii ''/tmp/deerquic_client.log'') w of
         (Inl e, w) \<Rightarrow> Some (Inl e, net, w)
       | (Inr log, w) \<Rightarrow> (case h_log h log (LogClientStarting tc addr) w of
           (Inl e, w) \<Rightarrow> Some (Error (Io e), net, w)
         | (Inr _, w) \<Rightarrow> (case ep_client pf os addr (map (\<lambda>b. char_of (unat b)) host_name) net of
             (Inl Panic, net) \<Rightarrow> Some (Panics, net, w)
           | (Inl (Err e), net) \<Rightarrow> Some (Error (Quic e), net, snd (h_log h log (LogFailed e) w))
           | (Inr ep, net) \<Rightarrow>
               map_option (close_endpoint os) (run_connected pf (epoll os) h clock log (ep, w))))))"

section \<open>The command line\<close>

text \<open>The argument behind the first occurrence of a flag.\<close>

definition arg_after :: "bytes \<Rightarrow> bytes list \<Rightarrow> bytes option" where
  "arg_after flag args = (let i = length (takeWhile (\<lambda>a. a \<noteq> flag) args) in
     if i < length args then nth_item (i + 1) args else None)"

definition arg_or :: "bytes \<Rightarrow> bytes \<Rightarrow> bytes list \<Rightarrow> bytes" where
  "arg_or flag otherwise args = (case arg_after flag args of Some a \<Rightarrow> a | None \<Rightarrow> otherwise)"

definition port_arg :: "bytes list \<Rightarrow> nat" where
  "port_arg args = (case Option.bind (arg_after (ascii ''--port'') args) parse_u16 of Some p \<Rightarrow> p | None \<Rightarrow> 443)"

definition interop_main ::
  "('t, 'c) platform \<Rightarrow> 'o os \<Rightarrow> ('c, 'w) host \<Rightarrow> nat \<Rightarrow> (nat \<Rightarrow> nat \<Rightarrow> nat) \<Rightarrow> bytes list \<Rightarrow> ('o \<times> 'w, unit) prog" where
  "interop_main pf os h now clock args s =
     (if length args < 2 then Some (Error (ExitCode 1), s)
      else if args ! 1 = ascii ''server'' then
        run_server pf os h now clock (arg_or (ascii ''--cert'') (ascii ''/certs/cert.pem'') args)
          (arg_or (ascii ''--key'') (ascii ''/certs/priv.key'') args) (port_arg args) s
      else if args ! 1 = ascii ''client'' then
        run_client pf os h clock (arg_or (ascii ''--host'') (ascii ''server'') args) (port_arg args) s
      else Some (Error (ExitCode 1), s))"

end
