(* ===== verification/Interop_Proofs.thy ===== *)
theory Interop_Proofs
  imports Interop Established
begin

text \<open>
  Lemmas about the interop program: what the server reads of the client's request line, that printed
  ports and addresses are parsed, that nothing gets a closed connection out of its state, and the
  packets that carry a file.
\<close>

section \<open>Requests\<close>

lemma ascii_simps: "ascii [] = []" "ascii (c # s) = of_char c # ascii s" "length (ascii s) = length s"
  by (simp_all add: ascii_def)

lemma get_prefix: "ascii ''GET /'' = [71, 69, 84, 32, 47]"
  by code_simp

text \<open>A byte that no white space has keeps it apart from what follows.\<close>

lemma tight_behind:
  assumes "list_all (\<lambda>w. c \<notin> set w) white_space" and "tight p"
  shows "tight (a @ c # p)"
  unfolding tight_def
proof (intro allI impI notI)
  fix w u assume w: "w \<in> set white_space" "a @ c # p = u @ w"
  then have "(a @ [c]) @ p = u @ w" by simp
  then consider x where "p = x @ w" | x where "w = x @ p" "a @ [c] = u @ x"
    unfolding append_eq_append_conv2 by auto
  then show False
  proof cases
    case 1
    with assms(2) w(1) show False by (auto simp: tight_def)
  next
    case 2
    have "x \<noteq> []" using 2(1) assms(2) w(1) by (auto simp: tight_def)
    then have "c \<in> set x" using 2(2) by (metis last_append last_in_set last_snoc)
    then show False using 2(1) assms(1) w(1) by (auto simp: list_all_iff)
  qed
qed

lemma tight_Nil: "tight []"
  using white_space_valid by (auto simp: tight_def)

lemma no_slash: "list_all (\<lambda>w. 47 \<notin> set w) white_space" and no_l: "list_all (\<lambda>w. 108 \<notin> set w) white_space"
  by code_simp+

lemma url_path_ok:
  assumes "utf8_valid url" and "tight url"
  shows "utf8_valid (url_path url) \<and> tight (url_path url)"
proof (cases "nth_item 3 (splitn 4 47 url)")
  case None
  have "utf8_valid (ascii ''index.html'')" by code_simp
  moreover have "ascii ''index.html'' = ascii ''index.htm'' @ 108 # []" by code_simp
  ultimately show ?thesis using None tight_behind [OF no_l tight_Nil, of "ascii ''index.htm''"]
    by (simp add: url_path_def)
next
  case (Some p)
  have len: "length (splitn n c s) \<le> n" for n c s by (induction n c s rule: splitn.induct) auto
  have "length (splitn 4 47 url) = 4" "p = splitn 4 47 url ! 3"
    using Some len [of 4 47 url] by (auto simp: nth_item_def split: if_splits)
  moreover from this(1) have "splitn 4 47 url \<noteq> []" by auto
  ultimately have "p = last (splitn 4 47 url)" "p \<in> set (splitn 4 47 url)"
    by (simp_all add: last_conv_nth)
  then obtain u where u: "url = u @ p" "u = [] \<or> last u = 47"
    using splitn_last [of p 4 47 url] \<open>length (splitn 4 47 url) = 4\<close> by blast
  have "utf8_valid p"
  proof (cases "u = []")
    case False
    then have e: "url = butlast u @ 47 # p" using u
        by (metis append_butlast_last_id append_Cons append_assoc append_Nil)
    have "utf8_valid (butlast u) \<and> utf8_valid ([47] @ p)"
      by (rule utf8_cut) (use e assms(1) in \<open>auto simp: cont_byte_def\<close>)
    moreover have "utf8_valid [47]" by (rule utf8_ascii) simp
    ultimately show ?thesis using utf8_append by blast
  qed (use u assms(1) in simp)
  moreover have "tight p" using u(1) assms(2) tight_suffix by blast
  ultimately show ?thesis using Some by (simp add: url_path_def)
qed

lemma request_line_read:
  assumes "utf8_valid p" and "tight p"
  shows "request_path (request_text (request_line p)) = p"
proof -
  have v: "utf8_valid (request_line p)"
    unfolding request_line_def get_prefix
    by (subst utf8_append) (use assms(1) in \<open>auto intro!: utf8_ascii simp: utf8_append\<close>)
  have "tight (ascii ''GET /'' @ p)"
    using tight_behind [OF no_slash assms(2), of "[71, 69, 84, 32]"] by (simp add: get_prefix)
  note t = trim_end_tight [OF this]
  have "trim_start (request_line p) = request_line p"
    by (rule trim_start_word) (simp_all add: request_line_def get_prefix)
  then have "request_text (request_line p) = trim_end ((ascii ''GET /'' @ p @ [13]) @ [10])"
    using v by (simp add: request_text_def trim_def request_line_def)
  also have "\<dots> = trim_end ((ascii ''GET /'' @ p) @ [13])" by (subst trim_end_line) simp_all
  also have "\<dots> = ascii ''GET /'' @ p" by (subst trim_end_line) (simp_all add: t [simplified])
  finally have r: "request_text (request_line p) = ascii ''GET /'' @ p" .
  have "trim_end_matches 13 p = p \<and> trim_end_matches 10 p = p"
  proof -
    have "[13] \<in> set white_space" "[10] \<in> set white_space" by (simp_all add: white_space_def)
    then have "p = [] \<or> last p \<noteq> 13 \<and> last p \<noteq> 10"
      using assms(2) unfolding tight_def by (metis append_butlast_last_id)
    then show ?thesis by (cases p rule: rev_exhaust) (auto simp: trim_end_matches_def)
  qed
  then show ?thesis unfolding r
    by (simp add: request_path_def strip_prefix_def starts_with_def)
qed

section \<open>Addresses\<close>

lemma hex_digit_10: "hex_digit 10 b = (if is_digit b then Some (digit b) else None)"
proof -
  have d: "is_digit b \<Longrightarrow> digit b < 10"
  proof -
    assume "is_digit b"
    then have "48 \<le> b" "unat b \<le> 57" by (simp_all add: is_digit_def word_le_nat_alt)
    then have "unat (b - 48) < 10" by (simp add: unat_sub)
    then show "digit b < 10" unfolding digit_def by (simp only: uint_nat)
  qed
  have "0 \<le> uint (b - 97)" "0 \<le> uint (b - 65)" by simp_all
  with d show ?thesis by (auto simp: hex_digit_def digit_def Let_def split: if_splits)
qed

text \<open>A socket address begins with a digit or a bracket.\<close>

lemma parse_socket_addr_head:
  assumes "parse_socket_addr s = Some a"
  shows "s \<noteq> [] \<and> (is_digit (hd s) \<or> hd s = 91)"
proof -
  have n: "s \<noteq> [] \<and> is_digit (hd s)" if "read_ipv4 s \<noteq> None"
  proof -
    have "read_number 10 (Some 3) 256 False s \<noteq> None"
      using that by (cases "read_number 10 (Some 3) 256 False s") (auto simp: read_ipv4_def read_octet_def)
    then have "takeWhile (\<lambda>b. hex_digit 10 b \<noteq> None) s \<noteq> []" by (auto simp: read_number_def Let_def split: if_splits)
    then show ?thesis by (cases s) (auto simp: hex_digit_10 split: if_splits)
  qed
  show ?thesis
  proof (cases "read_ipv4 s")
    case None
    with assms show ?thesis
      by (cases s) (auto simp: parse_socket_addr_def read_char_def Let_def split: if_splits)
  next
    case (Some x)
    with n show ?thesis by simp
  qed
qed

text \<open>Printed numbers are read back.\<close>

lemma digit_char: "n < 10 \<Longrightarrow> is_digit (of_char (char_of (48 + n))) \<and> digit (of_char (char_of (48 + n))) = int n"
proof -
  assume n: "n < 10"
  have c: "of_char (char_of (48 + n)) = (48 + of_nat n :: u8)"
    using n of_nat_of_char [of "char_of (48 + n)", where 'a = u8, symmetric] by simp
  have "(of_nat n :: u8) \<le> 9" using n by (simp add: word_le_nat_alt unat_of_nat)
  then show ?thesis unfolding c is_digit_def digit_def using n
      by (auto simp: word_le_nat_alt unat_word_ariths uint_nat unat_of_nat)
qed

lemma decimal_digits:
  "ascii (decimal n) \<noteq> [] \<and> list_all is_digit (ascii (decimal n)) \<and>
     foldl (\<lambda>v b. 10 * v + digit b) 0 (ascii (decimal n)) = int n"
proof (induction n rule: decimal.induct)
  case (1 n)
  show ?case
  proof (cases "n < 10")
    case True
    then show ?thesis using digit_char [of n] by (simp add: decimal.simps [of n] ascii_simps)
  next
    case False
    have a: "ascii (decimal n) = ascii (decimal (n div 10)) @ [of_char (char_of (48 + n mod 10))]"
      using False by (subst decimal.simps) (simp add: ascii_def)
    have "10 * int (n div 10) + int (n mod 10) = int n" by presburger
    then show ?thesis using "1.IH" [OF False] digit_char [of "n mod 10"] by (simp add: a)
  qed
qed

lemma read_decimal:
  assumes "n < 65536"
  shows "read_number 10 None 65536 True (ascii (decimal n)) = Some (int n, [])"
proof -
  note d = decimal_digits [of n]
  define ds where "ds = ascii (decimal n)"
  have t: "takeWhile (\<lambda>b. hex_digit 10 b \<noteq> None) ds = ds" if "list_all is_digit ds" for ds
    using that by (induction ds) (auto simp: hex_digit_10)
  have f: "foldl (\<lambda>v b. 10 * v + the (hex_digit 10 b)) v ds = foldl (\<lambda>v b. 10 * v + digit b) v ds"
    if "list_all is_digit ds" for v ds
    using that by (induction ds arbitrary: v) (auto simp: hex_digit_10)
  note d = decimal_digits [of n, folded ds_def]
  show ?thesis unfolding read_number_def ds_def [symmetric]
    using d assms f [of ds 0] unfolding t [OF conjunct1 [OF conjunct2 [OF d]]] by (simp add: Let_def)
qed

lemma bind_addr_parses: "n < 65536 \<Longrightarrow> parse_socket_addr (ascii ''[::]:'' @ ascii (decimal n)) = Some (replicate 16 0, n)"
proof -
  assume n: "n < 65536"
  let ?s = "[93, 58] @ ascii (decimal n)"
  have g: "hex_digit 16 58 = None" "hex_digit 16 93 = None" "hex_digit 10 91 = None" "hex_digit 10 58 = None"
      "hex_digit 10 93 = None"
    by (simp_all add: hex_digit_def is_digit_def)
  have r: "read_number rad m bd z (c # s) = None" if "hex_digit rad c = None" for rad m bd z c s
    using that by (simp add: read_number_def)
  have stop: "read_groups 0 m (58 # s) = ([], 58 # s, False)" "read_groups 0 m (93 # s) = ([], 93 # s, False)" for m s
    by (subst read_groups.simps; simp add: Let_def read_ipv4_def read_octet_def r g)+
  have "read_ipv6 (58 # 58 # ?s) = Some (replicate 16 0, ?s)"
    by (simp add: read_ipv6_def stop read_char_def)
  moreover have "read_port (58 # ascii (decimal n)) = Some (int n, [])"
    by (simp add: read_port_def read_char_def read_decimal [OF n])
  moreover have "read_ipv4 (91 # s) = None" for s
    by (simp add: read_ipv4_def read_octet_def r g)
  moreover have "read_scope ?s = ?s" by (simp add: read_scope_def read_char_def)
  moreover have "ascii ''[::]:'' = [91, 58, 58, 93, 58]" by code_simp
  ultimately show ?thesis
    by (simp add: parse_socket_addr_def read_char_def Let_def)
qed

section \<open>A closed connection\<close>

context datagram_backend
begin

lemma recv_closed:
  assumes "state (ep_conn ep) = Closed"
  shows "\<exists>r ep'. recv_loop pf B now ep = Some (r, ep') \<and> r \<noteq> Inl Panic \<and> ep_conn ep' = ep_conn ep"
proof -
  obtain r buf b where r: "be_recv B (ep_recv_buf ep) (ep_backend ep) = (r, buf, b)" by (metis prod_cases3)
  show ?thesis
  proof (cases r)
    case (Inl e)
    then show ?thesis using r by (subst recv_loop.simps) simp
  next
    case (Inr x)
    obtain n a where x: "x = (n, a)" by (cases x) (metis prod.collapse)
    have "slice buf 0 n = (Ok (take n buf) :: (bytes, connection_error) result)"
      using r Inr x by (intro received_slice) simp
    then show ?thesis using r Inr x assms
      by (subst recv_loop.simps) (simp add: Let_def ingest_def)
  qed
qed

lemma flush_closed: "state (ep_conn ep) = Closed \<Longrightarrow> flush_egress B ep = Some (Error IsClosed, ep)"
  by (subst flush_egress.simps) (simp add: egest_def)

lemma step_closed:
  assumes "state (ep_conn ep) = Closed"
  shows "\<exists>r ep'. step pf B now t ep = Some (r, ep') \<and> r \<noteq> Inl Panic \<and> ep_conn ep' = ep_conn ep"
proof -
  obtain r b where p: "be_poll B t (ep_backend ep) = (r, b)" by fastforce
  show ?thesis
  proof (cases r)
    case (Inl e)
    then show ?thesis using p by (simp add: step_def)
  next
    case (Inr worked)
    let ?ep = "ep\<lparr>ep_backend := b\<rparr>"
    obtain q ep' where q: "(if worked then recv_loop pf B now ?ep else Some (Ok (), ?ep)) = Some (q, ep')"
        "q \<noteq> Inl Panic" "ep_conn ep' = ep_conn ep"
      using recv_closed [of ?ep pf now] assms by (cases worked) auto
    then show ?thesis using p Inr assms flush_closed [of ep']
      by (cases q) (auto simp: step_def Let_def andthen_def)
  qed
qed

end

lemma closed_never_established:
  assumes "wait_established pf B clock i ep = Some y"
  shows "datagram_backend B \<Longrightarrow> state (ep_conn ep) \<noteq> Closed"
  using assms
proof (induction pf B clock i ep y rule: wait_established.raw_induct [rotated, consumes 1])
  case (1 wait pf B clock i ep y)
  show ?case
  proof
    assume c: "state (ep_conn ep) = Closed"
    obtain r ep' where s: "step pf B (clock i) 100 ep = Some (r, ep')" "r \<noteq> Inl Panic" "ep_conn ep' = ep_conn ep"
      using datagram_backend.step_closed [OF 1(3) c] by blast
    with 1(2) c have "wait pf B clock (i + 1) ep' = Some y" by (simp add: ep_is_established_def is_established_def)
    from 1(1) [OF this 1(3)] s(3) c show False by simp
  qed
qed

section \<open>Sending\<close>

lemma pump_idle: "conn_ok (ep_conn ep) \<Longrightarrow> state (ep_conn ep) = Established \<Longrightarrow> next_to_send (ep_conn ep) = None \<Longrightarrow>
    pump B ep = Some (Ok (), ep)"
  by (subst pump.simps) (simp add: egest_eq)

text \<open>
  The packet \<open>pkt\<close> of number \<open>pn\<close>, sent to a connection ID of \<open>n\<close> bytes, has a short header and opens under
  \<open>kb\<close> to the frames \<open>fs\<close> with padding; for data it is the bytes \<open>d\<close> of the stream at offset \<open>off\<close>.
\<close>

definition bears :: "dir_keys \<Rightarrow> nat \<Rightarrow> u64 \<Rightarrow> frame list \<Rightarrow> bytes \<Rightarrow> bool" where
  "bears kb n pn fs pkt \<longleftrightarrow> pkt \<noteq> [] \<and> pkt ! 0 AND 0x80 = 0 \<and> pkt ! 0 AND 0x40 \<noteq> 0 \<and>
     (\<forall>s. remote_keys s = Some kb \<and>
        decode_packet_number (largest_recv_pn s) (take_bit (8 * encoded_pn_len pn) pn) (of_nat (encoded_pn_len pn))
            = pn \<longrightarrow>
        (\<exists>m. decrypt_and_parse s pkt (1 + n) = Ok (pn, fs @ replicate m Padding)))"

definition carries :: "dir_keys \<Rightarrow> nat \<Rightarrow> u64 \<Rightarrow> u64 \<Rightarrow> bytes \<Rightarrow> bytes \<Rightarrow> bool" where
  "carries kb n pn off d pkt \<longleftrightarrow> bears kb n pn [Stream 0 off d False] pkt"

fun packets_carry :: "dir_keys \<Rightarrow> nat \<Rightarrow> u64 \<Rightarrow> u64 \<Rightarrow> bytes list \<Rightarrow> bytes list \<Rightarrow> bool" where
  "packets_carry kb n pn off [] ps \<longleftrightarrow> ps = []"
| "packets_carry kb n pn off (d # ds) ps \<longleftrightarrow>
     (\<exists>p ps'. ps = p # ps' \<and> carries kb n pn off d p \<and> packets_carry kb n (pn + 1) (off + of_nat (length d)) ds ps')"

lemma packets_carry_length: "packets_carry kb n pn off ds ps \<Longrightarrow> length ps = length ds"
  by (induction ds arbitrary: ps pn off) auto

text \<open>An established connection that has nothing to send.\<close>

definition serving :: "dir_keys \<Rightarrow> 't conn \<Rightarrow> bool" where
  "serving ka c \<longleftrightarrow> conn_ok c \<and> state c = Established \<and> next_to_send c = None \<and> pending_app_data c = [] \<and>
     local_keys (appdata_space c) = Some ka"

lemma stream_frame:
  assumes "unat off < 2 ^ 62" and "length d < 2 ^ 61" and "d \<noteq> []"
  shows "frames_ok [Stream 0 off d False]" and "length (frames_wire [Stream 0 off d False]) \<le> length d + 18"
proof -
  show "frames_ok [Stream 0 off d False]" using assms by (simp add: frames_ok_def length_ok_def VARINT_MAX_unat)
  have "encoded_len 0 = 1" by (simp add: encoded_len_def)
  then show "length (frames_wire [Stream 0 off d False]) \<le> length d + 18"
    using encoded_len_le_8 [of off] encoded_len_le_8 [of "of_nat (length d)"]
    by (simp add: frames_wire_def sized_bytes_def)
qed

text \<open>What \<open>send_data\<close> makes of it: one packet for the data, behind which there is nothing to send again.\<close>

lemma data_frames:
  assumes "serving ka c" and "d \<noteq> []"
  shows "state (send_data d c) = Established" and "next_to_send (send_data d c) = Some ApplicationData"
    and "space_frames ApplicationData Established (send_data d c) = [Stream 0 (stream_send_offset c) d False]"
    and "local_keys (get_space ApplicationData (sent ApplicationData Established (send_data d c))) = Some ka"
proof -
  have s: "state c = Established" "next_to_send c = None" "pending_app_data c = []"
      "local_keys (appdata_space c) = Some ka"
    using assms(1) by (simp_all add: serving_def)
  have h: "has_keys (get_space ApplicationData c)"
    using s(4) by (auto simp: has_keys_def local_keys_def get_space_eqs)
  show "state (send_data d c) = Established" using s(1) by simp
  show "next_to_send (send_data d c) = Some ApplicationData" using next_after_send [OF s(1,2) h assms(2)] .
  show "space_frames ApplicationData Established (send_data d c) = [Stream 0 (stream_send_offset c) d False]"
    using idle_app [OF s(2) h] assms(2) s(3) by (simp add: space_frames_def done_part_def stream_part_def)
  show "local_keys (get_space ApplicationData (sent ApplicationData Established (send_data d c))) = Some ka"
    using s(4) by (simp add: get_sent get_space_eqs space_defs)
qed

text \<open>The packet of the frames \<open>fs\<close> of an established connection, as whoever holds the matching keys reads it.\<close>

lemma frames_borne:
  assumes st: "state a = Established" and ka: "local_keys (get_space ApplicationData a) = Some ka" and k:
      "keys_match ka kb"
    and fs: "space_frames ApplicationData Established a = fs" "frames_ok fs" "length (frames_wire fs) \<le> 1042"
    and size: "unat (peeks a ApplicationData) < 2 ^ 32" "length (dst_cid a) + packet_bound ka 1042 \<le> 2048"
  obtains pkt where "sent_packet ApplicationData a = Ok pkt" and "length pkt \<le> 2048" and "pkt \<noteq> []"
    and "bears kb (length (dst_cid a)) (peeks a ApplicationData) fs pkt"
proof -
  let ?s = "get_space ApplicationData (sent ApplicationData Established a)" and ?pn = "peeks a ApplicationData"
  have s: "local_keys ?s = Some ka" using ka by (simp add: get_sent space_defs)
  have pk: "\<exists>pkt m. sent_packet ApplicationData a = Ok pkt \<and>
      decrypt_and_parse r pkt (1 + length (dst_cid a)) = Ok (?pn, fs @ replicate m Padding) \<and> length pkt \<le> 2048 \<and>
      pkt \<noteq> [] \<and> pkt ! 0 AND 0x80 = 0 \<and> pkt ! 0 AND 0x40 \<noteq> 0"
    if r: "remote_keys r = Some kb"
      "decode_packet_number (largest_recv_pn r) (take_bit (8 * encoded_pn_len ?pn) ?pn)
        (of_nat (encoded_pn_len ?pn)) = ?pn" for r
  proof -
    obtain pkt m where "encrypt_packet ?s ApplicationData (version a) (dst_cid a) (src_cid a) fs ?pn
        (encoded_pn_len ?pn) True = Ok pkt"
        "decrypt_and_parse r pkt (1 + length (dst_cid a)) = Ok (?pn, fs @ replicate m Padding)"
        "length pkt \<le> length (dst_cid a) + packet_bound ka (length (frames_wire fs))" "pkt \<noteq> []"
        "pkt ! 0 AND 0x80 = 0" "pkt ! 0 AND 0x40 \<noteq> 0"
      using short_packet_sized [OF k s r(1) fs(2) refl r(2)] by blast
    moreover have "packet_bound ka (length (frames_wire fs)) \<le> packet_bound ka 1042" using fs(3)
        by (simp add: packet_bound_def)
    ultimately show ?thesis using size(2) st fs(1) by (fastforce simp: sent_packet_def peeks_def)
  qed
  define r where "r = set_keys \<lparr>keys_local = kb, keys_remote = kb\<rparr> (space_new ApplicationData)"
  have r: "remote_keys r = Some kb" "largest_recv_pn r = 0"
    by (simp_all add: r_def remote_keys_def set_keys_def space_new_def largest_recv_pn_def)
  have "decode_packet_number (largest_recv_pn r) (take_bit (8 * encoded_pn_len ?pn) ?pn)
      (of_nat (encoded_pn_len ?pn)) = ?pn"
    unfolding r(2) using size(1) by (intro decode_first_pn [OF encoded_pn_len_ok encoded_pn_len_fits]) simp
  from pk [OF r(1) this] obtain pkt where p: "sent_packet ApplicationData a = Ok pkt" "length pkt \<le> 2048"
      "pkt \<noteq> []" "pkt ! 0 AND 0x80 = 0" "pkt ! 0 AND 0x40 \<noteq> 0" by blast
  have "bears kb (length (dst_cid a)) ?pn fs pkt" unfolding bears_def using pk p by fastforce
  from that [OF p(1-3) this] show thesis .
qed

lemma data_carried:
  assumes c: "serving ka c" and k: "keys_match ka kb" and d: "d \<noteq> []" "length d \<le> 1024"
    and size: "unat (peeks c ApplicationData) < 2 ^ 32" "unat (stream_send_offset c) < 2 ^ 62"
      "length (dst_cid c) + packet_bound ka 1042 \<le> 2048"
  defines "a \<equiv> send_data d c"
  obtains pkt where "sent_packet ApplicationData a = Ok pkt" and "length pkt \<le> 2048" and "pkt \<noteq> []"
    and "carries kb (length (dst_cid c)) (peeks c ApplicationData) (stream_send_offset c) d pkt"
proof -
  note fs = data_frames [OF c d(1), folded a_def]
  have "length d < 2 ^ 61" using d(2) by simp
  note f = stream_frame [OF size(2) this d(1)]
  have a: "peeks a ApplicationData = peeks c ApplicationData" "dst_cid a = dst_cid c"
    "local_keys (get_space ApplicationData a) = Some ka"
    using c by (simp_all add: a_def peeks_def serving_def get_space_eqs)
  have "length (frames_wire [Stream 0 (stream_send_offset c) d False]) \<le> 1042" using f(2) d(2) by simp
  from frames_borne [OF fs(1) a(3) k fs(3) f(1) this] size show thesis
    unfolding a carries_def [symmetric] using that by blast
qed

text \<open>Behind it there is nothing to send again.\<close>

lemma serving_again:
  assumes c: "serving ka c" and d: "d \<noteq> []"
  defines "a \<equiv> send_data d c"
  defines "c' \<equiv> sent ApplicationData Established a"
  shows "conn_ok a" and "serving ka c'" and "stream_send_offset c' = stream_send_offset c + of_nat (length d)"
    and "dst_cid c' = dst_cid c"
proof -
  have s: "conn_ok c" "state c = Established" "next_to_send c = None" "pending_app_data c = []"
    using c by (simp_all add: serving_def)
  note f = data_frames [OF c d, folded a_def, folded c'_def]
  show ok: "conn_ok a" using conn_ok_call [OF s(1), of undefined "SendData d"] by (simp add: a_def)
  have pend: "pending_app_data c' = []" "stream_send_offset c' = stream_send_offset c + of_nat (length d)"
    using d s(2,4) by (simp_all add: c'_def a_def sent_out stream_part_def)
  have ok': "conn_ok c'" using conn_ok_call [OF ok, of undefined "Egest 2048"] f(1,2)
      by (simp add: egest_eq [OF ok] c'_def)
  have "next_to_send c' = None"
  proof -
    have o: "\<not> ready i c'" if "i \<noteq> ApplicationData" for i
    proof -
      have "ready i c' = ready i a" using ready_other [of ApplicationData i a] that f(1) by (simp add: c'_def)
      moreover have "ready i a = ready i c" using that
          by (cases i) (simp_all add: a_def ready_def space_frames_def stream_part_def)
      moreover have "\<not> ready i c" using s(3) by (cases i) (auto simp: next_to_send_def ready_def split: if_splits)
      ultimately show ?thesis by simp
    qed
    moreover have "\<not> ready ApplicationData c'" using ready_same [OF ok, of ApplicationData] f(1) by (simp add: c'_def)
    ultimately show ?thesis by (auto simp: next_to_send_def ready_def)
  qed
  moreover show "dst_cid c' = dst_cid c" by (simp add: c'_def a_def)
  moreover have "state c' = Established" using f(1) by (simp add: c'_def done_part_def)
  ultimately show "serving ka c'" using ok' pend f(4) by (simp add: serving_def get_space_eqs)
  show "stream_send_offset c' = stream_send_offset c + of_nat (length d)" by (rule pend(2))
qed

lemma data_packet:
  assumes c: "serving ka c" and k: "keys_match ka kb" and d: "d \<noteq> []" "length d \<le> 1024"
    and size: "unat (peeks c ApplicationData) < 2 ^ 32" "unat (stream_send_offset c) < 2 ^ 62"
      "length (dst_cid c) + packet_bound ka 1042 \<le> 2048"
  defines "a \<equiv> send_data d c"
  defines "c' \<equiv> sent ApplicationData Established a"
  obtains pkt where "conn_ok a" and "state a = Established" and "next_to_send a = Some ApplicationData"
    and "sent_packet ApplicationData a = Ok pkt" and "length pkt \<le> 2048" and "pkt \<noteq> []"
    and "carries kb (length (dst_cid c)) (peeks c ApplicationData) (stream_send_offset c) d pkt"
    and "serving ka c'" and "peeks c' ApplicationData = peeks c ApplicationData + 1"
    and "stream_send_offset c' = stream_send_offset c + of_nat (length d)" and "dst_cid c' = dst_cid c"
proof -
  note f = data_frames [OF c d(1), folded a_def]
  note s = serving_again [OF c d(1), folded a_def, folded c'_def]
  obtain pkt where p: "sent_packet ApplicationData a = Ok pkt" "length pkt \<le> 2048" "pkt \<noteq> []"
      "carries kb (length (dst_cid c)) (peeks c ApplicationData) (stream_send_offset c) d pkt"
    by (rule data_carried [OF c k d size, folded a_def])
  have "peeks c' ApplicationData = peeks c ApplicationData + 1" by (simp add: c'_def a_def peeks_def sent_space)
  from that [OF s(1) f(1,2) p s(2) this s(3,4)] show thesis .
qed

lemma chunk_sent:
  assumes c: "serving ka (ep_conn ep)" and k: "keys_match ka kb" and d: "d \<noteq> []" "length d \<le> 1024"
    and size: "unat (peeks (ep_conn ep) ApplicationData) < 2 ^ 32" "unat (stream_send_offset (ep_conn ep)) < 2 ^ 62"
      "length (dst_cid (ep_conn ep)) + packet_bound ka 1042 \<le> 2048"
  shows "\<exists>pkt c'. egest 2048 (send_data d (ep_conn ep)) = (Ok pkt, c') \<and> send_and_pump B d ep =
      Some (Ok (), ep\<lparr>ep_conn := c', ep_backend := snd (be_send B pkt (ep_backend ep))\<rparr>) \<and>
     carries kb (length (dst_cid (ep_conn ep))) (peeks (ep_conn ep) ApplicationData)
         (stream_send_offset (ep_conn ep)) d pkt \<and>
     serving ka c' \<and> peeks c' ApplicationData = peeks (ep_conn ep) ApplicationData + 1 \<and>
     stream_send_offset c' = stream_send_offset (ep_conn ep) + of_nat (length d) \<and> dst_cid c' = dst_cid (ep_conn ep)"
proof (rule data_packet [OF assms])
  fix pkt
  let ?a = "send_data d (ep_conn ep)"
  define c' where "c' = sent ApplicationData Established ?a"
  assume a: "conn_ok ?a" "state ?a = Established" "next_to_send ?a = Some ApplicationData"
    and p: "sent_packet ApplicationData ?a = Ok pkt" "length pkt \<le> 2048" "pkt \<noteq> []"
    and rest: "carries kb (length (dst_cid (ep_conn ep))) (peeks (ep_conn ep) ApplicationData)
        (stream_send_offset (ep_conn ep)) d pkt"
      "serving ka (sent ApplicationData Established ?a)"
      "peeks (sent ApplicationData Established ?a) ApplicationData = peeks (ep_conn ep) ApplicationData + 1"
      "stream_send_offset (sent ApplicationData Established ?a) = stream_send_offset (ep_conn ep) + of_nat (length d)"
      "dst_cid (sent ApplicationData Established ?a) = dst_cid (ep_conn ep)"
  note rest = rest [folded c'_def]
  have e: "egest 2048 ?a = (Ok pkt, c')" using p a by (simp add: egest_eq c'_def)
  moreover have "pump B (ep\<lparr>ep_conn := c', ep_backend := b\<rparr>) = Some (Ok (), ep\<lparr>ep_conn := c', ep_backend := b\<rparr>)" for b
    by (rule pump_idle) (use rest(2) in \<open>simp_all add: serving_def\<close>)
  ultimately have "send_and_pump B d ep = Some (Ok (), ep\<lparr>ep_conn := c', ep_backend :=
      snd (be_send B pkt (ep_backend ep))\<rparr>)"
    unfolding send_and_pump_def using p(3) by (subst pump.simps) simp
  with e show ?thesis using rest by blast
qed

section \<open>Serving a file\<close>

lemma chunks_concat: "0 < n \<Longrightarrow> concat (chunks n xs) = xs"
  by (induction n xs rule: chunks.induct) (subst chunks.simps, simp)

lemma chunks_sizes: "c \<in> set (chunks n xs) \<Longrightarrow> c \<noteq> [] \<and> length c \<le> n"
proof (induction n xs rule: chunks.induct)
  case (1 n xs)
  from 1(2) have "xs \<noteq> [] \<and> n \<noteq> 0 \<and> c \<in> set (take n xs # chunks n (drop n xs))"
    by (subst (asm) chunks.simps) (simp split: if_splits)
  with 1(1) show ?case by auto
qed

text \<open>The packets of the pieces \<open>ds\<close>.\<close>

fun chunk_packets :: "bytes list \<Rightarrow> 't conn \<Rightarrow> bytes list" where
  "chunk_packets [] c = []"
| "chunk_packets (d # ds) c = (case egest 2048 (send_data d c) of
       (Inl e, c) \<Rightarrow> []
     | (Inr p, c) \<Rightarrow> p # chunk_packets ds c)"

lemma send_chunks_ends:
  assumes "serving ka (ep_conn ep)" and "keys_match ka kb" and "list_all (\<lambda>d. d \<noteq> [] \<and> length d \<le> 1024) ds"
    and "unat (peeks (ep_conn ep) ApplicationData) + length ds < 2 ^ 32"
    and "unat (stream_send_offset (ep_conn ep)) + length (concat ds) < 2 ^ 62"
    and "length (dst_cid (ep_conn ep)) + packet_bound ka 1042 \<le> 2048"
  shows "\<exists>ep' ps. send_chunks B ds ep = Some (Ok (), ep') \<and> ep_backend ep' = after_sends B ps (ep_backend ep) \<and>
     ps = chunk_packets ds (ep_conn ep) \<and>
     packets_carry kb (length (dst_cid (ep_conn ep))) (peeks (ep_conn ep) ApplicationData)
       (stream_send_offset (ep_conn ep)) ds ps \<and> serving ka (ep_conn ep')"
  using assms
proof (induction ds arbitrary: ep)
  case (Cons d ds)
  have d: "d \<noteq> []" "length d \<le> 1024" using Cons.prems(3) by simp_all
  obtain pkt c' where g: "egest 2048 (send_data d (ep_conn ep)) = (Ok pkt, c')"
    and s: "send_and_pump B d ep = Some (Ok (), ep\<lparr>ep_conn := c', ep_backend := snd (be_send B pkt (ep_backend ep))\<rparr>)"
      "carries kb (length (dst_cid (ep_conn ep))) (peeks (ep_conn ep) ApplicationData)
        (stream_send_offset (ep_conn ep)) d pkt"
      "serving ka c'" "peeks c' ApplicationData = peeks (ep_conn ep) ApplicationData + 1"
      "stream_send_offset c' = stream_send_offset (ep_conn ep) + of_nat (length d)" "dst_cid c' = dst_cid (ep_conn ep)"
    using chunk_sent [OF Cons.prems(1,2) d, of B] Cons.prems(4-6) by auto
  define ep1 where "ep1 = ep\<lparr>ep_conn := c', ep_backend := snd (be_send B pkt (ep_backend ep))\<rparr>"
  have "unat (peeks c' ApplicationData) = unat (peeks (ep_conn ep) ApplicationData) + 1"
    unfolding s(4) using Cons.prems(4) by (simp add: unat_word_ariths)
  moreover have "unat (stream_send_offset c') = unat (stream_send_offset (ep_conn ep)) + length d"
    unfolding s(5) using Cons.prems(5) by (simp add: unat_word_ariths unat_of_nat)
  ultimately obtain ep' ps where e: "send_chunks B ds ep1 = Some (Ok (), ep')"
      "ep_backend ep' = after_sends B ps (ep_backend ep1)"
      "ps = chunk_packets ds c'"
      "packets_carry kb (length (dst_cid c')) (peeks c' ApplicationData) (stream_send_offset c') ds ps"
        "serving ka (ep_conn ep')"
    using Cons.IH [of ep1] Cons.prems s(3,6) by (auto simp: ep1_def)
  show ?case
    by (intro exI [of _ ep'] exI [of _ "pkt # ps"]) (use s e g in \<open>simp add: seqP_def ep1_def [symmetric]\<close>,
        simp add: ep1_def)
qed simp

text \<open>The answer to a request whose file can be read.\<close>

lemma request_served:
  assumes sv: "serving ka (ep_conn ep)" and k: "keys_match ka kb"
    and h: "h_log h log (LogRequest req (file_path docroot req)) w = (Inr (), w1)"
      "h_read h (file_path docroot req) w1 = (Inr data, w2)" "h_log h log (LogServing (length data)) w2 = (Inr (), w3)"
    and size: "unat (peeks (ep_conn ep) ApplicationData) + length (chunks 1024 data) < 2 ^ 32"
      "unat (stream_send_offset (ep_conn ep)) + length data < 2 ^ 62"
      "length (dst_cid (ep_conn ep)) + packet_bound ka 1042 \<le> 2048"
  shows "\<exists>ep' ps. answer_request B h docroot log req (ep, w) = Some (Ok (), ep', w3) \<and>
     ep_backend ep' = after_sends B ps (ep_backend ep) \<and> ps = chunk_packets (chunks 1024 data) (ep_conn ep) \<and>
     packets_carry kb (length (dst_cid (ep_conn ep))) (peeks (ep_conn ep) ApplicationData)
       (stream_send_offset (ep_conn ep)) (chunks 1024 data) ps \<and> serving ka (ep_conn ep')"
proof -
  have d: "list_all (\<lambda>d. d \<noteq> [] \<and> length d \<le> 1024) (chunks 1024 data)" "concat (chunks 1024 data) = data"
    using chunks_sizes chunks_concat [of 1024 data] by (auto simp: list_all_iff)
  obtain ep' ps where e: "send_chunks B (chunks 1024 data) ep = Some (Ok (), ep')"
      "ep_backend ep' = after_sends B ps (ep_backend ep)" "ps = chunk_packets (chunks 1024 data) (ep_conn ep)"
      "packets_carry kb (length (dst_cid (ep_conn ep))) (peeks (ep_conn ep) ApplicationData)
         (stream_send_offset (ep_conn ep)) (chunks 1024 data) ps" "serving ka (ep_conn ep')"
    using send_chunks_ends [OF sv k d(1) size(1) _ size(3), of B] size(2) d(2) by fastforce
  then have "answer_request B h docroot log req (ep, w) = Some (Ok (), ep', w3)"
    using h by (simp add: answer_request_def seqP_def write_log_def serve_data_def)
  with e show ?thesis by blast
qed

section \<open>Requests\<close>

lemma await_returns:
  assumes d: "drains B" and "conn_ok (ep_conn ep)"
  shows "\<exists>r ep'. await_request pf B clock idle ep = Some (r, ep') \<and> conn_ok (ep_conn ep')"
  using assms(2)
proof (induction "51 - idle" arbitrary: idle ep rule: less_induct)
  case less
  obtain r ep1 where s: "step pf B (clock idle) 100 ep = Some (r, ep1)" "conn_ok (ep_conn ep1)"
    using step_returns [OF d less.prems] by blast
  obtain bs c where c: "recv_data 2048 (ep_conn ep1) = (bs, c)" by fastforce
  have ok: "conn_ok c" using conn_ok_call [OF s(2), of undefined "RecvData 2048"] c by simp
  show ?case
  proof (cases "r = Inl Panic \<or> bs \<noteq> [] \<or> 50 < idle + 1")
    case True
    then show ?thesis using s c ok by (subst await_request.simps) (auto simp: Let_def)
  next
    case False
    with less.hyps [of "idle + 1" "ep1\<lparr>ep_conn := c\<rparr>"] ok s c show ?thesis
      by (subst await_request.simps) (auto simp: Let_def)
  qed
qed

section \<open>Receiving a file\<close>

text \<open>
  A peer that can hear packet \<open>pn\<close>: it is not closed, has the key \<open>kb\<close> and a connection ID of \<open>n\<close> bytes, and
  \<open>pn\<close> is at most \<open>g\<close> above the largest number it has heard.
\<close>

definition listening :: "dir_keys \<Rightarrow> nat \<Rightarrow> nat \<Rightarrow> u64 \<Rightarrow> 't conn \<Rightarrow> bool" where
  "listening kb n g pn c \<longleftrightarrow> state c \<noteq> Closed \<and> remote_keys (appdata_space c) = Some kb \<and>
     length (dst_cid c) = n \<and> n \<le> 20 \<and> unat (largest_recv_pn (appdata_space c)) \<le> unat pn \<and>
     unat pn \<le> unat (largest_recv_pn (appdata_space c)) + g"

lemma near_pn:
  assumes "unat l \<le> unat pn" and "unat pn \<le> unat l + 120" and "unat pn < 2 ^ 32"
  shows "decode_packet_number l (take_bit (8 * encoded_pn_len pn) pn) (of_nat (encoded_pn_len pn)) = pn"
proof -
  define n :: u8 where "n = of_nat (encoded_pn_len pn)"
  have n: "pn_len_ok n" "unat n = encoded_pn_len pn" "encoded_pn_len pn \<in> {1, 2, 4}"
    by (auto simp: n_def encoded_pn_len_def pn_len_ok_def)
  have w: "(2 :: nat) ^ (8 * encoded_pn_len pn) \<in> {256, 65536, 4294967296}" using n(3) by auto
  have "decode_packet_number l (take_bit (8 * unat n) pn) n = pn"
    by (rule decode_packet_number_window [OF n(1)]) (use w assms in \<open>auto simp: n(2)\<close>)
  then show ?thesis by (simp add: n(2)) (simp add: n_def)
qed

text \<open>A packet is heard when its masked bits pass, and rejected otherwise.\<close>

lemma borne_ingest:
  fixes pf :: "('t, 'c) platform"
  assumes b: "listening kb n g pn b" "g \<le> 120" and p: "bears kb n pn fs p" and pn: "unat pn < 2 ^ 32"
  shows "ingest pf now p b =
     (if bits_pass p then seqA (process_frames pf fs ApplicationData) (\<lambda>_. returnA (length p))
        (space_mut ApplicationData (record_recv_pn now pn) b)
      else (Error (InPacket ReservedBitsSet), b))"
proof -
  have k: "remote_keys (appdata_space b) = Some kb" using b by (simp add: listening_def)
  moreover have "decode_packet_number (largest_recv_pn (appdata_space b)) (take_bit (8 * encoded_pn_len pn) pn)
      (of_nat (encoded_pn_len pn)) = pn"
    using b pn by (intro near_pn) (simp_all add: listening_def)
  ultimately obtain m where d: "decrypt_and_parse (appdata_space b) p (1 + n) = Ok (pn, fs @ replicate m Padding)"
    using p unfolding bears_def by blast
  have f: "seqA (process_frames pf (fs @ replicate m Padding) ApplicationData) q c =
      seqA (process_frames pf fs ApplicationData) q c" for q :: "unit \<Rightarrow> ('t, nat) step" and c
    by (simp add: process_frames_def process_padding seqA_def)
  have b': "state b \<noteq> Closed" "length (dst_cid b) = n" "n \<le> 20" using b(1) by (simp_all add: listening_def)
  have p': "p \<noteq> []" "p ! 0 AND 0x80 = 0" "p ! 0 AND 0x40 \<noteq> 0" using p by (simp_all add: bears_def)
  show ?thesis using ingest_short [OF b' p' d, of pf now] by (simp add: f)
qed

abbreviation heard :: "nat \<Rightarrow> u64 \<Rightarrow> bytes \<Rightarrow> 't conn \<Rightarrow> 't conn" where
  "heard now pn d b \<equiv> receive_stream d (space_mut ApplicationData (record_recv_pn now pn) b)"

lemma carried_ingest:
  assumes "listening kb n g pn b" "g \<le> 120" and "carries kb n pn off d p" and "unat pn < 2 ^ 32"
  shows "ingest pf now p b =
     (if bits_pass p then (Ok (length p), heard now pn d b) else (Error (InPacket ReservedBitsSet), b))"
  using borne_ingest [OF assms(1,2) assms(3) [unfolded carries_def] assms(4), of pf now]
  by (simp add: process_frames_def process_stream seqA_def returnA_def)

text \<open>Which packets a peer can hear next, behind one that it heard and behind one that it rejected.\<close>

lemma listening_heard:
  assumes "listening kb n g pn b" and "unat pn < 2 ^ 32"
  shows "listening kb n 1 (pn + 1) (heard now pn d b)"
proof -
  have "unat (pn + 1) = unat pn + 1" using assms(2) by (simp add: unat_word_ariths)
  then show ?thesis using assms(1)
    by (auto simp: listening_def receive_stream_def space_mut_def record_recv_pn_def remote_keys_def
        largest_recv_pn_def Let_def word_less_nat_alt)
qed

lemma listening_skip:
  assumes "listening kb n g pn b" and "unat pn < 2 ^ 32"
  shows "listening kb n (g + 1) (pn + 1) b"
proof -
  have "unat (pn + 1) = unat pn + 1" using assms(2) by (simp add: unat_word_ariths)
  then show ?thesis using assms(1) by (simp add: listening_def)
qed

lemma listening_mono: "listening kb n g pn b \<Longrightarrow> g \<le> h \<Longrightarrow> listening kb n h pn b"
  by (simp add: listening_def)

lemma listening_received [simp]: "listening kb n g pn (b\<lparr>received_app_data := x\<rparr>) = listening kb n g pn b"
  by (simp add: listening_def)

text \<open>The peer after the packets \<open>pn\<close>, \<open>pn + 1\<close>, and so on with the pieces \<open>ds\<close>.\<close>

fun hear_all :: "nat \<Rightarrow> u64 \<Rightarrow> bytes list \<Rightarrow> 't conn \<Rightarrow> 't conn" where
  "hear_all now pn [] b = b"
| "hear_all now pn (d # ds) b = hear_all now (pn + 1) ds (heard now pn d b)"

lemma hear_all_fields [simp]:
  "received_app_data (hear_all now pn ds b) = received_app_data b @ concat ds" "state (hear_all now pn ds b) = state b"
  by (induction ds arbitrary: pn b) (simp_all add: receive_stream_def space_mut_def)

lemma packets_received:
  assumes "packets_carry kb n pn off ds ps" and "listening kb n g pn b" "g \<le> 120" and "unat pn + length ds < 2 ^ 32"
    and "list_all bits_pass ps"
  shows "ingest_all pf now ps b = (Ok (), hear_all now pn ds b)"
  using assms
proof (induction ds arbitrary: ps b pn off g)
  case (Cons d ds)
  obtain p ps' where p: "ps = p # ps'" "carries kb n pn off d p"
      "packets_carry kb n (pn + 1) (off + of_nat (length d)) ds ps'"
    using Cons.prems(1) by auto
  have small: "unat pn < 2 ^ 32" using Cons.prems(4) by simp
  have i: "ingest pf now p b = (Ok (length p), heard now pn d b)"
    using carried_ingest [OF Cons.prems(2,3) p(2) small] Cons.prems(5) p(1) by simp
  have u: "unat (pn + 1) = unat pn + 1" using Cons.prems(4) by (simp add: unat_word_ariths)
  have "ingest_all pf now ps' (heard now pn d b) = (Ok (), hear_all now (pn + 1) ds (heard now pn d b))"
    using Cons.IH [OF p(3) listening_heard [OF Cons.prems(2) small]] Cons.prems(4,5) u p(1) by auto
  then show ?case using i p(1) by simp
qed simp

end
