(* ===== verification/File_Transfer.thy ===== *)
theory File_Transfer
  imports Interop_Proofs Network
begin

text \<open>
  The interop programs against each other over a lossless network: the server hears the request of the
  client and acknowledges it, answers with the file, and the client collects the reply. The lemmas follow
  the datagrams through \<open>step\<close>: which are ingested, at which a turn ends because the header check rejects
  it, which acknowledgements are left to be sent, and the packet that carries them.
\<close>

section \<open>Acknowledging\<close>

lemma idle_iff: "next_to_send c = None \<longleftrightarrow> (\<forall>i. \<not> ready i c)"
proof -
  have "i \<in> set all_spaces" for i by (cases i) (simp_all add: all_spaces_def)
  then show ?thesis by (auto simp: next_is_find find_None_iff)
qed

text \<open>An established connection that has nothing to send but the acknowledgements \<open>acks\<close> of application data.\<close>

definition acking :: "dir_keys \<Rightarrow> u64 list \<Rightarrow> 't conn \<Rightarrow> bool" where
  "acking ka acks c \<longleftrightarrow> conn_ok c \<and> state c = Established \<and> pending_app_data c = [] \<and>
     local_keys (appdata_space c) = Some ka \<and> pending_crypto c ! 2 = [] \<and> sp_pending_acks (appdata_space c) = acks \<and>
     (\<forall>i. i \<noteq> ApplicationData \<longrightarrow> \<not> ready i c)"

lemma acking_parts:
  assumes "acking ka acks c"
  shows "space_frames ApplicationData Established c = (if acks \<noteq> [] then [ack_frame acks] else [])"
    and "has_keys (get_space ApplicationData c)"
        and "next_to_send c = (if acks \<noteq> [] then Some ApplicationData else None)"
proof -
  show f: "space_frames ApplicationData Established c = (if acks \<noteq> [] then [ack_frame acks] else [])"
    using assms by (simp add: acking_def space_frames_def crypto_part_def ack_part_def done_part_def
        stream_part_def get_space_eqs)
  show k: "has_keys (get_space ApplicationData c)"
    using assms by (auto simp: acking_def has_keys_def local_keys_def get_space_eqs)
  show "next_to_send c = (if acks \<noteq> [] then Some ApplicationData else None)"
    using assms f k by (simp add: next_is_find all_spaces_def acking_def) (simp add: ready_def)
qed

lemma acking_none: "acking ka [] c \<longleftrightarrow> serving ka c"
proof
  assume "acking ka [] c"
  then show "serving ka c" using acking_parts(3) [of ka "[]" c] by (simp add: serving_def acking_def)
next
  assume s: "serving ka c"
  then have k: "has_keys (get_space ApplicationData c)"
      by (auto simp: serving_def has_keys_def local_keys_def get_space_eqs)
  have "sp_pending_acks (appdata_space c) = []" "pending_crypto c ! 2 = []"
    using idle_app [OF _ k] s by (auto simp: serving_def ack_part_def Let_def get_space_eqs split: if_splits)
  moreover have "\<not> ready i c" for i
    using s by (simp add: serving_def idle_iff)
  ultimately show "acking ka [] c" using s by (simp add: serving_def acking_def)
qed

lemma ready_heard: "i \<noteq> ApplicationData \<Longrightarrow> ready i (space_mut ApplicationData f c) = ready i c"
  by (cases i) (simp_all add: ready_def space_mut_def space_frames_def crypto_part_def ack_part_def done_part_def
    stream_part_def get_space_def)

lemma acking_heard:
  assumes "acking ka acks c"
  shows "acking ka (acks @ [pn]) (space_mut ApplicationData (record_recv_pn now pn) c)"
proof -
  let ?c = "space_mut ApplicationData (record_recv_pn now pn) c"
  have "conn_ok ?c" using assms
    by (auto simp: acking_def conn_ok_def get_space_eqs(1) [symmetric] get_space_mut record_recv_pn_def Let_def
        has_keys_def)
  with assms ready_heard [of _ "record_recv_pn now pn" c] show ?thesis
    by (simp add: acking_def) (simp add: space_mut_def local_keys_def)
qed

lemma acking_stream:
  assumes "acking ka acks c"
  shows "acking ka acks (c\<lparr>received_app_data := x\<rparr>)"
proof -
  have "get_space i (c\<lparr>received_app_data := x\<rparr>) = get_space i c" "ready i (c\<lparr>received_app_data := x\<rparr>) = ready i c" for i
    by (cases i; simp add: get_space_def ready_def space_frames_def crypto_part_def ack_part_def done_part_def
        stream_part_def)+
  then show ?thesis using assms by (simp add: acking_def conn_ok_def)
qed

lemma acking_sent:
  assumes "acking ka acks c" and "acks \<noteq> []"
  shows "serving ka (sent ApplicationData Established c)"
proof -
  have c: "conn_ok c" "state c = Established" "pending_app_data c = []" "local_keys (get_space ApplicationData c) =
      Some ka"
    and o: "\<And>i. i \<noteq> ApplicationData \<Longrightarrow> \<not> ready i c"
    using assms(1) by (simp_all add: acking_def get_space_eqs)
  define c' where "c' = sent ApplicationData Established c"
  have n: "next_to_send c = Some ApplicationData" using acking_parts(3) [OF assms(1)] assms(2) by simp
  have "\<not> ready ApplicationData c'" using sent_not_ready [OF c(1,2)] by (simp add: c'_def)
  moreover have "\<not> ready i c'" if "i \<noteq> ApplicationData" for i
    using ready_other [of ApplicationData i c] that o [OF that] c(2) by (simp add: c'_def)
  ultimately have "\<not> ready i c'" for i by (cases "i = ApplicationData") simp_all
  then have "next_to_send c' = None" by (simp add: idle_iff)
  moreover have "conn_ok c'"
    using conn_ok_call [OF c(1), of undefined "Egest 0"] c(2) n by (simp add: egest_eq [OF c(1)] c'_def)
  moreover have "pending_app_data c' = []" "state c' = Established"
    using c by (simp_all add: c'_def sent_rest done_part_def)
  moreover have "local_keys (appdata_space c') = Some ka"
    using c(4) by (simp add: c'_def local_keys_def sent_space get_space_eqs(3) [symmetric])
  ultimately show ?thesis by (simp add: serving_def c'_def [symmetric])
qed

lemma acking_hear_all:
  assumes "acking ka acks b"
  shows "\<exists>acks'. acking ka (acks @ acks') (hear_all now pn ds b) \<and> length acks' = length ds \<and>
     (unat pn + length ds < 2 ^ 32 \<longrightarrow> list_all (\<lambda>n. unat n < 2 ^ 32) acks')"
  using assms
proof (induction ds arbitrary: pn b acks)
  case (Cons d ds)
  have "acking ka (acks @ [pn]) (receive_stream d (space_mut ApplicationData (record_recv_pn now pn) b))"
    unfolding receive_stream_def using acking_stream [OF acking_heard [OF Cons.prems]] .
  from Cons.IH [OF this, of "pn + 1"] obtain acks' where
    "acking ka (acks @ pn # acks') (hear_all now pn (d # ds) b)" "length acks' = length ds"
    "unat (pn + 1) + length ds < 2 ^ 32 \<longrightarrow> list_all (\<lambda>n. unat n < 2 ^ 32) acks'" by auto
  moreover have "unat (pn + 1) = unat pn + 1" if "unat pn + length (d # ds) < 2 ^ 32"
    using that by (simp add: unat_word_ariths)
  ultimately show ?case by (intro exI [of _ "pn # acks'"]) auto
qed simp

text \<open>An ACK frame fits every packet.\<close>

lemma small_acks:
  assumes "list_all (\<lambda>n. unat n < 2 ^ 32) acks" and "length acks < 2 ^ 32"
  shows "frames_ok [ack_frame acks]" and "length (frames_wire [ack_frame acks]) \<le> 1042"
proof -
  have "unat (fold max acks m) < 2 ^ 32" if "unat m < 2 ^ 32" for m
    using assms(1) that by (induction acks arbitrary: m) (auto simp: max_def)
  from this [of 0] have "unat (fold max acks 0) < 2 ^ 32" by simp
  moreover have "unat (of_nat (length acks - 1) :: u64) < 2 ^ 32" using assms(2) by (simp add: unat_of_nat)
  ultimately show "frames_ok [ack_frame acks]"
    by (simp add: ack_frame_def Let_def frames_ok_def ranges_ok_def range_ok_def ecn_ok_def isize_max_def
        VARINT_MAX_unat)
  show "length (frames_wire [ack_frame acks]) \<le> 1042"
    using encoded_len_le_8 [of "fold max acks 0"] encoded_len_le_8 [of "of_nat (length acks - 1)"] encoded_len_le_8
        [of 0]
    by (simp add: ack_frame_def Let_def frames_wire_def ecn_wire_def)
qed

section \<open>Steps over a lossless network\<close>

lemma flush_serving: "serving ka (ep_conn ep) \<Longrightarrow> flush_egress B ep = Some (Ok (), ep)"
  using flush_stop [of ep B] by (simp add: serving_def)

lemma flush_single:
  assumes "conn_ok (ep_conn ep)" and "state (ep_conn ep) = Established" and "next_to_send (ep_conn ep) = Some i"
    and "sent_packet i (ep_conn ep) = Ok p" and "p \<noteq> []" and "length p \<le> length (ep_send_buf ep)"
    and "serving ka (sent i Established (ep_conn ep))" and "be_send B p (ep_backend ep) = (Inr n, b)"
  shows "flush_egress B ep = Some (Ok (), ep\<lparr>ep_conn := sent i Established (ep_conn ep),
     ep_send_buf := p @ drop (length p) (ep_send_buf ep), ep_backend := b\<rparr>)"
proof -
  have "egest (length (ep_send_buf ep)) (ep_conn ep) = (Ok p, sent i Established (ep_conn ep))"
    using assms(2-6) by (simp add: egest_eq [OF assms(1)])
  note e = flush_one [OF this assms(5,8)]
  show ?thesis unfolding e by (rule flush_serving [of ka]) (simp add: assms(7))
qed

text \<open>Flushing an established connection that has nothing to send but acknowledgements.\<close>

lemma flush_acks:
  fixes ep :: "('t, epoll_backend \<times> 'o) endpoint"
  assumes l: "lossless os nw home" and ep: "ep_backend ep = (eb, w)" "eb_peer eb = Some to"
      "length (ep_send_buf ep) = 2048"
    and a: "acking ka acks (ep_conn ep)" "acks \<noteq> []" "list_all (\<lambda>n. unat n < 2 ^ 32) acks" "length acks < 2 ^ 32"
    and k: "keys_match ka kb" and size: "unat (peeks (ep_conn ep) ApplicationData) < 2 ^ 32"
        "length (dst_cid (ep_conn ep)) + packet_bound ka 1042 \<le> 2048"
  obtains w' p src buf where "flush_egress (epoll os) ep =
      Some (Ok (), ep\<lparr>ep_conn := sent ApplicationData Established (ep_conn ep),
       ep_send_buf := buf, ep_backend := (eb, w')\<rparr>)" and "length buf = 2048"
    and "sent_packet ApplicationData (ep_conn ep) = Ok p"
    and "bears kb (length (dst_cid (ep_conn ep))) (peeks (ep_conn ep) ApplicationData) [ack_frame acks] p"
        and "length p \<le> 2048"
    and "nw_same nw {home to} w w'" and "nw_mail nw w' (home to) = nw_mail nw w (home to) @ [(p, src)]"
proof -
  let ?c = "ep_conn ep"
  have c: "conn_ok ?c" "state ?c = Established" "local_keys (get_space ApplicationData ?c) = Some ka"
    using a(1) by (simp_all add: acking_def get_space_eqs)
  have fr: "space_frames ApplicationData Established ?c = [ack_frame acks]" "next_to_send ?c = Some ApplicationData"
    using acking_parts [OF a(1)] a(2) by simp_all
  obtain pkt where q: "sent_packet ApplicationData ?c = Ok pkt" "length pkt \<le> 2048" "pkt \<noteq> []"
      "bears kb (length (dst_cid ?c)) (peeks ?c ApplicationData) [ack_frame acks] pkt"
    by (rule frames_borne [OF c(2,3) k fr(1) small_acks [OF a(3,4)] size])
  obtain w' out where o: "takes (epoll os) [pkt] (eb, w)" "after_sends (epoll os) [pkt] (eb, w) = (eb, w')"
      "nw_same nw {home to} w w'" "nw_mail nw w' (home to) = nw_mail nw w (home to) @ out" "map fst out = [pkt]"
    using lossless.sends_all [OF l ep(2), of "[pkt]" w] by metis
  obtain n where n: "be_send (epoll os) pkt (ep_backend ep) = (Inr n, eb, w')"
    using o(1,2) ep(1) by (auto simp: prod_eq_iff)
  obtain src where out: "out = [(pkt, src)]" using o(5) by auto
  have f: "flush_egress (epoll os) ep = Some (Ok (), ep\<lparr>ep_conn := sent ApplicationData Established ?c,
      ep_send_buf := pkt @ drop (length pkt) (ep_send_buf ep), ep_backend := (eb, w')\<rparr>)"
    using flush_single [of ep ApplicationData pkt ka "epoll os" n "(eb, w')"] c fr(2) q acking_sent [OF a(1,2)] n ep(3)
    by simp
  show thesis using that [OF f _ q(1,4,2) o(3)] o(4) out q(2) ep(3) by simp
qed

text \<open>The same with or without acknowledgements: the connection is idle again.\<close>

lemma flush_any:
  fixes ep :: "('t, epoll_backend \<times> 'o) endpoint"
  assumes l: "lossless os nw home" and ep: "ep_backend ep = (eb, w)" "eb_peer eb = Some to"
      "length (ep_send_buf ep) = 2048"
    and a: "acking ka acks (ep_conn ep)" "list_all (\<lambda>n. unat n < 2 ^ 32) acks" "length acks < 2 ^ 32"
    and k: "keys_match ka kb" and size: "unat (peeks (ep_conn ep) ApplicationData) < 2 ^ 32"
        "length (dst_cid (ep_conn ep)) + packet_bound ka 1042 \<le> 2048"
  obtains ep' w' where "flush_egress (epoll os) ep = Some (Ok (), ep')" and "ep_backend ep' = (eb, w')"
    and "serving ka (ep_conn ep')" and "received_app_data (ep_conn ep') = received_app_data (ep_conn ep)"
    and "nw_same nw {home to} w w'"
proof (cases "acks = []")
  case True
  then have "serving ka (ep_conn ep)" using a(1) by (simp add: acking_none)
  from that [OF flush_serving [OF this] ep(1) this refl] show thesis by (simp add: nw_same_def)
next
  case False
  obtain w' buf where f: "flush_egress (epoll os) ep =
      Some (Ok (), ep\<lparr>ep_conn := sent ApplicationData Established (ep_conn ep),
       ep_send_buf := buf, ep_backend := (eb, w')\<rparr>)" "nw_same nw {home to} w w'"
    by (rule flush_acks [OF l ep a(1) False a(2,3) k size])
  show thesis by (rule that [OF f(1)]) (use acking_sent [OF a(1) False] f(2) in simp_all)
qed

section \<open>Receiving over a lossless network\<close>

lemma receive_none:
  assumes l: "lossless os nw home" and ep: "ep_backend ep = (eb, w)" "eb_peer eb = Some to" and m:
      "nw_mail nw w (eb_socket eb) = []"
  obtains w' where "recv_loop pf (epoll os) now ep = Some (Ok (), ep\<lparr>ep_backend := (eb, w')\<rparr>)" and "nw_same nw {} w w'"
proof -
  obtain w' where r: "os_recv_from os (eb_socket eb) w = (Inl WouldBlock, w')" "nw_same nw {} w w'"
    using lossless.recv_none [OF l m] by blast
  then have "be_recv (epoll os) (ep_recv_buf ep) (ep_backend ep) = (Inl WouldBlock, ep_recv_buf ep, eb, w')"
    by (simp add: epoll_def epoll_recv_def ep(1))
  then have "recv_loop pf (epoll os) now ep = Some (Ok (), ep\<lparr>ep_backend := (eb, w')\<rparr>)"
    by (subst recv_loop.simps) simp
  then show thesis using r(2) by (rule that)
qed

text \<open>The first datagram that waits is ingested; an error of \<open>ingest\<close> ends the loop and leaves the rest waiting.\<close>

lemma receive_first:
  assumes l: "lossless os nw home" and ep: "ep_backend ep = (eb, w)" "eb_peer eb = Some to"
      "length (ep_recv_buf ep) = 2048"
    and m: "nw_mail nw w (eb_socket eb) = (d, src) # ms" "d \<noteq> []" "length d \<le> 2048"
  obtains ep' w' where "ep_backend ep' = (eb, w')" and "length (ep_recv_buf ep') = 2048"
      and "ep_send_buf ep' = ep_send_buf ep"
    and "ep_conn ep' = snd (ingest pf now d (ep_conn ep))" and "nw_same nw {eb_socket eb} w w'"
        and "nw_mail nw w' (eb_socket eb) = ms"
    and "recv_loop pf (epoll os) now ep =
      (case fst (ingest pf now d (ep_conn ep)) of Inl e \<Rightarrow> Some (Inl e, ep') | Inr k \<Rightarrow> recv_loop pf (epoll os) now ep')"
proof -
  obtain w' where r: "os_recv_from os (eb_socket eb) w = (Inr (d, src), w')" "nw_same nw {eb_socket eb} w w'"
      "nw_mail nw w' (eb_socket eb) = ms"
    using lossless.recv_first [OF l m(1)] by blast
  obtain x c where i: "ingest pf now d (ep_conn ep) = (x, c)" by fastforce
  let ?buf = "d @ drop (length d) (ep_recv_buf ep)"
  define ep' where "ep' = ep\<lparr>ep_recv_buf := ?buf, ep_backend := (eb, w'), ep_conn := c\<rparr>"
  have b: "be_recv (epoll os) (ep_recv_buf ep) (ep_backend ep) = (Inr (length d, src), ?buf, eb, w')"
    using r(1) ep m(3) by (simp add: epoll_def epoll_recv_def Let_def min_absorb1)
  have s: "slice ?buf 0 (length d) = (Ok d :: (bytes, connection_error) result)" by (simp add: slice_def)
  have "recv_loop pf (epoll os) now ep =
      (case x of Inl e \<Rightarrow> Some (Inl e, ep') | Inr k \<Rightarrow> recv_loop pf (epoll os) now ep')"
    using b s i m(2) by (subst recv_loop.simps) (simp add: Let_def ep'_def split: sum.split)
  with r(2,3) i ep(3) m(3) show thesis by (intro that [of ep' w']) (simp_all add: ep'_def)
qed

section \<open>Packets on their way\<close>

text \<open>
  The packet \<open>p\<close> brings the data \<open>d\<close>: in a STREAM frame, or none in an acknowledgement. \<open>conveyed\<close> says
  so of packets with consecutive numbers, each paired with its data; \<open>passed\<close> is the data of those that
  get past the header check, and \<open>patient\<close> says that from none, and then from each packet with data that
  passes, at most 30 packets fail the check until the next.
\<close>

definition conveys :: "dir_keys \<Rightarrow> nat \<Rightarrow> u64 \<Rightarrow> bytes \<Rightarrow> bytes \<Rightarrow> bool" where
  "conveys kb n pn d p \<longleftrightarrow> length p \<le> 2048 \<and>
     ((\<exists>acks. d = [] \<and> bears kb n pn [ack_frame acks] p) \<or> (\<exists>off. carries kb n pn off d p))"

fun conveyed :: "dir_keys \<Rightarrow> nat \<Rightarrow> u64 \<Rightarrow> (bytes \<times> bytes) list \<Rightarrow> bool" where
  "conveyed kb n pn [] = True"
| "conveyed kb n pn ((d, p) # xs) \<longleftrightarrow> conveys kb n pn d p \<and> conveyed kb n (pn + 1) xs"

definition passed :: "(bytes \<times> bytes) list \<Rightarrow> bytes" where
  "passed xs = concat (map fst (filter (bits_pass \<circ> snd) xs))"

fun patient :: "nat \<Rightarrow> (bytes \<times> bytes) list \<Rightarrow> bool" where
  "patient s [] = True"
| "patient s ((d, p) # xs) \<longleftrightarrow>
     (if bits_pass p then patient (if d = [] then s else 0) xs else s < 30 \<and> patient (s + 1) xs)"

lemma conveys_nonempty: "conveys kb n pn d p \<Longrightarrow> p \<noteq> []"
  by (auto simp: conveys_def carries_def bears_def)

lemma conveyed_append: "conveyed kb n pn (xs @ ys) \<longleftrightarrow> conveyed kb n pn xs \<and> conveyed kb n (pn + of_nat (length xs)) ys"
  by (induction xs arbitrary: pn) (auto simp: algebra_simps)

lemma conveys_ingest:
  assumes "listening kb n g pn b" and "g \<le> 120" and "conveys kb n pn d p" and "unat pn < 2 ^ 32"
  shows "ingest pf now p b =
     (if bits_pass p then (Ok (length p), heard now pn d b) else (Error (InPacket ReservedBitsSet), b))"
proof (cases "\<exists>off. carries kb n pn off d p")
  case True
  then show ?thesis using carried_ingest [OF assms(1,2) _ assms(4)] by blast
next
  case False
  then obtain acks where a: "d = []" "bears kb n pn [ack_frame acks] p" using assms(3) by (auto simp: conveys_def)
  have "process_frames pf [ack_frame acks] i c = (Ok (), c)" for i and c :: "'a conn"
    unfolding process_frames_def by (rule process_quiet) (simp add: ack_frame_def Let_def)
  then show ?thesis using borne_ingest [OF assms(1,2) a(2) assms(4), of pf now] a(1)
    by (simp add: seqA_def returnA_def receive_stream_def)
qed

lemma listening_all:
  assumes "listening kb n g pn b" and "unat pn + length ds < 2 ^ 32"
  shows "listening kb n (if ds = [] then g else 1) (pn + of_nat (length ds)) (hear_all now pn ds b)"
  using assms
proof (induction ds arbitrary: pn b g)
  case (Cons d ds)
  have u: "unat (pn + 1) = unat pn + 1" using Cons.prems(2) by (simp add: unat_word_ariths)
  have "listening kb n 1 (pn + 1) (heard now pn d b)"
    by (rule listening_heard [OF Cons.prems(1)]) (use Cons.prems(2) in simp)
  from Cons.IH [OF this] Cons.prems(2) u
  have "listening kb n (if ds = [] then 1 else 1) (pn + 1 + of_nat (length ds)) (hear_all now (pn + 1) ds
      (heard now pn d b))"
    by simp
  then show ?case by (simp add: algebra_simps split: if_splits)
qed simp

text \<open>The packets before the first that fails, and the others.\<close>

fun passing :: "(bytes \<times> bytes) list \<Rightarrow> (bytes \<times> bytes) list" where
  "passing [] = []"
| "passing ((d, p) # xs) = (if bits_pass p then (d, p) # passing xs else [])"

fun failing :: "(bytes \<times> bytes) list \<Rightarrow> (bytes \<times> bytes) list" where
  "failing [] = []"
| "failing ((d, p) # xs) = (if bits_pass p then failing xs else (d, p) # xs)"

lemma passing_failing: "passing xs @ failing xs = xs"
  by (induction xs rule: passing.induct) simp_all

lemma passed_split: "passed xs = concat (map fst (passing xs)) @ passed (tl (failing xs))"
  by (induction xs rule: passing.induct) (simp_all add: passed_def)

text \<open>Behind the first packet that fails, the count of \<open>patient\<close> has gone on.\<close>

lemma patient_split:
  assumes "patient s xs" and "failing xs \<noteq> []"
  defines "s' \<equiv> if concat (map fst (passing xs)) = [] then s else 0"
  shows "s' < 30" and "patient (s' + 1) (tl (failing xs))"
  using assms(1,2) unfolding s'_def by (induction s xs rule: patient.induct) (auto split: if_splits)

text \<open>Receiving what waits stops behind the first packet that fails the check.\<close>

lemma receive_mail:
  fixes pf :: "('t, 'c) platform" and ep :: "('t, epoll_backend \<times> 'o) endpoint"
  assumes l: "lossless os nw home"
    and "ep_backend ep = (eb, w)" and "eb_peer eb = Some to" and "length (ep_recv_buf ep) = 2048"
    and "map fst (nw_mail nw w (eb_socket eb)) = map snd xs" and "conveyed kb n pn xs"
    and "listening kb n g pn (ep_conn ep)" and "g \<le> 120" and "unat pn + length xs < 2 ^ 32"
  shows "\<exists>ep' w'. recv_loop pf (epoll os) now ep =
        Some (if failing xs = [] then Ok () else Error (InPacket ReservedBitsSet), ep') \<and>
     ep_backend ep' = (eb, w') \<and> length (ep_recv_buf ep') = 2048 \<and> ep_send_buf ep' = ep_send_buf ep \<and>
     ep_conn ep' = hear_all now pn (map fst (passing xs)) (ep_conn ep) \<and> nw_same nw {eb_socket eb} w w' \<and>
     map fst (nw_mail nw w' (eb_socket eb)) = map snd (tl (failing xs))"
  using assms(2-)
proof (induction xs arbitrary: ep w pn g)
  case Nil
  obtain w' where r: "recv_loop pf (epoll os) now ep = Some (Ok (), ep\<lparr>ep_backend := (eb, w')\<rparr>)" "nw_same nw {} w w'"
    using receive_none [OF l Nil(1,2), of pf now] Nil(4) by auto
  then show ?case using Nil(3,4)
    by (intro exI [of _ "ep\<lparr>ep_backend := (eb, w')\<rparr>"] exI [of _ w']) (simp add: nw_same_def)
next
  case (Cons x xs)
  obtain d p where x: "x = (d, p)" by fastforce
  have small: "unat pn < 2 ^ 32" and u: "unat (pn + 1) = unat pn + 1" using Cons.prems(8)
      by (simp_all add: unat_word_ariths)
  obtain src ms where m: "nw_mail nw w (eb_socket eb) = (p, src) # ms" "map fst ms = map snd xs"
    using Cons.prems(4) x by (cases "nw_mail nw w (eb_socket eb)") auto
  have v: "conveys kb n pn d p" "conveyed kb n (pn + 1) xs" using Cons.prems(5) x by simp_all
  then have p: "p \<noteq> []" "length p \<le> 2048" using conveys_nonempty [OF v(1)] v(1) by (simp_all add: conveys_def)
  obtain ep1 w1 where 1: "ep_backend ep1 = (eb, w1)" "length (ep_recv_buf ep1) = 2048"
      "ep_send_buf ep1 = ep_send_buf ep"
      "ep_conn ep1 = snd (ingest pf now p (ep_conn ep))" "nw_same nw {eb_socket eb} w w1"
        "nw_mail nw w1 (eb_socket eb) = ms"
      "recv_loop pf (epoll os) now ep = (case fst (ingest pf now p (ep_conn ep)) of
          Inl e \<Rightarrow> Some (Inl e, ep1) | Inr k \<Rightarrow> recv_loop pf (epoll os) now ep1)"
    by (rule receive_first [OF l Cons.prems(1-3) m(1) p])
  note i = conveys_ingest [OF Cons.prems(6,7) v(1) small, of pf now]
  show ?case
  proof (cases "bits_pass p")
    case False
    then show ?thesis using 1 i m(2) x by (intro exI [of _ ep1] exI [of _ w1]) simp
  next
    case True
    have b: "listening kb n 1 (pn + 1) (ep_conn ep1)" using listening_heard [OF Cons.prems(6) small] 1(4) i True by simp
    have "unat (pn + 1) + length xs < 2 ^ 32" using Cons.prems(8) u by simp
    from Cons.IH [OF 1(1) Cons.prems(2) 1(2) _ v(2) b _ this] obtain ep' w' where
      "recv_loop pf (epoll os) now ep1 = Some (if failing xs = [] then Ok () else Error (InPacket ReservedBitsSet),
        ep')"
      "ep_backend ep' = (eb, w')" "length (ep_recv_buf ep') = 2048" "ep_send_buf ep' = ep_send_buf ep1"
      "ep_conn ep' = hear_all now (pn + 1) (map fst (passing xs)) (ep_conn ep1)" "nw_same nw {eb_socket eb} w1 w'"
      "map fst (nw_mail nw w' (eb_socket eb)) = map snd (tl (failing xs))"
      using 1(6) m(2) by auto
    then show ?thesis using 1 i True x
      by (intro exI [of _ ep'] exI [of _ w']) (auto simp: nw_same_def)
  qed
qed

text \<open>A step without mail and with nothing to send.\<close>

lemma step_idle:
  assumes l: "lossless os nw home"
    and ep: "ep_backend ep = (eb, w)" "nw_watch nw w (eb_epoll_fd eb) = Some (eb_socket eb)"
        "nw_mail nw w (eb_socket eb) = []"
    and c: "serving ka (ep_conn ep)"
  obtains w' where "step pf (epoll os) now t ep = Some (Ok False, ep\<lparr>ep_backend := (eb, w')\<rparr>)" and "nw_same nw {} w w'"
proof -
  obtain w' where p: "be_poll (epoll os) t (eb, w) = (Inr False, eb, w')" and s: "nw_same nw {} w w'"
    using lossless.poll_mail [OF l ep(2), of t] ep(3) by auto
  have "flush_egress (epoll os) (ep\<lparr>ep_backend := (eb, w')\<rparr>) = Some (Ok (), ep\<lparr>ep_backend := (eb, w')\<rparr>)"
    using c by (intro flush_serving [of ka]) simp
  then show thesis using that s p ep(1) by (simp add: step_def Let_def)
qed

lemma hear_all_rest [simp]:
  "peeks (hear_all now pn ds b) = peeks b" "dst_cid (hear_all now pn ds b) = dst_cid b"
proof -
  have p: "peeks (receive_stream d (space_mut ApplicationData (record_recv_pn now pn) b)) = peeks b" for d pn and b
      :: "'a conn"
  proof
    fix j
    have "get_space j (receive_stream d x) = get_space j x" for x :: "'a conn"
      by (cases j) (simp_all add: get_space_def receive_stream_def)
    then show "peeks (receive_stream d (space_mut ApplicationData (record_recv_pn now pn) b)) j = peeks b j"
      by (simp add: peeks_def get_space_mut record_recv_pn_def Let_def)
  qed
  show "peeks (hear_all now pn ds b) = peeks b"
    by (induction ds arbitrary: pn b) (simp_all add: p)
  show "dst_cid (hear_all now pn ds b) = dst_cid b"
    by (induction ds arbitrary: pn b) (simp_all add: receive_stream_def space_mut_def)
qed

section \<open>The download\<close>

text \<open>Without mail, the client takes what it has received and gives up after 31 turns of silence.\<close>

lemma download_idle:
  assumes l: "lossless os nw home"
    and "ep_backend ep = (eb, w)" and "nw_watch nw w (eb_epoll_fd eb) = Some (eb_socket eb)"
        and "nw_mail nw w (eb_socket eb) = []"
    and "serving ka (ep_conn ep)"
  shows "\<exists>ep'. download pf (epoll os) clock i silence data ep = Some (Ok (data @ received_app_data (ep_conn ep)), ep') \<and>
     serving ka (ep_conn ep')"
  using assms(2-5)
proof (induction "32 * length (received_app_data (ep_conn ep)) + (31 - silence)" arbitrary: i silence data ep w
    rule: less_induct)
  case less
  let ?x = "received_app_data (ep_conn ep)"
  obtain w' where st: "step pf (epoll os) (clock i) 100 ep = Some (Ok False, ep\<lparr>ep_backend := (eb, w')\<rparr>)"
      "nw_same nw {} w w'"
    by (rule step_idle [OF l less.prems])
  define c where "c = (ep_conn ep)\<lparr>received_app_data := drop 16384 ?x\<rparr>"
  define ep1 where "ep1 = ep\<lparr>ep_backend := (eb, w'), ep_conn := c\<rparr>"
  have r: "recv_data 16384 (ep_conn ep) = (take 16384 ?x, c)"
      by (cases "length ?x \<le> 16384") (simp_all add: recv_data_def c_def)
  have sv: "serving ka c" using acking_stream [of ka "[]" "ep_conn ep"] less.prems(4) by (simp add: acking_none c_def)
  have d: "download pf (epoll os) clock i silence data ep =
      (if ?x \<noteq> [] then download pf (epoll os) clock (i + 1) 0 (data @ take 16384 ?x) ep1
       else if silence + 1 > 30 then Some (Ok data, ep1) else download pf (epoll os) clock (i + 1) (silence + 1)
           data ep1)"
    using st(1) r by (subst download.simps) (simp add: ep1_def Let_def)
  have ih: "\<exists>ep'. download pf (epoll os) clock j sil dat ep1 = Some (Ok (dat @ drop 16384 ?x), ep') \<and>
      serving ka (ep_conn ep')"
    if "32 * length (drop 16384 ?x) + (31 - sil) < 32 * length ?x + (31 - silence)" for j sil dat
    using less.hyps [of ep1 sil w' j dat] that less.prems st(2) sv by (simp add: ep1_def c_def nw_same_def)
  show ?case
  proof (cases "?x = []")
    case False
    then have "0 < length ?x" by simp
    then have "32 * length (drop 16384 ?x) + (31 - 0) < 32 * length ?x + (31 - silence)" unfolding length_drop by arith
    from ih [OF this, of "i + 1" "data @ take 16384 ?x"] show ?thesis using d False by simp
  next
    case True
    show ?thesis
    proof (cases "silence + 1 > 30")
      case True
      then show ?thesis using d \<open>?x = []\<close> sv by (simp add: ep1_def)
    next
      case False
      then have "32 * length (drop 16384 ?x) + (31 - (silence + 1)) < 32 * length ?x + (31 - silence)" using True
          by simp
      from ih [OF this, of "i + 1" data] show ?thesis using d False True by simp
    qed
  qed
qed

text \<open>The rest of the download once the connection is idle behind a turn.\<close>

lemma download_rest:
  assumes l: "lossless os nw home" and st: "step pf (epoll os) (clock i) 100 ep = Some (r, ep1)" "r \<noteq> Inl Panic"
    and "ep_backend ep1 = (eb, w)" and "nw_watch nw w (eb_epoll_fd eb) = Some (eb_socket eb)"
        and "nw_mail nw w (eb_socket eb) = []"
    and sv: "serving ka (ep_conn ep1)"
  shows "\<exists>ep'. download pf (epoll os) clock i silence data ep = Some (Ok (data @ received_app_data (ep_conn ep1)), ep')"
proof -
  let ?x = "received_app_data (ep_conn ep1)"
  define c where "c = (ep_conn ep1)\<lparr>received_app_data := drop 16384 ?x\<rparr>"
  define ep2 where "ep2 = ep1\<lparr>ep_conn := c\<rparr>"
  have r: "recv_data 16384 (ep_conn ep1) = (take 16384 ?x, c)"
      by (cases "length ?x \<le> 16384") (simp_all add: recv_data_def c_def)
  have s2: "serving ka (ep_conn ep2)" using acking_stream [of ka "[]" "ep_conn ep1"] sv
      by (simp add: acking_none c_def ep2_def)
  have d: "download pf (epoll os) clock i silence data ep =
      (if ?x \<noteq> [] then download pf (epoll os) clock (i + 1) 0 (data @ take 16384 ?x) ep2
       else if silence + 1 > 30 then Some (Ok data, ep2) else download pf (epoll os) clock (i + 1) (silence + 1)
           data ep2)"
    using st r by (subst download.simps) (simp add: ep2_def Let_def)
  have "\<exists>ep'. download pf (epoll os) clock j sil dat ep2 = Some (Ok (dat @ drop 16384 ?x), ep')" for j sil dat
    using download_idle [OF l _ assms(5,6) s2, of pf clock j sil dat] assms(4) by (auto simp: ep2_def c_def)
  from this [of "i + 1" 0 "data @ take 16384 ?x"] this [of "i + 1" "silence + 1" data] show ?thesis
    by (auto simp: d)
qed

text \<open>
  A turn of an endpoint over the mail \<open>xs\<close>: when all packets pass, an acknowledgement goes out and the
  connection is idle; at the first that fails \<open>step\<close> returns the error, and the rest waits.
\<close>

lemma mail_turn:
  fixes pf :: "('t, 'c) platform" and ep :: "('t, epoll_backend \<times> 'o) endpoint"
  assumes l: "lossless os nw home"
    and ep: "ep_backend ep = (eb, w)" "eb_peer eb = Some to" "nw_watch nw w (eb_epoll_fd eb) = Some (eb_socket eb)"
      "length (ep_recv_buf ep) = 2048" "length (ep_send_buf ep) = 2048"
    and m: "map fst (nw_mail nw w (eb_socket eb)) = map snd xs" "conveyed kr n pn xs"
    and c: "listening kr n g pn (ep_conn ep)" "g \<le> 120" "unat pn + length xs < 2 ^ 32"
    and a: "acking ka acks (ep_conn ep)" "list_all (\<lambda>n. unat n < 2 ^ 32) acks" "length acks + length xs < 2 ^ 32"
    and k: "keys_match ka kb" and to: "home to \<noteq> eb_socket eb"
    and size: "unat (peeks (ep_conn ep) ApplicationData) < 2 ^ 32" "n + packet_bound ka 1042 \<le> 2048"
  obtains r ep' w' where "step pf (epoll os) now t ep = Some (r, ep')" and "r \<noteq> Inl Panic"
      and "ep_backend ep' = (eb, w')"
    and "nw_watch nw w' = nw_watch nw w" and "map fst (nw_mail nw w' (eb_socket eb)) = map snd (tl (failing xs))"
    and "received_app_data (ep_conn ep') = received_app_data (ep_conn ep) @ concat (map fst (passing xs))"
    and "failing xs = [] \<longrightarrow> serving ka (ep_conn ep')"
    and "failing xs \<noteq> [] \<longrightarrow> ep_conn ep' = hear_all now pn (map fst (passing xs)) (ep_conn ep) \<and>
      length (ep_recv_buf ep') = 2048 \<and> length (ep_send_buf ep') = 2048 \<and> nw_same nw {eb_socket eb} w w'"
proof -
  let ?h = "hear_all now pn (map fst (passing xs)) (ep_conn ep)"
  obtain w1 where p: "be_poll (epoll os) t (eb, w) = (Inr (xs \<noteq> []), eb, w1)" and s1: "nw_same nw {} w w1"
  proof (rule lossless.poll_mail [OF l ep(3), of t])
    fix w1
    have "nw_mail nw w (eb_socket eb) = [] \<longleftrightarrow> xs = []" using arg_cong [OF m(1), of length] by auto
    moreover assume "be_poll (epoll os) t (eb, w) = (Inr (nw_mail nw w (eb_socket eb) \<noteq> []), eb, w1)"
        "nw_same nw {} w w1"
    ultimately show thesis using that by simp
  qed
  define ep0 where "ep0 = ep\<lparr>ep_backend := (eb, w1)\<rparr>"
  obtain ep1 w2 where r: "(if xs \<noteq> [] then recv_loop pf (epoll os) now ep0 else Some (Ok (), ep0)) =
        Some (if failing xs = [] then Ok () else Error (InPacket ReservedBitsSet), ep1)"
      "ep_backend ep1 = (eb, w2)" "length (ep_recv_buf ep1) = 2048" "length (ep_send_buf ep1) = 2048" "ep_conn ep1 = ?h"
      "nw_same nw {eb_socket eb} w1 w2" "map fst (nw_mail nw w2 (eb_socket eb)) = map snd (tl (failing xs))"
  proof (cases "xs = []")
    case True
    then show thesis using that [of ep0 w1] ep m s1 by (simp add: ep0_def nw_same_def)
  next
    case False
    have "map fst (nw_mail nw w1 (eb_socket eb)) = map snd xs" using m(1) s1 by (simp add: nw_same_def)
    then show thesis
      using receive_mail [OF l, of ep0 eb w1 to xs kr n pn g pf now] that ep m(2) c False by (auto simp: ep0_def)
  qed
  have st: "step pf (epoll os) now t ep = Option.bind
      (if xs \<noteq> [] then recv_loop pf (epoll os) now ep0 else Some (Ok (), ep0)) (\<lambda>(r, ep).
        case r of Inl e \<Rightarrow> Some (Inl e, ep)
        | Inr _ \<Rightarrow> Option.bind (flush_egress (epoll os) ep) (\<lambda>(r, ep). Some (andthen r (\<lambda>_. Ok (xs \<noteq> [])), ep)))"
    using p ep(1) by (simp add: step_def Let_def ep0_def)
  show thesis
  proof (cases "failing xs = []")
    case False
    then have "step pf (epoll os) now t ep = Some (Error (InPacket ReservedBitsSet), ep1)" unfolding st r(1) by simp
    then show thesis
      by (rule that) (use r(2-7) s1 False in \<open>simp_all add: nw_same_def\<close>)
  next
    case True
    have lp: "length (passing xs) \<le> length xs" using arg_cong [OF passing_failing [of xs], of length] by simp
    obtain acks' where a': "acking ka (acks @ acks') ?h" "length acks' = length (passing xs)"
        "list_all (\<lambda>n. unat n < 2 ^ 32) acks'"
      using acking_hear_all [OF a(1), of now pn "map fst (passing xs)"] c(3) lp by auto
    have f: "peeks ?h = peeks (ep_conn ep)" "length (dst_cid ?h) = n" using c(1) by (simp_all add: listening_def)
    obtain ep2 w3 where 2: "flush_egress (epoll os) ep1 = Some (Ok (), ep2)" "ep_backend ep2 = (eb, w3)"
        "serving ka (ep_conn ep2)" "received_app_data (ep_conn ep2) = received_app_data (ep_conn ep1)"
          "nw_same nw {home to} w2 w3"
      by (rule flush_any [OF l r(2) ep(2) r(4), of ka "acks @ acks'" kb])
        (use a' a(2,3) lp k size f r(5) in simp_all)
    have "step pf (epoll os) now t ep = Some (Ok (xs \<noteq> []), ep2)" unfolding st r(1) using True 2(1) by simp
    then show thesis
      by (rule that [OF _ _ 2(2)]) (use r(5-7) s1 2(3-5) to True in \<open>simp_all add: nw_same_def\<close>)
  qed
qed

text \<open>What a turn over the mail \<open>xs\<close> hears.\<close>

definition front :: "(bytes \<times> bytes) list \<Rightarrow> bytes" where
  "front xs = concat (map fst (passing xs))"

text \<open>
  An endpoint whose mail brings the data of \<open>xs\<close>, in packets that the connection can hear: \<open>s\<close> packets more
  than at the start may be missing before the first.
\<close>

definition hearing :: "'o network \<Rightarrow> dir_keys \<Rightarrow> dir_keys \<Rightarrow> nat \<Rightarrow> epoll_backend \<Rightarrow> nat \<Rightarrow> u64 \<Rightarrow> (bytes \<times> bytes) list \<Rightarrow>
    ('t, epoll_backend \<times> 'o) endpoint \<Rightarrow> bool" where
  "hearing nw ka kr n eb s pn xs ep \<longleftrightarrow> (\<exists>w acks. ep_backend ep = (eb, w) \<and>
     nw_watch nw w (eb_epoll_fd eb) = Some (eb_socket eb) \<and> length (ep_recv_buf ep) = 2048 \<and>
         length (ep_send_buf ep) = 2048 \<and>
     map fst (nw_mail nw w (eb_socket eb)) = map snd xs \<and> conveyed kr n pn xs \<and>
         listening kr n (70 + s) pn (ep_conn ep) \<and>
     unat pn + length xs < 2 ^ 32 \<and> acking ka acks (ep_conn ep) \<and> list_all (\<lambda>n. unat n < 2 ^ 32) acks \<and>
     length acks + length xs < 2 ^ 32 \<and> unat (peeks (ep_conn ep) ApplicationData) < 2 ^ 32)"

text \<open>
  One turn of the download: it hears the packets in front of the first that fails. Without one the rest is
  silence; otherwise the packets behind it are next.
\<close>

lemma hearing_next:
  assumes b: "conveyed kr n pn xs" "listening kr n (70 + s) pn c" "unat pn + length xs < 2 ^ 32"
    and a: "acking ka acks c" "list_all (\<lambda>n. unat n < 2 ^ 32) acks" "length acks + length xs < 2 ^ 32"
    and f: "failing xs \<noteq> []" and c'_def: "c' = hear_all now pn (map fst (passing xs)) c"
  defines "pn' \<equiv> pn + of_nat (length (passing xs)) + 1"
    and "xs' \<equiv> tl (failing xs)"
  obtains acks' where "conveyed kr n pn' xs'" and "unat pn' + length xs' < 2 ^ 32"
    and "listening kr n (70 + ((if front xs = [] then s else 0) + 1)) pn' c'"
    and "acking ka (acks @ acks') c'" and "list_all (\<lambda>n. unat n < 2 ^ 32) (acks @ acks')"
    and "length (acks @ acks') + length xs' < 2 ^ 32"
proof -
  let ?good = "map fst (passing xs)"
  have len: "length xs = length (passing xs) + 1 + length xs'"
    using f arg_cong [OF passing_failing [of xs], of length] by (cases "failing xs") (auto simp: xs'_def)
  have u: "unat (pn + of_nat (length (passing xs))) = unat pn + length (passing xs)"
    using b(3) len by (simp add: unat_word_ariths unat_of_nat)
  then have u': "unat pn' = unat pn + length (passing xs) + 1" using b(3) len by (simp add: pn'_def unat_word_ariths)
  have "conveyed kr n pn (passing xs @ hd (failing xs) # xs')" using b(1) f by (simp add: xs'_def passing_failing)
  then have cv: "conveyed kr n pn' xs'" by (cases "hd (failing xs)") (simp add: conveyed_append pn'_def)
  have "listening kr n (if ?good = [] then 70 + s else 1) (pn + of_nat (length ?good)) c'"
    unfolding c'_def using b(3) len by (intro listening_all [OF b(2)]) simp
  from listening_skip [OF this] have "listening kr n ((if ?good = [] then 70 + s else 1) + 1) pn' c'"
    using u b(3) len by (simp add: pn'_def)
  then have li: "listening kr n (70 + ((if front xs = [] then s else 0) + 1)) pn' c'"
    by (rule listening_mono) (auto simp: front_def)
  obtain acks' where "acking ka (acks @ acks') c'" "length acks' = length ?good" "list_all (\<lambda>n. unat n < 2 ^ 32) acks'"
    using acking_hear_all [OF a(1), of now pn ?good] b(3) len by (auto simp: c'_def)
  with that [OF cv _ li] a(2,3) b(3) len u' show thesis by simp
qed

lemma download_turn:
  fixes pf :: "('t, 'c) platform" and ep :: "('t, epoll_backend \<times> 'o) endpoint"
  assumes l: "lossless os nw home" and peer: "eb_peer eb = Some to" and to: "home to \<noteq> eb_socket eb"
    and k: "keys_match ka kb" and bound: "n + packet_bound ka 1042 \<le> 2048"
    and h: "hearing nw ka kr n eb s pn xs ep" and s: "s \<le> 50"
  defines "x \<equiv> received_app_data (ep_conn ep) @ front xs"
  obtains (ended) ep' where "failing xs = []"
      and "download pf (epoll os) clock i silence data ep =
          Some (Ok (data @ received_app_data (ep_conn ep) @ passed xs), ep')"
  | (stopped) ep2 pn' where "failing xs \<noteq> []" and "received_app_data (ep_conn ep2) = drop 16384 x"
      and "hearing nw ka kr n eb ((if front xs = [] then s else 0) + 1) pn' (tl (failing xs)) ep2"
      and "download pf (epoll os) clock i silence data ep =
        (if x \<noteq> [] then download pf (epoll os) clock (i + 1) 0 (data @ take 16384 x) ep2
         else if silence + 1 > 30 then Some (Ok data, ep2) else download pf (epoll os) clock (i + 1) (silence + 1)
             data ep2)"
proof -
  let ?c = "ep_conn ep"
  obtain w acks where e: "ep_backend ep = (eb, w)" "nw_watch nw w (eb_epoll_fd eb) = Some (eb_socket eb)"
      "length (ep_recv_buf ep) = 2048" "length (ep_send_buf ep) = 2048" "map fst (nw_mail nw w (eb_socket eb)) =
        map snd xs"
    and b: "conveyed kr n pn xs" "listening kr n (70 + s) pn ?c" "unat pn + length xs < 2 ^ 32"
    and a: "acking ka acks ?c" "list_all (\<lambda>n. unat n < 2 ^ 32) acks" "length acks + length xs < 2 ^ 32"
    and p: "unat (peeks ?c ApplicationData) < 2 ^ 32"
    using h unfolding hearing_def by blast
  have g: "70 + s \<le> 120" using s by simp
  obtain r ep1 w1 where 1: "step pf (epoll os) (clock i) 100 ep = Some (r, ep1)" "r \<noteq> Inl Panic"
      "ep_backend ep1 = (eb, w1)"
      "nw_watch nw w1 = nw_watch nw w" "map fst (nw_mail nw w1 (eb_socket eb)) = map snd (tl (failing xs))"
      "received_app_data (ep_conn ep1) = x" "failing xs = [] \<longrightarrow> serving ka (ep_conn ep1)"
      "failing xs \<noteq> [] \<longrightarrow> ep_conn ep1 = hear_all (clock i) pn (map fst (passing xs)) ?c \<and>
        length (ep_recv_buf ep1) = 2048 \<and> length (ep_send_buf ep1) = 2048 \<and> nw_same nw {eb_socket eb} w w1"
    by (rule mail_turn [OF l e(1) peer e(2-5) b(1,2) g b(3) a k to p bound, folded front_def, folded x_def])
  have w1: "nw_watch nw w1 (eb_epoll_fd eb) = Some (eb_socket eb)" using 1(4) e(2) by simp
  show thesis
  proof (cases "failing xs = []")
    case True
    then have "nw_mail nw w1 (eb_socket eb) = []" "serving ka (ep_conn ep1)" using 1(5,7) by simp_all
    from download_rest [where clock = clock and i = i, OF l 1(1,2,3) w1 this] show thesis
      using passed_split [of xs] True 1(6) ended by (auto simp: passed_def x_def front_def)
  next
    case False
    then have c1: "ep_conn ep1 = hear_all (clock i) pn (map fst (passing xs)) ?c" using 1(8) by simp
    define ep2 where "ep2 = ep1\<lparr>ep_conn := (ep_conn ep1)\<lparr>received_app_data := drop 16384 x\<rparr>\<rparr>"
    have rd: "recv_data 16384 (ep_conn ep1) = (take 16384 x, ep_conn ep2)"
      using 1(6) by (cases "length x \<le> 16384") (simp_all add: recv_data_def ep2_def)
    have d: "download pf (epoll os) clock i silence data ep =
        (if x \<noteq> [] then download pf (epoll os) clock (i + 1) 0 (data @ take 16384 x) ep2
         else if silence + 1 > 30 then Some (Ok data, ep2) else download pf (epoll os) clock (i + 1) (silence + 1)
             data ep2)"
      using 1(1,2) rd by (subst download.simps) (simp add: ep2_def Let_def)
    obtain acks' where n: "conveyed kr n (pn + of_nat (length (passing xs)) + 1) (tl (failing xs))"
        "unat (pn + of_nat (length (passing xs)) + 1) + length (tl (failing xs)) < 2 ^ 32"
        "listening kr n (70 + ((if front xs = [] then s else 0) + 1))
          (pn + of_nat (length (passing xs)) + 1) (ep_conn ep1)"
        "acking ka (acks @ acks') (ep_conn ep1)" "list_all (\<lambda>n. unat n < 2 ^ 32) (acks @ acks')"
        "length (acks @ acks') + length (tl (failing xs)) < 2 ^ 32"
      by (rule hearing_next [OF b a False c1])
    have "peeks (ep_conn ep2) ApplicationData = peeks (ep_conn ep1) ApplicationData"
      by (simp add: ep2_def peeks_def get_space_eqs)
    then have pk: "unat (peeks (ep_conn ep2) ApplicationData) < 2 ^ 32" using p c1 by simp
    have "hearing nw ka kr n eb ((if front xs = [] then s else 0) + 1)
        (pn + of_nat (length (passing xs)) + 1) (tl (failing xs)) ep2"
      unfolding hearing_def
      by (rule exI [of _ w1], rule exI [of _ "acks @ acks'"])
        (use False 1(3,5,8) w1 n acking_stream [OF n(4)] pk in \<open>simp add: ep2_def\<close>)
    from stopped [OF False _ this d] show thesis by (simp add: ep2_def)
  qed
qed

lemma take_drop_rest: "take m x @ drop m x @ ys = x @ ys"
  by (metis append_assoc append_take_drop_id)

lemma failing_shorter: "failing xs \<noteq> [] \<Longrightarrow> length (tl (failing xs)) < length xs"
  using arg_cong [OF passing_failing [of xs], of length] by (cases "failing xs") auto

text \<open>A download that never meets more than 30 packets in a row that fail collects the data of all that pass.\<close>

lemma download_hears:
  fixes pf :: "('t, 'c) platform" and ep :: "('t, epoll_backend \<times> 'o) endpoint"
  assumes l: "lossless os nw home" and peer: "eb_peer eb = Some to" and to: "home to \<noteq> eb_socket eb"
    and k: "keys_match ka kb" and bound: "n + packet_bound ka 1042 \<le> 2048"
    and "hearing nw ka kr n eb s pn xs ep" and "s \<le> 30" and "silence \<le> s" and "patient s xs"
  shows "\<exists>ep'. download pf (epoll os) clock i silence data ep =
     Some (Ok (data @ received_app_data (ep_conn ep) @ passed xs), ep')"
  using assms(6-)
proof (induction "length xs" arbitrary: xs pn s i silence data ep rule: less_induct)
  case less
  let ?x = "received_app_data (ep_conn ep) @ front xs"
  have "s \<le> 50" using less.prems(2) by simp
  then show ?case
  proof (cases rule: download_turn [OF l peer to k bound less.prems(1), of pf clock i silence data, consumes 1,
      case_names ended stopped])
    case (stopped ep2 pn')
    let ?s = "if front xs = [] then s else 0" and ?rest = "tl (failing xs)"
    note p = patient_split [folded front_def, OF less.prems(4) stopped(1)]
    have ih: "\<exists>ep'. download pf (epoll os) clock (i + 1) z dat ep2 =
        Some (Ok (dat @ drop 16384 ?x @ passed ?rest), ep')" if "z \<le> ?s + 1" for z dat
      using less.hyps [OF failing_shorter [OF stopped(1)] stopped(3) _ that p(2), of "i + 1" dat] p(1) stopped(2)
          by simp
    have r: "received_app_data (ep_conn ep) @ passed xs = ?x @ passed ?rest"
        using passed_split [of xs, folded front_def] by simp
    show ?thesis
    proof (cases "?x = []")
      case False
      obtain ep' where "download pf (epoll os) clock (i + 1) 0 (data @ take 16384 ?x) ep2 =
          Some (Ok ((data @ take 16384 ?x) @ drop 16384 ?x @ passed ?rest), ep')" using ih by blast
      then show ?thesis unfolding stopped(4) r using False by (simp only: if_True not_False_eq_True)
          (metis append_assoc append_take_drop_id)
    next
      case True
      then show ?thesis using ih [of "silence + 1" data] less.prems(3) p(1) passed_split [of xs, folded front_def]
          by (auto simp: stopped(4))
    qed
  next
    case (ended ep')
    then show ?thesis by (intro exI [of _ ep'])
  qed
qed

text \<open>
  A download of at most 256 kB gives up behind the packet \<open>k\<close> only when 31 in a row, or those since the start,
  brought no data, and has then collected the data of those up to it that pass. The last premise bounds how
  many packets can have failed since the last one heard: a turn without new data is silent, unless more than
  16384 bytes came in a turn before it.
\<close>

definition gave_up :: "nat \<Rightarrow> nat \<Rightarrow> (bytes \<times> bytes) list \<Rightarrow> bool" where
  "gave_up silence k xs \<longleftrightarrow> 31 \<le> silence + k \<and> passed (take k xs) = [] \<or>
     (\<exists>j. j + 31 \<le> k \<and> passed (drop j (take k xs)) = [])"

definition in_time :: "nat \<Rightarrow> nat \<Rightarrow> bytes \<Rightarrow> (bytes \<times> bytes) list \<Rightarrow> bool" where
  "in_time s silence left xs \<longleftrightarrow> silence \<le> 30 \<and> (left \<noteq> [] \<longrightarrow> silence = 0) \<and>
     length left + length (concat (map fst xs)) \<le> 2 ^ 18 \<and>
     16384 * s + (if left = [] then 0 else length left + 16384) + length (concat (map fst xs)) \<le>
       16384 * silence + 2 ^ 18 + 32768"

lemma in_time_next:
  assumes t: "in_time s silence left xs" and f: "failing xs \<noteq> []"
  defines "x \<equiv> left @ front xs" and "s' \<equiv> if front xs = [] then s else 0"
  shows "s \<le> 50" and "x \<noteq> [] \<Longrightarrow> in_time (s' + 1) 0 (drop 16384 x) (tl (failing xs))"
    and "x = [] \<Longrightarrow> silence + 1 \<le> 30 \<Longrightarrow> in_time (s' + 1) (silence + 1) (drop 16384 x) (tl (failing xs))"
proof -
  have "concat (map fst xs) = front xs @ fst (hd (failing xs)) @ concat (map fst (tl (failing xs)))"
    using passing_failing [of xs] f by (cases "failing xs") (auto simp: front_def dest: arg_cong [where f =
        "\<lambda>xs. concat (map fst xs)"])
  then have len: "length (concat (map fst xs)) = length (front xs) + length (fst (hd (failing xs))) +
      length (concat (map fst (tl (failing xs))))"
    by simp
  show "s \<le> 50" using t by (auto simp: in_time_def)
  show "in_time (s' + 1) 0 (drop 16384 x) (tl (failing xs))" if "x \<noteq> []"
  proof (cases "length x \<le> 16384"; cases "front xs = []")
  qed (use t len that in \<open>auto simp: in_time_def x_def s'_def split: if_splits\<close>)
  show "in_time (s' + 1) (silence + 1) (drop 16384 x) (tl (failing xs))" if "x = []" "silence + 1 \<le> 30"
    using t len that by (auto simp: in_time_def x_def s'_def)
qed

lemma gave_up_next:
  assumes "failing xs \<noteq> []" and "k' < length (tl (failing xs)) \<longrightarrow> gave_up silence' k' (tl (failing xs))"
    and "silence' = 0 \<or> front xs = [] \<and> silence' = silence + 1" 
  defines "k \<equiv> length (passing xs) + 1 + k'"
  shows "k < length xs \<longrightarrow> gave_up silence k xs"
    and "passed (take k xs) = front xs @ passed (take k' (tl (failing xs)))"
proof -
  obtain f where f: "failing xs = f # tl (failing xs)" "\<not> bits_pass (snd f)"
    using assms(1) by (induction xs rule: failing.induct) (auto split: if_splits)
  have pa: "list_all (bits_pass \<circ> snd) (passing xs)" by (induction xs rule: passing.induct) simp_all
  have p: "passed (passing xs) = front xs"
  proof -
    have "filter (bits_pass \<circ> snd) (passing xs) = passing xs" using pa by (simp add: list_all_iff filter_id_conv)
    then show ?thesis by (simp add: passed_def front_def)
  qed
  have xs: "xs = passing xs @ f # tl (failing xs)" using passing_failing [of xs] f(1) by metis
  have tk: "take k xs = passing xs @ f # take k' (tl (failing xs))"
    by (subst xs) (simp add: k_def)
  then show q: "passed (take k xs) = front xs @ passed (take k' (tl (failing xs)))"
    using p f(2) by (simp add: passed_def)
  have len: "length xs = length (passing xs) + 1 + length (tl (failing xs))" by (subst xs) simp
  show "k < length xs \<longrightarrow> gave_up silence k xs"
  proof
    assume "k < length xs"
    then have g: "gave_up silence' k' (tl (failing xs))" using assms(2) len by (simp add: k_def)
    have dr: "drop (length (passing xs) + 1 + j) (take k xs) = drop j (take k' (tl (failing xs)))" for j
      unfolding tk by simp
    show "gave_up silence k xs"
      using g unfolding gave_up_def [of silence']
    proof (elim disjE exE conjE)
      fix j assume "j + 31 \<le> k'" "passed (drop j (take k' (tl (failing xs)))) = []"
      then show ?thesis unfolding gave_up_def using dr [of j]
          by (intro disjI2 exI [of _ "length (passing xs) + 1 + j"]) (simp add: k_def)
    next
      assume a: "31 \<le> silence' + k'" "passed (take k' (tl (failing xs))) = []"
      show ?thesis using assms(3)
      proof
        assume "silence' = 0"
        then show ?thesis unfolding gave_up_def using dr [of 0] a
            by (intro disjI2 exI [of _ "length (passing xs) + 1"]) (simp add: k_def)
      next
        assume "front xs = [] \<and> silence' = silence + 1"
        then show ?thesis unfolding gave_up_def using a q by (intro disjI1) (simp add: k_def)
      qed
    qed
  qed
qed

lemma download_gathers:
  fixes pf :: "('t, 'c) platform" and ep :: "('t, epoll_backend \<times> 'o) endpoint"
  assumes l: "lossless os nw home" and peer: "eb_peer eb = Some to" and to: "home to \<noteq> eb_socket eb"
    and k: "keys_match ka kb" and bound: "n + packet_bound ka 1042 \<le> 2048"
    and "hearing nw ka kr n eb s pn xs ep" and "in_time s silence (received_app_data (ep_conn ep)) xs"
  shows "\<exists>k ep'. download pf (epoll os) clock i silence data ep =
     Some (Ok (data @ received_app_data (ep_conn ep) @ passed (take k xs)), ep') \<and> k \<le> length xs \<and>
     (k < length xs \<longrightarrow> gave_up silence k xs)"
  using assms(6-)
proof (induction "length xs" arbitrary: xs pn s i silence data ep rule: less_induct)
  case less
  let ?x = "received_app_data (ep_conn ep) @ front xs"
  have "s \<le> 50" using less.prems(2) by (auto simp: in_time_def)
  then show ?case
  proof (cases rule: download_turn [OF l peer to k bound less.prems(1), of pf clock i silence data, consumes 1,
      case_names ended stopped])
    case (ended ep')
    then show ?thesis by (intro exI [of _ "length xs"]) simp
  next
    case (stopped ep2 pn')
    let ?rest = "tl (failing xs)"
    note t = in_time_next [OF less.prems(2) stopped(1)]
    note sh = failing_shorter [OF stopped(1)]
    have len: "length xs = length (passing xs) + 1 + length ?rest"
      using stopped(1) arg_cong [OF passing_failing [of xs], of length] by (cases "failing xs") auto
    show ?thesis
    proof (cases "?x = []")
      case False
      obtain k' ep' where ih: "download pf (epoll os) clock (i + 1) 0 (data @ take 16384 ?x) ep2 =
          Some (Ok ((data @ take 16384 ?x) @ drop 16384 ?x @ passed (take k' ?rest)), ep')" "k' \<le> length ?rest"
          "k' < length ?rest \<longrightarrow> gave_up 0 k' ?rest"
        using less.hyps [OF sh stopped(3) t(2) [OF False, folded stopped(2)], of "i + 1" "data @ take 16384 ?x"]
        unfolding stopped(2) by blast
      note g = gave_up_next(1) [OF stopped(1) ih(3) disjI1 [OF refl], of silence] gave_up_next(2)
          [OF stopped(1) ih(3) disjI1 [OF refl]]
      have "data @ received_app_data (ep_conn ep) @ passed (take (length (passing xs) + 1 + k') xs) =
          (data @ take 16384 ?x) @ drop 16384 ?x @ passed (take k' ?rest)"
        unfolding g(2) append_assoc take_drop_rest ..
      moreover have "length (passing xs) + 1 + k' \<le> length xs" using ih(2) len by simp
      ultimately show ?thesis using ih(1) g(1) False unfolding stopped(4)
        by (intro exI [of _ "length (passing xs) + 1 + k'"] exI [of _ ep']) (simp only: if_True not_False_eq_True
            simp_thms)
    next
      case True
      show ?thesis
      proof (cases "silence + 1 > 30")
        case True
        have e: "received_app_data (ep_conn ep) = []" "front xs = []" using \<open>?x = []\<close> by simp_all
        have p: "passed (take (length (passing xs) + 1) xs) = []"
          using gave_up_next(2) [OF stopped(1), of 0 31 30] e by (simp add: gave_up_def passed_def)
        have "gave_up silence (length (passing xs) + 1) xs"
          using True p unfolding gave_up_def by (intro disjI1) simp
        then show ?thesis using True len p e unfolding stopped(4)
          by (intro exI [of _ "length (passing xs) + 1"] exI [of _ ep2]) simp
      next
        case False
        then have z: "silence + 1 \<le> 30" by simp
        obtain k' ep' where ih: "download pf (epoll os) clock (i + 1) (silence + 1) data ep2 =
            Some (Ok (data @ drop 16384 ?x @ passed (take k' ?rest)), ep')" "k' \<le> length ?rest"
            "k' < length ?rest \<longrightarrow> gave_up (silence + 1) k' ?rest"
          using less.hyps [OF sh stopped(3) t(3) [OF True z, folded stopped(2)], of "i + 1" data]
          unfolding stopped(2) by blast
        have e: "received_app_data (ep_conn ep) = []" "front xs = []" using True by simp_all
        note g = gave_up_next [OF stopped(1) ih(3) disjI2 [OF conjI [OF e(2) refl]]]
        have q: "passed (take (length (passing xs) + 1 + k') xs) = passed (take k' ?rest)"
          using g(2) e(2) by simp
        show ?thesis using ih(1,2) g(1) False len e q unfolding stopped(4)
          by (intro exI [of _ "length (passing xs) + 1 + k'"] exI [of _ ep']) simp
      qed
    qed
  qed
qed

section \<open>The request\<close>

text \<open>The server hears the request, and acknowledges it.\<close>

lemma request_heard:
  fixes pf :: "('t, 'c) platform"
  assumes l: "lossless os nw home"
    and ep: "ep_backend ep = (eb, w)" "eb_peer eb = Some to" "nw_watch nw w (eb_epoll_fd eb) = Some (eb_socket eb)"
      "length (ep_recv_buf ep) = 2048" "length (ep_send_buf ep) = 2048"
    and m: "nw_mail nw w (eb_socket eb) = [(q, src)]" "length q \<le> 2048"
    and q: "carries kr n pn off line q" "bits_pass q" "unat pn + 1 < 2 ^ 32"
    and s: "serving ks (ep_conn ep)" "listening kr n 70 pn (ep_conn ep)" "received_app_data (ep_conn ep) = []"
    and line: "line \<noteq> []" "length line \<le> 1024"
    and k: "keys_match ks kb" and size: "unat (peeks (ep_conn ep) ApplicationData) < 2 ^ 32"
        "n + packet_bound ks 1042 \<le> 2048"
    and to: "home to \<noteq> eb_socket eb"
  obtains ep' w' a src' s2 where "await_request pf (epoll os) clock 0 ep = Some (Ok (Some (request_text line)), ep')"
    and "ep_backend ep' = (eb, w')" and "egest 2048 (snd (ingest pf (clock 0) q (ep_conn ep))) = (Ok a, s2)"
    and "ep_conn ep' = snd (recv_data 2048 s2)" and "serving ks (ep_conn ep')"
    and "bears kb n (peeks (ep_conn ep) ApplicationData) [ack_frame [pn]] a" and "length a \<le> 2048"
    and "peeks (ep_conn ep') ApplicationData = peeks (ep_conn ep) ApplicationData + 1"
    and "stream_send_offset (ep_conn ep') = stream_send_offset (ep_conn ep)"
        and "dst_cid (ep_conn ep') = dst_cid (ep_conn ep)"
    and "nw_watch nw w' = nw_watch nw w" and "nw_mail nw w' (home to) = nw_mail nw w (home to) @ [(a, src')]"
proof -
  let ?s = "ep_conn ep"
  define s1 where "s1 = heard (clock 0) pn line ?s"
  have i: "ingest pf (clock 0) q ?s = (Ok (length q), s1)"
    using carried_ingest [OF s(2) _ q(1), of pf "clock 0"] q(2,3) by (simp add: s1_def)
  have a: "acking ks [pn] s1"
    using acking_stream [OF acking_heard [of ks "[]" ?s pn "clock 0"]] s(1)
        by (simp add: acking_none s1_def receive_stream_def)
  have f: "peeks s1 = peeks ?s" "dst_cid s1 = dst_cid ?s" "received_app_data s1 = line"
      "stream_send_offset s1 = stream_send_offset ?s"
    "pending_app_data s1 = []"
    using hear_all_rest [of "clock 0" pn "[line]" ?s] s(1,3)
    by (simp_all add: s1_def) (simp_all add: receive_stream_def space_mut_def serving_def)
  have n: "length (dst_cid s1) = n" using s(2) by (simp add: f listening_def)
  obtain w1 where p: "be_poll (epoll os) 100 (eb, w) = (Inr True, eb, w1)" and same1: "nw_same nw {} w w1"
    using lossless.poll_mail [OF l ep(3), of 100] m(1) by auto
  have v: "conveyed kr n pn [(line, q)]" using q(1) m(2) by (auto simp: conveys_def)
  have mail1: "map fst (nw_mail nw w1 (eb_socket eb)) = map snd [(line, q)]" using m(1) same1 by (simp add: nw_same_def)
  obtain ep0 w2 where r: "recv_loop pf (epoll os) (clock 0) (ep\<lparr>ep_backend := (eb, w1)\<rparr>) = Some (Ok (), ep0)"
      "ep_backend ep0 = (eb, w2)" "length (ep_send_buf ep0) = 2048" "ep_conn ep0 = s1" "nw_same nw {eb_socket eb} w1 w2"
    using receive_mail [OF l _ ep(2) _ mail1 v, of "ep\<lparr>ep_backend := (eb, w1)\<rparr>" 70 pf "clock 0"] ep(4,5) s(2) q(2,3)
    by (auto simp: s1_def)
  obtain w3 p src' buf where fl: "flush_egress (epoll os) ep0 =
      Some (Ok (), ep0\<lparr>ep_conn := sent ApplicationData Established (ep_conn ep0),
        ep_send_buf := buf, ep_backend := (eb, w3)\<rparr>)" "sent_packet ApplicationData (ep_conn ep0) = Ok p"
      "bears kb (length (dst_cid (ep_conn ep0))) (peeks (ep_conn ep0) ApplicationData) [ack_frame [pn]] p"
        "length p \<le> 2048"
      "nw_same nw {home to} w2 w3" "nw_mail nw w3 (home to) = nw_mail nw w2 (home to) @ [(p, src')]"
    by (rule flush_acks [OF l r(2) ep(2) r(3), of ks "[pn]" kb]) (use a k size q(3) n f r(4) in simp_all)
  define ep1 where "ep1 = ep0\<lparr>ep_conn := sent ApplicationData Established s1, ep_send_buf := buf, ep_backend :=
      (eb, w3)\<rparr>"
  have st: "step pf (epoll os) (clock 0) 100 ep = Some (Ok True, ep1)" "ep_backend ep1 = (eb, w3)"
      "sent_packet ApplicationData s1 = Ok p" "ep_conn ep1 = sent ApplicationData Established s1"
      "bears kb (length (dst_cid s1)) (peeks s1 ApplicationData) [ack_frame [pn]] p" "length p \<le> 2048"
      "nw_watch nw w3 = nw_watch nw w" "nw_mail nw w3 (home to) = nw_mail nw w (home to) @ [(p, src')]"
    using p ep(1) r fl same1 to by (simp_all add: step_def Let_def ep1_def nw_same_def)
  define s2 where "s2 = sent ApplicationData Established s1"
  have c1: "conn_ok s1" "state s1 = Established" "next_to_send s1 = Some ApplicationData"
    using a acking_parts(3) [OF a] by (simp_all add: acking_def)
  have e: "egest 2048 s1 = (Ok p, s2)" using c1 st(3,6) by (simp add: egest_eq s2_def)
  have r: "recv_data 2048 s2 = (line, s2\<lparr>received_app_data := []\<rparr>)"
    using line f by (simp add: s2_def recv_data_def)
  define ep' where "ep' = ep1\<lparr>ep_conn := s2\<lparr>received_app_data := []\<rparr>\<rparr>"
  have w: "await_request pf (epoll os) clock 0 ep = Some (Ok (Some (request_text line)), ep')"
    using st(1,4) r line(1) by (subst await_request.simps) (simp add: s2_def [symmetric] ep'_def Let_def)
  have sv: "serving ks (s2\<lparr>received_app_data := []\<rparr>)"
    using acking_stream [of ks "[]" s2] acking_sent [OF a] by (simp add: acking_none s2_def)
  have "peeks s2 ApplicationData = peeks ?s ApplicationData + 1"
      by (simp add: s2_def peeks_def sent_space f(1) [unfolded peeks_def, THEN fun_cong])
  then have "peeks (s2\<lparr>received_app_data := []\<rparr>) ApplicationData = peeks ?s ApplicationData + 1"
    by (simp add: peeks_def get_space_def)
  moreover have "stream_send_offset s2 = stream_send_offset ?s"
    using f by (simp add: s2_def sent_out stream_part_def)
  ultimately show thesis
    using that [OF w, of w3 p s2 src'] st e r sv n i by (simp add: ep'_def f s2_def)
qed

text \<open>A server that hears nothing gives up after 51 turns.\<close>

lemma await_idle:
  assumes l: "lossless os nw home"
    and "ep_backend ep = (eb, w)" and "nw_watch nw w (eb_epoll_fd eb) = Some (eb_socket eb)"
        and "nw_mail nw w (eb_socket eb) = []"
    and "serving ka (ep_conn ep)" and "received_app_data (ep_conn ep) = []"
  shows "\<exists>ep' w'. await_request pf (epoll os) clock idle ep = Some (Ok None, ep') \<and> ep_backend ep' = (eb, w') \<and>
      nw_same nw {} w w'"
  using assms(2-)
proof (induction "51 - idle" arbitrary: idle ep w rule: less_induct)
  case less
  obtain w1 where st: "step pf (epoll os) (clock idle) 100 ep = Some (Ok False, ep\<lparr>ep_backend := (eb, w1)\<rparr>)"
      "nw_same nw {} w w1"
    by (rule step_idle [OF l less.prems(1-4)])
  have r: "recv_data 2048 (ep_conn ep) = ([], ep_conn ep)" using less.prems(5) by (simp add: recv_data_def)
  have d: "await_request pf (epoll os) clock idle ep = (if idle + 1 > 50 then Some (Ok None, ep\<lparr>ep_backend := (eb, w1)\<rparr>)
      else await_request pf (epoll os) clock (idle + 1) (ep\<lparr>ep_backend := (eb, w1)\<rparr>))"
    using st(1) r by (subst await_request.simps) (simp add: Let_def)
  show ?case
  proof (cases "idle + 1 > 50")
    case True
    then show ?thesis using d st(2) by (intro exI [of _ "ep\<lparr>ep_backend := (eb, w1)\<rparr>"] exI [of _ w1]) simp
  next
    case False
    then have "51 - (idle + 1) < 51 - idle" by simp
    then obtain ep' w' where "await_request pf (epoll os) clock (idle + 1) (ep\<lparr>ep_backend := (eb, w1)\<rparr>) =
        Some (Ok None, ep')"
        "ep_backend ep' = (eb, w')" "nw_same nw {} w1 w'"
      using less.hyps [of "idle + 1" "ep\<lparr>ep_backend := (eb, w1)\<rparr>" w1] less.prems st(2) by (auto simp: nw_same_def)
    then show ?thesis using d False st(2) by (intro exI [of _ ep'] exI [of _ w']) (auto simp: nw_same_def)
  qed
qed

text \<open>A server that rejects the request drops it, and gives up as well.\<close>

lemma request_rejected:
  fixes pf :: "('t, 'c) platform" and ep :: "('t, epoll_backend \<times> 'o) endpoint"
  assumes l: "lossless os nw home"
    and ep: "ep_backend ep = (eb, w)" "eb_peer eb = Some to" "nw_watch nw w (eb_epoll_fd eb) = Some (eb_socket eb)"
      "length (ep_recv_buf ep) = 2048" "length (ep_send_buf ep) = 2048"
    and m: "nw_mail nw w (eb_socket eb) = [(q, src)]" "length q \<le> 2048"
    and q: "carries kr n pn off line q" "\<not> bits_pass q" "unat pn + 1 < 2 ^ 32"
    and s: "serving ks (ep_conn ep)" "listening kr n 70 pn (ep_conn ep)" "received_app_data (ep_conn ep) = []"
    and k: "keys_match ks kb" and to: "home to \<noteq> eb_socket eb"
    and size: "unat (peeks (ep_conn ep) ApplicationData) < 2 ^ 32" "n + packet_bound ks 1042 \<le> 2048"
  shows "\<exists>ep' w'. await_request pf (epoll os) clock 0 ep = Some (Ok None, ep') \<and> ep_backend ep' = (eb, w') \<and>
     nw_watch nw w' = nw_watch nw w \<and> (\<forall>j. j \<noteq> eb_socket eb \<longrightarrow> nw_mail nw w' j = nw_mail nw w j)"
proof -
  have v: "conveyed kr n pn [(line, q)]" using q(1) m(2) by (auto simp: conveys_def)
  have mail: "map fst (nw_mail nw w (eb_socket eb)) = map snd [(line, q)]" using m(1) by simp
  obtain r ep1 w1 where 1: "step pf (epoll os) (clock 0) 100 ep = Some (r, ep1)" "r \<noteq> Inl Panic"
      "ep_backend ep1 = (eb, w1)"
      "nw_mail nw w1 (eb_socket eb) = []" "ep_conn ep1 = ep_conn ep" "nw_same nw {eb_socket eb} w w1"
    by (rule mail_turn [OF l ep mail v s(2), of ks "[]" kb pf "clock 0" 100]) (use s(1) q k to size in \<open>auto simp:
        acking_none\<close>)
  have "recv_data 2048 (ep_conn ep1) = ([], ep_conn ep1)" using s(3) 1(5) by (simp add: recv_data_def)
  then have "await_request pf (epoll os) clock 0 ep = await_request pf (epoll os) clock 1 ep1"
    using 1(1,2) by (subst await_request.simps) (simp add: Let_def)
  moreover have "nw_watch nw w1 (eb_epoll_fd eb) = Some (eb_socket eb)" using ep(3) 1(6) by (simp add: nw_same_def)
  from await_idle [OF l 1(3) this 1(4), of ks pf clock 1] s(1,3) 1(5) obtain ep' w' where
    "await_request pf (epoll os) clock 1 ep1 = Some (Ok None, ep')" "ep_backend ep' = (eb, w')"
      "nw_same nw {} w1 w'" by auto
  ultimately show ?thesis using 1(6) by (intro exI [of _ ep'] exI [of _ w']) (auto simp: nw_same_def)
qed

lemma egest_fits: "egest cap c = (Ok p, c') \<Longrightarrow> length p \<le> cap"
  by (auto simp: egest_def seqA_def returnA_def simp del: egest_spaces.simps split: prod.splits sum.splits
      option.splits if_splits)

lemma chunk_packets_fit: "list_all (\<lambda>p. length p \<le> 2048) (chunk_packets ds c)"
  by (induction ds c rule: chunk_packets.induct) (auto dest: egest_fits split: prod.splits sum.splits)

lemma packets_carry_nonempty: "packets_carry kb n pn off ds ps \<Longrightarrow> list_all (\<lambda>p. p \<noteq> []) ps"
  by (induction ds arbitrary: pn off ps) (auto simp: carries_def bears_def)

lemma listening_egest:
  assumes "conn_ok c" and "state c = Established"
  shows "listening kb n g pn (snd (egest cap (send_data d c))) = listening kb n g pn c"
    and "received_app_data (snd (egest cap (send_data d c))) = received_app_data c"
proof -
  have k: "conn_ok (send_data d c)" using conn_ok_call [OF assms(1), of undefined "SendData d"] by simp
  have s: "remote_keys (appdata_space (sent i st c)) = remote_keys (appdata_space c)"
      "largest_recv_pn (appdata_space (sent i st c)) = largest_recv_pn (appdata_space c)" for i st and c :: "'a conn"
    by (simp_all add: get_sent space_defs get_space_eqs(3) [symmetric])
  have r: "received_app_data (send_data d c) = received_app_data c" by (simp add: send_data_def)
  show "listening kb n g pn (snd (egest cap (send_data d c))) = listening kb n g pn c"
    using assms(2) by (simp add: egest_eq [OF k] listening_def s done_part_def split: option.split)
  show "received_app_data (snd (egest cap (send_data d c))) = received_app_data c"
    using assms(2) r by (simp add: egest_eq [OF k] split: option.split)
qed

section \<open>The two programs\<close>

lemma request_sent:
  fixes ep :: "('t, epoll_backend \<times> 'o) endpoint"
  assumes l: "lossless os nw home"
    and ep: "ep_backend ep = (eb, w)" "eb_peer eb = Some to"
    and c: "serving ka (ep_conn ep)" and k: "keys_match ka kb" and d: "line \<noteq> []" "length line \<le> 1024"
    and size: "unat (peeks (ep_conn ep) ApplicationData) < 2 ^ 32" "unat (stream_send_offset (ep_conn ep)) < 2 ^ 62"
      "length (dst_cid (ep_conn ep)) + packet_bound ka 1042 \<le> 2048"
  obtains c1 :: "'t conn" and w1 q src where "send_and_pump (epoll os) line ep =
      Some (Ok (), ep\<lparr>ep_conn := c1, ep_backend := (eb, w1)\<rparr>)"
    and "c1 = snd (egest 2048 (send_data line (ep_conn ep)))" and "chunk_packets [line] (ep_conn ep) = [q]"
        and "length q \<le> 2048"
    and "carries kb (length (dst_cid (ep_conn ep))) (peeks (ep_conn ep) ApplicationData)
        (stream_send_offset (ep_conn ep)) line q"
    and "serving ka c1" and "peeks c1 ApplicationData = peeks (ep_conn ep) ApplicationData + 1"
        and "dst_cid c1 = dst_cid (ep_conn ep)"
    and "nw_same nw {home to} w w1" and "nw_mail nw w1 (home to) = nw_mail nw w (home to) @ [(q, src)]"
proof -
  obtain q c1 where s: "egest 2048 (send_data line (ep_conn ep)) = (Ok q, c1)"
      "send_and_pump (epoll os) line ep = Some (Ok (), ep\<lparr>ep_conn := c1, ep_backend :=
        snd (be_send (epoll os) q (ep_backend ep))\<rparr>)"
      "carries kb (length (dst_cid (ep_conn ep))) (peeks (ep_conn ep) ApplicationData)
        (stream_send_offset (ep_conn ep)) line q"
      "serving ka c1" "peeks c1 ApplicationData = peeks (ep_conn ep) ApplicationData + 1"
        "dst_cid c1 = dst_cid (ep_conn ep)"
    using chunk_sent [OF c k d size, of "epoll os"] by blast
  obtain w1 ms where o: "after_sends (epoll os) [q] (eb, w) = (eb, w1)" "nw_same nw {home to} w w1"
      "nw_mail nw w1 (home to) = nw_mail nw w (home to) @ ms" "map fst ms = [q]"
    using lossless.sends_all [OF l ep(2), of "[q]" w] by metis
  obtain src where "ms = [(q, src)]" using o(4) by auto
  then have m: "nw_mail nw w1 (home to) = nw_mail nw w (home to) @ [(q, src)]" using o(3) by simp
  have e: "send_and_pump (epoll os) line ep = Some (Ok (), ep\<lparr>ep_conn := c1, ep_backend := (eb, w1)\<rparr>)"
      using s(2) o(1) ep(1) by simp
  have q: "chunk_packets [line] (ep_conn ep) = [q]" "c1 = snd (egest 2048 (send_data line (ep_conn ep)))"
      by (simp_all add: s(1))
  from that [OF e q(2,1) egest_fits [OF s(1)] s(3-6) o(2) m] show thesis .
qed

text \<open>The packets of the reply: the acknowledgement of the request \<open>q\<close>, then the file.\<close>

definition reply_packets :: "('t, 'c) platform \<Rightarrow> nat \<Rightarrow> bytes \<Rightarrow> bytes \<Rightarrow> 't conn \<Rightarrow> bytes list" where
  "reply_packets pf now q data s = (case egest 2048 (snd (ingest pf now q s)) of
       (Inl e, s) \<Rightarrow> []
     | (Inr a, s) \<Rightarrow> a # chunk_packets (chunks 1024 data) (snd (recv_data 2048 s)))"

lemma request_answered:
  fixes pf :: "('t, 'c) platform" and ep :: "('t, epoll_backend \<times> 'o) endpoint"
  assumes l: "lossless os nw home"
    and ep: "ep_backend ep = (eb, w)" "eb_peer eb = Some to" "nw_watch nw w (eb_epoll_fd eb) = Some (eb_socket eb)"
      "length (ep_recv_buf ep) = 2048" "length (ep_send_buf ep) = 2048"
    and m: "nw_mail nw w (eb_socket eb) = [(q, src)]" "length q \<le> 2048"
    and q: "carries kr n pn off line q" "bits_pass q" "unat pn + 1 < 2 ^ 32"
    and s: "serving ks (ep_conn ep)" "listening kr n 70 pn (ep_conn ep)" "received_app_data (ep_conn ep) = []"
    and line: "line \<noteq> []" "length line \<le> 1024"
    and k: "keys_match ks kb" and to: "home to \<noteq> eb_socket eb"
    and size: "unat (peeks (ep_conn ep) ApplicationData) + 1 + length (chunks 1024 data) < 2 ^ 32"
      "unat (stream_send_offset (ep_conn ep)) + length data < 2 ^ 62" "n + packet_bound ks 1042 \<le> 2048"
    and h: "h_log h log (LogRequest (request_text line) (file_path docroot (request_text line))) v = (Inr (), v1)"
      "h_read h (file_path docroot (request_text line)) v1 = (Inr data, v2)"
        "h_log h log (LogServing (length data)) v2 = (Inr (), v3)"
  obtains ep1 ep2 w2 a ps out where "await_request pf (epoll os) clock 0 ep = Some (Ok (Some (request_text line)), ep1)"
    and "answer_request (epoll os) h docroot log (request_text line) (ep1, v) = Some (Ok (), ep2, v3)"
    and "ep_backend ep2 = (eb, w2)" and "serving ks (ep_conn ep2)" and "nw_watch nw w2 = nw_watch nw w"
    and "nw_mail nw w2 (home to) = nw_mail nw w (home to) @ out" and "map fst out = a # ps"
    and "reply_packets pf (clock 0) q data (ep_conn ep) = a # ps" and "list_all (\<lambda>p. length p \<le> 2048) (a # ps)"
    and "bears kb n (peeks (ep_conn ep) ApplicationData) [ack_frame [pn]] a"
    and "packets_carry kb n (peeks (ep_conn ep) ApplicationData + 1) (stream_send_offset (ep_conn ep))
        (chunks 1024 data) ps"
proof -
  have n: "length (dst_cid (ep_conn ep)) = n" using s(2) by (simp add: listening_def)
  have small: "unat (peeks (ep_conn ep) ApplicationData) < 2 ^ 32" using size(1) by simp
  obtain ep1 w1 a src' s2 where 1: "await_request pf (epoll os) clock 0 ep = Some (Ok (Some (request_text line)), ep1)"
      "ep_backend ep1 = (eb, w1)" "egest 2048 (snd (ingest pf (clock 0) q (ep_conn ep))) = (Ok a, s2)"
      "ep_conn ep1 = snd (recv_data 2048 s2)" "serving ks (ep_conn ep1)"
      "bears kb n (peeks (ep_conn ep) ApplicationData) [ack_frame [pn]] a" "length a \<le> 2048"
      "peeks (ep_conn ep1) ApplicationData = peeks (ep_conn ep) ApplicationData + 1"
      "stream_send_offset (ep_conn ep1) = stream_send_offset (ep_conn ep)"
        "dst_cid (ep_conn ep1) = dst_cid (ep_conn ep)"
      "nw_watch nw w1 = nw_watch nw w" "nw_mail nw w1 (home to) = nw_mail nw w (home to) @ [(a, src')]"
    by (rule request_heard [OF l ep m q s line k small size(3) to, where pf = pf and clock = clock])
  have u: "unat (peeks (ep_conn ep1) ApplicationData) = unat (peeks (ep_conn ep) ApplicationData) + 1"
    unfolding 1(8) using size(1) by (simp add: unat_word_ariths)
  have z: "unat (peeks (ep_conn ep1) ApplicationData) + length (chunks 1024 data) < 2 ^ 32"
    "unat (stream_send_offset (ep_conn ep1)) + length data < 2 ^ 62"
      "length (dst_cid (ep_conn ep1)) + packet_bound ks 1042 \<le> 2048"
    using size u 1(9,10) n by simp_all
  obtain ep2 ps where 2: "answer_request (epoll os) h docroot log (request_text line) (ep1, v) = Some (Ok (), ep2, v3)"
      "ep_backend ep2 = after_sends (epoll os) ps (ep_backend ep1)"
        "ps = chunk_packets (chunks 1024 data) (ep_conn ep1)"
      "packets_carry kb n (peeks (ep_conn ep) ApplicationData + 1) (stream_send_offset (ep_conn ep))
        (chunks 1024 data) ps"
      "serving ks (ep_conn ep2)"
    using request_served [OF 1(5) k h z, of "epoll os"] unfolding 1(8-10) n by blast
  obtain w2 ms where o: "after_sends (epoll os) ps (eb, w1) = (eb, w2)" "nw_same nw {home to} w1 w2"
      "nw_mail nw w2 (home to) = nw_mail nw w1 (home to) @ ms" "map fst ms = ps"
    using lossless.sends_all [OF l ep(2), of ps w1] by metis
  have b: "ep_backend ep2 = (eb, w2)" "nw_watch nw w2 = nw_watch nw w" using 2(2) 1(2,11) o(1,2)
      by (simp_all add: nw_same_def)
  have mail: "nw_mail nw w2 (home to) = nw_mail nw w (home to) @ (a, src') # ms" "map fst ((a, src') # ms) = a # ps"
    using o(3,4) 1(12) by simp_all
  have r: "reply_packets pf (clock 0) q data (ep_conn ep) = a # ps" using 1(3,4) 2(3) by (simp add: reply_packets_def)
  have f: "list_all (\<lambda>p. length p \<le> 2048) (a # ps)" using chunk_packets_fit 1(7) 2(3) by simp
  from that [OF 1(1) 2(1) b(1) 2(5) b(2) mail r f 1(6) 2(4)] show thesis .
qed

end
