(* ===== verification/Interop_Props.thy ===== *)
theory Interop_Props
  imports Interop_Proofs Network_Props Runtime_Props
begin

text \<open>
  The properties of the interop program.
\<close>

section \<open>A concrete host\<close>

text \<open>No variables are set, every file has 1500 bytes, and writing works.\<close>

definition toy_host :: "(nat, unit) host" where
  "toy_host = \<lparr>h_var = (\<lambda>v w. None), h_read = (\<lambda>p w. (Inr (replicate 1500 7), w)), h_create = (\<lambda>p w. (Inr 0, w)),
     h_log = (\<lambda>l x w. (Inr (), w)), h_write = (\<lambda>p d w. (Inr (), w)), h_create_parents = (\<lambda>p w. w),
     h_server_config = (\<lambda>c k. Some 0)\<rparr>"

section \<open>Requests\<close>

text \<open>
  C27: the path of a request. For each URL of \<open>REQUESTS\<close>, what the server reads out of the request line
  that the client sends is the path behind the third slash of the URL, byte for byte, and the file it
  opens is this path behind the document root. Nothing is normalised: with \<open>..\<close> in the path the file
  lies outside the document root.
\<close>

theorem requested_file:
  assumes "utf8_valid requests" and "url \<in> set (split_whitespace requests)"
  shows "file_path docroot (request_text (request_line (url_path url))) = docroot @ ascii ''/'' @ url_path url"
  using request_line_read url_path_ok split_whitespace_ok [OF assms] by (simp add: file_path_def)

theorem requested_file_witness:
  "file_path (ascii ''/www'') (request_text (request_line (url_path (ascii ''https://server/../etc/passwd'')))) =
     ascii ''/www/../etc/passwd''"
proof -
  let ?u = "ascii ''https://server/../etc/passwd''"
  have u: "utf8_valid ?u" by code_simp
  have s: "?u \<in> set (split_whitespace ?u)" by code_simp
  have p: "ascii ''/www'' @ ascii ''/'' @ url_path ?u = ascii ''/www/../etc/passwd''" by code_simp
  show ?thesis using requested_file [OF u s, of "ascii ''/www''"] unfolding p .
qed

text \<open>
  C26: a file is served whole. When the log and the file can be written and read, a server that is
  established with nothing to send answers a request with one packet per 1024 bytes of the file, in
  order, whatever the network does with them: packet numbers and stream offsets are consecutive, and
  each packet opens under the peer's keys to exactly its piece of the file. The pieces make up the file.
  The largest packet must fit the buffer of 2048 bytes.
\<close>

theorem file_served:
  assumes "conn_ok (ep_conn ep)" and "state (ep_conn ep) = Established" and "next_to_send (ep_conn ep) = None"
    and "pending_app_data (ep_conn ep) = []" and "local_keys (appdata_space (ep_conn ep)) = Some ka"
        and "keys_match ka kb"
    and "h_log h log (LogRequest req (file_path docroot req)) w = (Inr (), w1)"
    and "h_read h (file_path docroot req) w1 = (Inr data, w2)" and "h_log h log (LogServing (length data)) w2 =
        (Inr (), w3)"
    and "unat (peeks (ep_conn ep) ApplicationData) + length (chunks 1024 data) < 2 ^ 32"
    and "unat (stream_send_offset (ep_conn ep)) + length data < 2 ^ 62"
    and "length (dst_cid (ep_conn ep)) + packet_bound ka 1042 \<le> 2048"
  shows "\<exists>ep' ps. answer_request B h docroot log req (ep, w) = Some (Ok (), ep', w3) \<and>
     ep_backend ep' = after_sends B ps (ep_backend ep) \<and>
     packets_carry kb (length (dst_cid (ep_conn ep))) (peeks (ep_conn ep) ApplicationData)
       (stream_send_offset (ep_conn ep)) (chunks 1024 data) ps \<and>
     concat (chunks 1024 data) = data"
proof -
  have "serving ka (ep_conn ep)" using assms(1-5) by (simp add: serving_def)
  from request_served [OF this assms(6-12), of B] show ?thesis using chunks_concat [of 1024 data] by auto
qed

theorem file_served_witness:
  "\<exists>ep' ps. answer_request toy_backend toy_host (ascii ''/www'') 0 (ascii ''GET /a'') (toy_endpoint (toy_conn [])
    [], ()) =
       Some (Ok (), ep', ()) \<and> length ps = 2 \<and>
     ep_backend ep' = after_sends toy_backend ps ([], [])"
proof -
  have n: "next_to_send (toy_conn []) = None"
    by (simp add: next_to_send_def space_frames_def crypto_part_def ack_part_def done_part_def stream_part_def)
  have c: "chunks 1024 (replicate 1500 (7 :: u8)) = [replicate 1024 7, replicate 476 7]"
    by (simp add: chunks.simps)
  have h: "h_log toy_host l x () = (Inr (), ())" "h_read toy_host p () = (Inr (replicate 1500 7), ())" for l x p
    by (simp_all add: toy_host_def)
  let ?ep = "toy_endpoint (toy_conn []) []" and ?docroot = "ascii ''/www''" and ?req = "ascii ''GET /a''"
  have k: "local_keys (appdata_space (ep_conn ?ep)) = Some toy_dir_keys" by simp
  have "state (ep_conn ?ep) = Established" "pending_app_data (ep_conn ?ep) = []" by simp_all
  moreover have "unat (peeks (ep_conn ?ep) ApplicationData) + length (chunks 1024 (replicate 1500 (7 :: u8))) < 2 ^ 32"
    "unat (stream_send_offset (ep_conn ?ep)) + length (replicate 1500 (7 :: u8)) < 2 ^ 62"
    "length (dst_cid (ep_conn ?ep)) + packet_bound toy_dir_keys 1042 \<le> 2048"
    by (simp_all add: c peeks_def packet_bound_def)
  moreover have "conn_ok (ep_conn ?ep)" "next_to_send (ep_conn ?ep) = None" using toy_conn_ok [of "[]"] n by simp_all
  ultimately obtain ep' ps where "answer_request toy_backend toy_host ?docroot 0 ?req (?ep, ()) = Some (Ok (), ep', ())"
      "ep_backend ep' = after_sends toy_backend ps (ep_backend ?ep)"
      "packets_carry toy_dir_keys (length (dst_cid (ep_conn ?ep))) (peeks (ep_conn ?ep) ApplicationData)
        (stream_send_offset (ep_conn ?ep)) (chunks 1024 (replicate 1500 7)) ps"
    using file_served [OF _ _ _ _ k toy_match h(1) h(2) h(1), of toy_backend] by blast
  then show ?thesis using packets_carry_length unfolding c
    by (intro exI [of _ ep'] exI [of _ ps]) (force simp del: packets_carry.simps)
qed

text \<open>
  Waiting for a request ends. From a connection that satisfies the invariant, on a backend that
  hands out finitely many datagrams at a time, the server's wait returns, with a request or without one.
\<close>

theorem await_request_ends:
  assumes "drains B" and "conn_ok (ep_conn ep)"
  shows "\<exists>r ep'. await_request pf B clock 0 ep = Some (r, ep') \<and> conn_ok (ep_conn ep')"
  using assms by (rule await_returns)

theorem await_request_ends_witness:
  "\<exists>r ep'. await_request toy_platform toy_backend (\<lambda>i. i) 0 (toy_endpoint (toy_conn []) []) = Some (r, ep')"
  using await_request_ends [OF toy_drains, of "toy_endpoint (toy_conn []) []" toy_platform "\<lambda>i. i"] toy_conn_ok [of
      "[]"]
  by auto

section \<open>The handshake\<close>

text \<open>
  C35: the wait for the handshake does not end on a closed connection. Both programs call \<open>step\<close> until
  the connection is established, dropping its errors and without a bound on the iterations; when the
  peer closes the connection instead, they wait forever.
\<close>

theorem closed_wait_hangs:
  assumes "datagram_backend B" and "state (ep_conn ep) = Closed"
  shows "wait_established pf B clock i ep = None"
  using closed_never_established [OF _ assms(1)] assms(2) by (meson not_None_eq)

theorem closed_wait_hangs_witness:
  "wait_established toy_platform toy_backend (\<lambda>i. i) 0 (toy_endpoint (toy_conn []\<lparr>state := Closed\<rparr>) []) = None"
  by (rule closed_wait_hangs [OF toy.datagram_backend_axioms]) simp

section \<open>Starting\<close>

text \<open>
  The server's address always parses, for every port that the command line can give, so that the
  \<open>unwrap\<close> behind it never panics.
\<close>

theorem server_address_parses:
  "parse_socket_addr (ascii ''[::]:'' @ ascii (decimal (port_arg args))) = Some (replicate 16 0, port_arg args)"
proof -
  have "port_arg args < 65536"
    by (auto simp: port_arg_def parse_u16_def Let_def split: option.splits if_splits simp: bind_eq_Some_conv)
  then show ?thesis by (rule bind_addr_parses)
qed

text \<open>
  C36: the client takes no host names. Unless the host begins with a digit or a bracket, as an address
  does, the client ends with \<open>InvalidInput\<close> before it opens a file or a socket. This holds of \<open>server\<close>,
  which is the host it takes when none is given, and which \<open>interop/run_endpoint.sh\<close> passes.
\<close>

theorem client_host_unresolved:
  assumes "2 \<le> length args" and "args ! 1 = ascii ''client''" and "is_supported (testcase h w)"
    and "host_name = arg_or (ascii ''--host'') (ascii ''server'') args"
    and "host_name = [] \<or> \<not> is_digit (hd host_name) \<and> hd host_name \<noteq> 91"
  shows "interop_main pf os h now clock args (net, w) = Some (Error InvalidInput, net, w)"
proof -
  have c: "args ! 1 \<noteq> ascii ''server''" unfolding assms(2) by code_simp
  have "hd (host_name @ ascii '':'' @ ascii (decimal port)) = (if host_name = [] then 58 else hd host_name)" for port
    by (cases host_name) (simp_all add: ascii_simps)
  then have "parse_socket_addr (host_name @ ascii '':'' @ ascii (decimal port)) = None" for port
    using parse_socket_addr_head [of "host_name @ ascii '':'' @ ascii (decimal port)"] assms(5)
    by (cases "parse_socket_addr (host_name @ ascii '':'' @ ascii (decimal port))") (auto simp: is_digit_def split:
        if_splits)
  then show ?thesis using assms(1,2,3) c by (simp add: interop_main_def run_client_def assms(4) [symmetric])
qed

theorem client_host_unresolved_witness:
  "interop_main toy_platform loopback_os toy_host 0 (\<lambda>k i. i) [ascii ''deerquic-interop'', ascii ''client'']
       (\<lparr>lo_ports = 0, lo_mail = (\<lambda>k. []), lo_watch = []\<rparr>, ()) =
     Some (Error InvalidInput, \<lparr>lo_ports = 0, lo_mail = (\<lambda>k. []), lo_watch = []\<rparr>, ())"
proof -
  let ?args = "[ascii ''deerquic-interop'', ascii ''client'']"
  have h: "ascii ''server'' = arg_or (ascii ''--host'') (ascii ''server'') ?args" by code_simp
  have d: "\<not> is_digit (hd (ascii ''server'')) \<and> hd (ascii ''server'') \<noteq> 91" by code_simp
  have t: "is_supported (testcase toy_host ())" by (simp add: is_supported_def testcase_def toy_host_def)
  show ?thesis by (rule client_host_unresolved [OF _ _ t h disjI2 [OF d]]) simp_all
qed

text \<open>
  A file is received whole. Packets that carry the pieces of a file, as the server sends them, leave
  at a peer that ingests them in order exactly the bytes of the file behind what it had received -
  provided that the header-protected first byte of each passes for a header (\<open>bits_pass\<close>).
\<close>

theorem file_received:
  assumes "packets_carry kb n pn off (chunks 1024 data) ps" and "listening kb n 120 pn b"
    and "unat pn + length (chunks 1024 data) < 2 ^ 32" and "list_all bits_pass ps"
  shows "\<exists>b'. ingest_all pf now ps b = (Ok (), b') \<and> received_app_data b' = received_app_data b @ data \<and> state b' =
      state b"
  using packets_received [OF assms(1,2) order_refl assms(3,4), of pf now] by (simp add: chunks_concat)

theorem file_received_witness:
  "\<exists>b'. ingest_all toy_platform 0 [toy_packet] (toy_conn []) = (Ok (), b') \<and> received_app_data b' = [32, 1, 2]"
proof -
  have c: "chunks 1024 [32, 1, 2 :: u8] = [[32, 1, 2]]" by (simp add: chunks.simps)
  have sv: "serving toy_dir_keys (toy_conn [])"
    using toy_conn_ok [of "[]"]
    by (simp add: serving_def next_to_send_def space_frames_def crypto_part_def ack_part_def done_part_def
        stream_part_def)
  have a: "send_data [32, 1, 2] (toy_conn []) = toy_conn [32, 1, 2]" by (simp add: send_data_def toy_conn_def)
  have "carries toy_dir_keys 1 0 0 [32, 1, 2] toy_packet"
  proof (rule data_packet [OF sv toy_match, of "[32, 1, 2]"])
    fix pkt
    assume p: "conn_ok (send_data [32, 1, 2] (toy_conn []))" "next_to_send (send_data [32, 1, 2] (toy_conn [])) =
        Some ApplicationData"
      "sent_packet ApplicationData (send_data [32, 1, 2] (toy_conn [])) = Ok pkt" "pkt \<noteq> []"
      and q: "carries toy_dir_keys (length (dst_cid (toy_conn []))) (peeks (toy_conn []) ApplicationData)
        (stream_send_offset (toy_conn [])) [32, 1, 2] pkt"
    from toy_sends have "pkt = toy_packet" using p unfolding a
      by (auto simp: egest_eq toy_packet_def split: if_splits)
    with q show ?thesis by (simp add: peeks_def)
  qed (simp_all add: peeks_def packet_bound_def)
  then have p: "packets_carry toy_dir_keys 1 0 0 (chunks 1024 [32, 1, 2]) [toy_packet]" by (simp add: c)
  have "listening toy_dir_keys 1 120 0 (toy_conn [])" by (simp add: listening_def)
  moreover have "list_all bits_pass [toy_packet]" by (simp add: toy_packet_def bits_pass_def)
  ultimately show ?thesis using file_received [OF p, of "toy_conn []" toy_platform 0] by (auto simp: c)
qed

end
