(* ===== verification/File_Transfer_Props.thy ===== *)
theory File_Transfer_Props
  imports File_Transfer Interop_Props
begin

text \<open>
  The theorem that a download over a lossless network yields the file, and a transfer over the loopback
  network of \<open>Network_Props\<close>.
\<close>

section \<open>Two endpoints\<close>

text \<open>
  \<open>a\<close> sends to \<open>b\<close>: its peer address leads to the socket of \<open>b\<close>; its own socket, another one, is watched
  and empty; its buffers are the ones \<open>endpoint_new\<close> makes.
\<close>

definition connected_to ::
  "'o network \<Rightarrow> (socket_addr \<Rightarrow> nat) \<Rightarrow> 'o \<Rightarrow> ('t, epoll_backend \<times> 'o) endpoint \<Rightarrow> ('u, epoll_backend \<times> 'o) endpoint \<Rightarrow>
    bool" where
  "connected_to nw home w a b \<longleftrightarrow> (let ab = fst (ep_backend a); bb = fst (ep_backend b) in
     (\<exists>to. eb_peer ab = Some to \<and> home to = eb_socket bb) \<and> eb_socket ab \<noteq> eb_socket bb \<and>
     nw_watch nw w (eb_epoll_fd ab) = Some (eb_socket ab) \<and> nw_mail nw w (eb_socket ab) = [] \<and>
     length (ep_recv_buf a) = 2048 \<and> length (ep_send_buf a) = 2048)"

text \<open>
  Connection \<open>a\<close> is established and idle, seals with \<open>ka\<close>, which \<open>b\<close> opens with the matching \<open>kb\<close>; the
  number of its next packet is at most 70 above the largest that \<open>b\<close> heard; the largest packet fits a buffer.
\<close>

definition speaks_to :: "dir_keys \<Rightarrow> dir_keys \<Rightarrow> nat \<Rightarrow> 't conn \<Rightarrow> 'u conn \<Rightarrow> bool" where
  "speaks_to ka kb n a b \<longleftrightarrow> serving ka a \<and> keys_match ka kb \<and> listening kb n 70 (peeks a ApplicationData) b \<and>
     received_app_data a = [] \<and> n + packet_bound ka 1042 \<le> 2048"

lemma request_line_size: "request_line p \<noteq> []" "length (request_line p) = length p + 7"
  by (simp_all add: request_line_def ascii_simps)

lemma in_world_fields:
  "ep_conn (in_world w ep) = ep_conn ep" "ep_recv_buf (in_world w ep) = ep_recv_buf ep"
    "ep_send_buf (in_world w ep) = ep_send_buf ep"
  by (simp_all add: in_world_def)

text \<open>The client sends its request, and it waits at the server's socket.\<close>

lemma request_arrives:
  fixes ce :: "('t, epoll_backend \<times> 'o) endpoint"
  assumes l: "lossless os nw home" and ce: "ep_backend ce = (cb, w)" and wires: "connected_to nw home w ce se"
      "connected_to nw home w se ce"
    and c: "speaks_to kc kc' n (ep_conn ce) (ep_conn se)" and s: "speaks_to ks ks' n (ep_conn se) (ep_conn ce)"
    and line: "line \<noteq> []" "length line \<le> 1024"
    and size: "unat (peeks (ep_conn ce) ApplicationData) < 2 ^ 32" "unat (stream_send_offset (ep_conn ce)) < 2 ^ 62"
    and q: "chunk_packets [line] (ep_conn ce) = [q]"
  obtains c1 :: "'t conn" and w1 src where "send_and_pump (epoll os) line ce =
      Some (Ok (), ce\<lparr>ep_conn := c1, ep_backend := (cb, w1)\<rparr>)"
    and "serving kc c1" and "listening ks' n 70 (peeks (ep_conn se) ApplicationData) c1" and "received_app_data c1 = []"
    and "length q \<le> 2048" and "carries kc' n (peeks (ep_conn ce) ApplicationData) (stream_send_offset (ep_conn ce))
        line q"
    and "peeks c1 ApplicationData = peeks (ep_conn ce) ApplicationData + 1"
    and "nw_watch nw w1 = nw_watch nw w" and "nw_mail nw w1 (eb_socket (fst (ep_backend se))) = [(q, src)]"
    and "nw_mail nw w1 (eb_socket cb) = []"
proof -
  let ?c = "ep_conn ce"
  obtain to where w: "eb_peer cb = Some to" "home to = eb_socket (fst (ep_backend se))" "eb_socket cb \<noteq> home to"
      "nw_mail nw w (eb_socket cb) = []" "nw_mail nw w (home to) = []"
    using wires ce by (auto simp: connected_to_def Let_def)
  have c: "serving kc ?c" "keys_match kc kc'" "received_app_data ?c = []" "n + packet_bound kc 1042 \<le> 2048"
      "length (dst_cid ?c) = n"
    and s: "listening ks' n 70 (peeks (ep_conn se) ApplicationData) ?c"
    using c s by (simp_all add: speaks_to_def listening_def)
  obtain c1 w1 q' src where 1: "send_and_pump (epoll os) line ce =
      Some (Ok (), ce\<lparr>ep_conn := c1, ep_backend := (cb, w1)\<rparr>)"
      "c1 = snd (egest 2048 (send_data line ?c))" "chunk_packets [line] ?c = [q']" "length q' \<le> 2048"
      "carries kc' (length (dst_cid ?c)) (peeks ?c ApplicationData) (stream_send_offset ?c) line q'"
      "serving kc c1" "peeks c1 ApplicationData = peeks ?c ApplicationData + 1" "dst_cid c1 = dst_cid ?c"
      "nw_same nw {home to} w w1" "nw_mail nw w1 (home to) = nw_mail nw w (home to) @ [(q', src)]"
    by (rule request_sent [OF l ce w(1) c(1,2) line size]) (use c in simp_all)
  have "listening ks' n 70 (peeks (ep_conn se) ApplicationData) c1" "received_app_data c1 = []"
    using c(1,3) s by (simp_all add: 1(2) serving_def listening_egest)
  moreover have "nw_watch nw w1 = nw_watch nw w" "nw_mail nw w1 (eb_socket (fst (ep_backend se))) = [(q, src)]"
      "nw_mail nw w1 (eb_socket cb) = []"
    using 1(3,9,10) q w by (simp_all add: nw_same_def)
  ultimately show thesis using that [OF 1(1,6)] 1(3-5,7) q c(5) by simp
qed

section \<open>A transfer over the loopback network\<close>

definition loopback_backend :: "nat \<Rightarrow> nat \<Rightarrow> epoll_backend" where
  "loopback_backend k peer = \<lparr>eb_socket = k, eb_epoll_fd = int k, eb_peer = Some ([127, 0, 0, 1], peer)\<rparr>"

definition two_sockets :: loopback where
  "two_sockets = \<lparr>lo_ports = 2, lo_mail = (\<lambda>k. []), lo_watch = [(1, 1), (2, 2)]\<rparr>"

definition loopback_end :: "nat \<Rightarrow> nat \<Rightarrow> (nat, epoll_backend \<times> loopback) endpoint" where
  "loopback_end k peer = endpoint_new (toy_conn []) (loopback_backend k peer, two_sockets)"

lemma loopback_end_fields [simp]:
  "ep_conn (loopback_end k peer) = toy_conn []" "ep_backend (loopback_end k peer) = (loopback_backend k peer,
    two_sockets)"
  "length (ep_recv_buf (loopback_end k peer)) = 2048" "length (ep_send_buf (loopback_end k peer)) = 2048"
  by (simp_all add: loopback_end_def endpoint_new_def MAX_DGRAM_def)

lemma loopback_connected:
  "connected_to loopback_view snd two_sockets (loopback_end 1 2) (loopback_end 2 1)"
  "connected_to loopback_view snd two_sockets (loopback_end 2 1) (loopback_end 1 2)"
  by (simp_all add: connected_to_def loopback_backend_def two_sockets_def loopback_view_def)

lemma toy_serving: "serving toy_dir_keys (toy_conn [])"
  using toy_conn_ok [of "[]"]
  by (simp add: serving_def next_to_send_def space_frames_def crypto_part_def ack_part_def done_part_def
      stream_part_def)

lemma toy_speaks: "speaks_to toy_dir_keys toy_dir_keys 1 (toy_conn []) (toy_conn [])"
  using toy_serving toy_match by (simp add: speaks_to_def listening_def peeks_def packet_bound_def)

text \<open>What the masks of the toy keys make of the first bytes of the three packets.\<close>

definition toy_request :: bytes where
  "toy_request = request_line (ascii ''a'')"

lemma toy_luck:
  "case chunk_packets [toy_request] (toy_conn []) of [q] \<Rightarrow> bits_pass q | _ \<Rightarrow> False"
  "case egest 2048 (receive_stream toy_request (space_mut ApplicationData (record_recv_pn 0 0) (toy_conn []))) of
     (Inl e, s) \<Rightarrow> False
   | (Inr a, s) \<Rightarrow> bits_pass a \<and> list_all bits_pass (chunk_packets [[7, 7, 7]] (snd (recv_data 2048 s))) \<and>
       length (chunk_packets [[7, 7, 7]] (snd (recv_data 2048 s))) = 1"
  by code_simp+

lemma toy_request_packet:
  obtains q where "chunk_packets [toy_request] (toy_conn []) = [q]" and "bits_pass q"
    and "list_all bits_pass (reply_packets toy_platform 0 q [7, 7, 7] (toy_conn []))"
    and "length (reply_packets toy_platform 0 q [7, 7, 7] (toy_conn [])) = 2"
proof -
  have d: "toy_request \<noteq> []" "length toy_request \<le> 1024"
      by (simp_all add: toy_request_def request_line_size ascii_simps)
  obtain q c' where q: "egest 2048 (send_data toy_request (toy_conn [])) = (Ok q, c')"
      "carries toy_dir_keys 1 0 0 toy_request q"
    using chunk_sent [of toy_dir_keys "loopback_end 1 2" toy_dir_keys toy_request "epoll loopback_os"] toy_serving
        toy_match d
    by (auto simp: peeks_def packet_bound_def)
  have p: "chunk_packets [toy_request] (toy_conn []) = [q]" by (simp add: q(1))
  have h: "bits_pass q" using toy_luck(1) unfolding p by simp
  have "listening toy_dir_keys 1 70 0 (toy_conn [])" using toy_speaks by (simp add: speaks_to_def peeks_def)
  from carried_ingest [OF this _ q(2), of toy_platform 0] h
  have i: "snd (ingest toy_platform 0 q (toy_conn [])) =
      receive_stream toy_request (space_mut ApplicationData (record_recv_pn 0 0) (toy_conn []))"
    by simp
  have "chunks 1024 [7, 7, 7 :: u8] = [[7, 7, 7]]" by (simp add: chunks.simps)
  then have "list_all bits_pass (reply_packets toy_platform 0 q [7, 7, 7] (toy_conn []))"
    "length (reply_packets toy_platform 0 q [7, 7, 7] (toy_conn [])) = 2"
    using toy_luck(2) unfolding reply_packets_def i by (auto split: prod.splits sum.splits)
  with p h show thesis by (rule that)
qed

section \<open>The transfer\<close>

lemma conveyed_zip:
  "packets_carry kb n pn off ds ps \<Longrightarrow> list_all (\<lambda>p. length p \<le> 2048) ps \<Longrightarrow> conveyed kb n pn (zip ds ps)"
  by (induction ds arbitrary: pn off ps) (auto simp: conveys_def)

lemma passed_all: "list_all bits_pass ps \<Longrightarrow> length ps = length ds \<Longrightarrow> passed (zip ds ps) = concat ds"
  by (induction ds arbitrary: ps) (auto simp: passed_def length_Suc_conv)

lemma patient_all: "list_all (bits_pass \<circ> snd) xs \<Longrightarrow> patient s xs"
  by (induction s xs rule: patient.induct) simp_all

text \<open>The second half of a download: the reply is in the client's mailbox.\<close>

lemma reply_downloaded:
  fixes pf :: "('t, 'c) platform" and ep :: "('t, epoll_backend \<times> 'o) endpoint"
  assumes l: "lossless os nw home"
    and ep: "ep_backend ep = (eb, w)" "eb_peer eb = Some to" "nw_watch nw w (eb_epoll_fd eb) = Some (eb_socket eb)"
      "length (ep_recv_buf ep) = 2048" "length (ep_send_buf ep) = 2048"
    and m: "map fst (nw_mail nw w (eb_socket eb)) = a # ps" "list_all (\<lambda>p. length p \<le> 2048) (a # ps)"
    and p: "bears kr n pn [ack_frame acks] a" "packets_carry kr n (pn + 1) off ds ps" "unat pn + 1 + length ds < 2 ^ 32"
    and c: "serving kc (ep_conn ep)" "listening kr n 70 pn (ep_conn ep)" "received_app_data (ep_conn ep) = []"
    and k: "keys_match kc kb" and to: "home to \<noteq> eb_socket eb"
    and size: "unat (peeks (ep_conn ep) ApplicationData) < 2 ^ 32" "n + packet_bound kc 1042 \<le> 2048"
    and xs: "xs = zip ([] # ds) (a # ps)" and wait: "length (concat ds) \<le> 2 ^ 18 \<or> patient 0 xs"
  shows "\<exists>j ep'. download pf (epoll os) clock 0 0 [] ep = Some (Ok (passed (take j xs)), ep') \<and> j \<le> length xs \<and>
     (patient 0 xs \<longrightarrow> j = length xs) \<and> (j < length xs \<longrightarrow> gave_up 0 j xs)"
proof -
  have n: "length ps = length ds" by (rule packets_carry_length [OF p(2)])
  have "conveyed kr n pn xs" unfolding xs using p(1) m(2) conveyed_zip [OF p(2)] by (auto simp: conveys_def)
  moreover have "acking kc [] (ep_conn ep)" using c(1) by (simp add: acking_none)
  ultimately have h: "hearing nw kc kr n eb 0 pn xs ep"
    unfolding hearing_def by (rule_tac exI [of _ w], rule_tac exI [of _ "[]"]) (use ep m(1) n c p(3) size(1) xs in simp)
  show ?thesis
  proof (cases "patient 0 xs")
    case True
    from download_hears [OF l ep(2) to k size(2) h _ _ this, of 0 pf clock 0 "[]"] c(3) show ?thesis
      by (auto intro: exI [of _ "length xs"])
  next
    case False
    then have "in_time 0 0 (received_app_data (ep_conn ep)) xs"
      using wait c(3) n by (simp add: in_time_def xs)
    from download_gathers [OF l ep(2) to k size(2) h this, of pf clock 0 "[]"] c(3) False show ?thesis by auto
  qed
qed

text \<open>
  C3: what a download yields. Over a network that loses nothing, two endpoints that are established and
  idle run the programs of one download: the client sends the request line for \<open>path\<close> as one packet \<open>q\<close>.
  When the masked bits of \<open>q\<close> pass the header check (\<open>bits_pass\<close>, 3 of 16 masks), the server's wait returns
  exactly this line, the server answers with the file \<open>docroot/path\<close>, and the client's download returns the
  pieces of the file, in order, whose packets are among the first \<open>k\<close> of the reply and pass the check - the
  whole file when all pass. The client gives up before the end of the reply (\<open>k < length reply\<close>) only behind
  31 packets in a row of which none brought a piece, never when at most 30 in a row fail (\<open>patient\<close>). When
  the bits of \<open>q\<close> do not pass, the server gives up without a request and the client ends with an empty file,
  as with success. No step fails, panics or runs forever. Assumed are matching keys, connection IDs of one
  length, a log and a file that can be written and read, packet numbers below 2^32 and offsets below 2^62, and
  a file of at most 256 kB or a reply that is \<open>patient\<close>: while a client still takes what it received earlier,
  16384 bytes a turn, it is not silent, and with megabytes left to take so many packets could fail in a row
  that it no longer decodes the next packet number.
\<close>

theorem file_transferred:
  fixes pf :: "('t, 'c) platform" and pf' :: "('u, 'd) platform"
  assumes "lossless os nw home" and "ep_backend ce = (cb, w)" and "connected_to nw home w ce se"
      and "connected_to nw home w se ce"
    and "speaks_to kc kc' n (ep_conn ce) (ep_conn se)" and "speaks_to ks ks' n (ep_conn se) (ep_conn ce)"
    and "utf8_valid path" and "tight path" and "length path \<le> 1000"
    and "h_log h log (LogRequest (request_text (request_line path)) (docroot @ ascii ''/'' @ path)) v = (Inr (), v1)"
    and "h_read h (docroot @ ascii ''/'' @ path) v1 = (Inr data, v2)"
        and "h_log h log (LogServing (length data)) v2 = (Inr (), v3)"
    and "unat (peeks (ep_conn ce) ApplicationData) + 1 < 2 ^ 32" and "unat (stream_send_offset (ep_conn ce)) < 2 ^ 62"
    and "unat (peeks (ep_conn se) ApplicationData) + 1 + length (chunks 1024 data) < 2 ^ 32"
    and "unat (stream_send_offset (ep_conn se)) + length data < 2 ^ 62"
    and "chunk_packets [request_line path] (ep_conn ce) = [q]"
    and "reply = zip ([] # chunks 1024 data) (reply_packets pf' (clock 0) q data (ep_conn se))"
    and "length data \<le> 2 ^ 18 \<or> patient 0 reply"
  shows "\<exists>ce1. send_and_pump (epoll os) (request_line path) ce = Some (Ok (), ce1) \<and>
     (if bits_pass q then \<exists>se1 se2 ce2 k.
        await_request pf' (epoll os) clock 0 (in_world (snd (ep_backend ce1)) se) =
          Some (Ok (Some (request_text (request_line path))), se1) \<and>
        answer_request (epoll os) h docroot log (request_text (request_line path)) (se1, v) = Some (Ok (), se2, v3) \<and>
        download pf (epoll os) clock' 0 0 [] (in_world (snd (ep_backend se2)) ce1) =
            Some (Ok (passed (take k reply)), ce2) \<and>
        k \<le> length reply \<and> (patient 0 reply \<longrightarrow> k = length reply) \<and>
        (k < length reply \<longrightarrow> (\<exists>j. j + 31 \<le> k \<and> passed (drop j (take k reply)) = [])) \<and>
        (list_all (bits_pass \<circ> snd) reply \<longrightarrow> passed (take k reply) = data)
      else \<exists>se1 ce2.
        await_request pf' (epoll os) clock 0 (in_world (snd (ep_backend ce1)) se) = Some (Ok None, se1) \<and>
        download pf (epoll os) clock' 0 0 [] (in_world (snd (ep_backend se1)) ce1) = Some (Ok [], ce2))"
proof -
  let ?line = "request_line path" and ?c = "ep_conn ce" and ?s = "ep_conn se"
  define sb where "sb = fst (ep_backend se)"
  obtain to to' where w: "eb_peer cb = Some to" "home to = eb_socket sb" "eb_peer sb = Some to'"
      "home to' = eb_socket cb"
      "eb_socket cb \<noteq> eb_socket sb" "nw_watch nw w (eb_epoll_fd cb) = Some (eb_socket cb)"
      "nw_watch nw w (eb_epoll_fd sb) = Some (eb_socket sb)"
    using assms(2-4) by (auto simp: connected_to_def Let_def sb_def)
  have c: "serving kc ?c" "keys_match kc kc'" "listening kc' n 70 (peeks ?c ApplicationData) ?s"
      "received_app_data ?c = []"
      "n + packet_bound kc 1042 \<le> 2048"
    and s: "serving ks ?s" "keys_match ks ks'" "listening ks' n 70 (peeks ?s ApplicationData) ?c"
        "received_app_data ?s = []"
      "n + packet_bound ks 1042 \<le> 2048"
    using assms(5,6) by (simp_all add: speaks_to_def)
  have line: "?line \<noteq> []" "length ?line \<le> 1024" "file_path docroot (request_text ?line) = docroot @ ascii ''/'' @ path"
    using assms(9) request_line_size [of path] request_line_read [OF assms(7,8)] by (simp_all add: file_path_def)
  have z: "unat (peeks ?c ApplicationData) < 2 ^ 32" using assms(13) by simp
  obtain c1 w1 src where 1: "send_and_pump (epoll os) ?line ce =
      Some (Ok (), ce\<lparr>ep_conn := c1, ep_backend := (cb, w1)\<rparr>)"
      "serving kc c1" "listening ks' n 70 (peeks ?s ApplicationData) c1" "received_app_data c1 = []" "length q \<le> 2048"
      "carries kc' n (peeks ?c ApplicationData) (stream_send_offset ?c) ?line q"
      "peeks c1 ApplicationData = peeks ?c ApplicationData + 1"
      "nw_watch nw w1 = nw_watch nw w" "nw_mail nw w1 (eb_socket sb) = [(q, src)]" "nw_mail nw w1 (eb_socket cb) = []"
    by (rule request_arrives [OF assms(1-6) line(1,2) z assms(14,17), folded sb_def])
  define ce1 where "ce1 = ce\<lparr>ep_conn := c1, ep_backend := (cb, w1)\<rparr>"
  have se: "ep_backend (in_world w1 se) = (sb, w1)" by (simp add: in_world_def sb_def)
  note hs = assms(10-12) [folded line(3)]
  have sw: "nw_watch nw w1 (eb_epoll_fd sb) = Some (eb_socket sb)" using 1(8) w(7) by simp
  have sbuf: "length (ep_recv_buf se) = 2048" "length (ep_send_buf se) = 2048"
    using assms(4) by (simp_all add: connected_to_def Let_def)
  have pn: "unat (peeks ?c ApplicationData) + 1 < 2 ^ 32" "unat (peeks ?s ApplicationData) < 2 ^ 32"
      using assms(13,15) by simp_all
  have to': "home to' \<noteq> eb_socket sb" using w by simp
  have pk: "unat (peeks c1 ApplicationData) < 2 ^ 32" unfolding 1(7) using assms(13) by (simp add: unat_word_ariths)
  have ce: "ep_backend (in_world w2 ce1) = (cb, w2)" "ep_conn (in_world w2 ce1) = c1"
    "length (ep_recv_buf (in_world w2 ce1)) = 2048" "length (ep_send_buf (in_world w2 ce1)) = 2048" for w2
    using assms(3) by (simp_all add: in_world_def ce1_def connected_to_def Let_def)
  show ?thesis
  proof (cases "bits_pass q")
    case False
    obtain se1 w2 where 2: "await_request pf' (epoll os) clock 0 (in_world w1 se) = Some (Ok None, se1)"
        "ep_backend se1 = (sb, w2)" "nw_watch nw w2 = nw_watch nw w1" "nw_mail nw w2 (eb_socket cb) = []"
      using request_rejected [OF assms(1) se w(3) sw _ _ 1(9,5,6) False pn(1) _ _ _ s(2) to' _ s(5),
          where pf = pf' and clock = clock, unfolded in_world_fields] sbuf c s pn(2) 1(10) w(5) by auto
    have "nw_watch nw w2 (eb_epoll_fd cb) = Some (eb_socket cb)" using 1(8) 2(3) w(6) by simp
    from download_idle [OF assms(1) ce(1) this 2(4), of kc pf clock' 0 0 "[]"] obtain ce2 where
      "download pf (epoll os) clock' 0 0 [] (in_world w2 ce1) = Some (Ok [], ce2)"
      using 1(2,4) ce(2) [of w2] by auto
    then show ?thesis using 1(1) 2(1,2) False
      by (intro exI [of _ ce1] conjI) (simp_all add: ce1_def)
  next
    case True
    obtain se1 se2 w2 a ps out where 2: "await_request pf' (epoll os) clock 0 (in_world w1 se) =
          Some (Ok (Some (request_text ?line)), se1)"
        "answer_request (epoll os) h docroot log (request_text ?line) (se1, v) = Some (Ok (), se2, v3)"
        "ep_backend se2 = (sb, w2)" "serving ks (ep_conn se2)" "nw_watch nw w2 = nw_watch nw w1"
        "nw_mail nw w2 (home to') = nw_mail nw w1 (home to') @ out" "map fst out = a # ps"
        "reply_packets pf' (clock 0) q data ?s = a # ps" "list_all (\<lambda>p. length p \<le> 2048) (a # ps)"
        "bears ks' n (peeks ?s ApplicationData) [ack_frame [peeks ?c ApplicationData]] a"
        "packets_carry ks' n (peeks ?s ApplicationData + 1) (stream_send_offset ?s) (chunks 1024 data) ps"
      by (rule request_answered [OF assms(1) se w(3) sw _ _ 1(9,5,6) True pn(1) _ _ _ line(1,2) s(2) to' _ _ s(5) hs,
            where pf = pf' and clock = clock, unfolded in_world_fields])
        (use sbuf c s assms(15,16) in simp_all)
    have r: "reply = zip ([] # chunks 1024 data) (a # ps)" using assms(18) 2(8) by simp
    have mail: "map fst (nw_mail nw w2 (eb_socket cb)) = a # ps" using 2(6,7) 1(10) w(4) by simp
    have cw: "nw_watch nw w2 (eb_epoll_fd cb) = Some (eb_socket cb)" using 1(8) 2(5) w(6) by simp
    have wait: "length (concat (chunks 1024 data)) \<le> 2 ^ 18 \<or> patient 0 reply" using assms(19)
        by (simp add: chunks_concat)
    obtain k ce2 where 3: "download pf (epoll os) clock' 0 0 [] (in_world w2 ce1) =
        Some (Ok (passed (take k reply)), ce2)"
        "k \<le> length reply" "patient 0 reply \<longrightarrow> k = length reply" "k < length reply \<longrightarrow> gave_up 0 k reply"
      using reply_downloaded [OF assms(1) ce(1) w(1) cw ce(3,4) mail 2(9-11) assms(15) _ _ _ c(2) _ _ c(5) r wait,
          where pf = pf and clock = clock', unfolded ce(2)] 1(2-4) pk w by auto
    have "\<exists>j. j + 31 \<le> k \<and> passed (drop j (take k reply)) = []" if "k < length reply"
      using 3(4) that by (auto simp: gave_up_def intro: exI [of _ 0])
    moreover have "passed (take k reply) = data" if "list_all (bits_pass \<circ> snd) reply"
    proof -
      have n: "length ps = length (chunks 1024 data)" by (rule packets_carry_length [OF 2(11)])
      then have "map snd reply = a # ps" unfolding r by simp
      then have "list_all bits_pass (a # ps)" using that by (metis list.pred_map)
      then show ?thesis using passed_all [of "a # ps" "[] # chunks 1024 data"] n chunks_concat [of 1024 data]
        3(3) patient_all [OF that, of 0] unfolding r by simp
    qed
    ultimately show ?thesis using 1(1) 2(1-3) 3 True
      by (intro exI [of _ ce1] conjI) (auto simp: ce1_def)
  qed
qed

theorem file_transferred_witness:
  "\<exists>ce1 se1 se2 ce2.
     send_and_pump (epoll loopback_os) (request_line (ascii ''a'')) (loopback_end 1 2) = Some (Ok (), ce1) \<and>
     await_request toy_platform (epoll loopback_os) (\<lambda>i. i) 0 (in_world (snd (ep_backend ce1)) (loopback_end 2 1)) =
       Some (Ok (Some (request_text (request_line (ascii ''a'')))), se1) \<and>
     answer_request (epoll loopback_os) (toy_host\<lparr>h_read := \<lambda>p w. (Inr [7, 7, 7], w)\<rparr>) (ascii ''/www'') 0
       (request_text (request_line (ascii ''a''))) (se1, ()) = Some (Ok (), se2, ()) \<and>
     download toy_platform (epoll loopback_os) (\<lambda>i. i) 0 0 [] (in_world (snd (ep_backend se2)) ce1) =
         Some (Ok [7, 7, 7], ce2)"
proof -
  let ?h = "toy_host\<lparr>h_read := \<lambda>p w. (Inr [7, 7, 7], w)\<rparr>"
  obtain q where q: "chunk_packets [request_line (ascii ''a'')] (ep_conn (loopback_end 1 2)) = [q]" "bits_pass q"
      "list_all bits_pass (reply_packets toy_platform 0 q [7, 7, 7] (ep_conn (loopback_end 2 1)))"
      "length (reply_packets toy_platform 0 q [7, 7, 7] (ep_conn (loopback_end 2 1))) = 2"
    using toy_request_packet unfolding toy_request_def loopback_end_fields by blast
  define reply where "reply = zip ([] # chunks 1024 [7, 7, 7 :: u8])
     (reply_packets toy_platform 0 q [7, 7, 7] (ep_conn (loopback_end 2 1)))"
  have u: "utf8_valid (ascii ''a'')" "ascii ''a'' \<in> set (split_whitespace (ascii ''a''))" by code_simp+
  have p: "utf8_valid (ascii ''a'')" "tight (ascii ''a'')" "length (ascii ''a'') \<le> 1000"
    using split_whitespace_ok [OF u] by (simp_all add: ascii_simps)
  have h: "h_log ?h l x () = (Inr (), ())" "h_read ?h f () = (Inr [7, 7, 7], ())" for l x f
      by (simp_all add: toy_host_def)
  have c: "chunks 1024 [7, 7, 7 :: u8] = [[7, 7, 7]]" by (simp add: chunks.simps)
  have all: "list_all (bits_pass \<circ> snd) reply"
    using q(3) by (auto simp: reply_def list_all_iff dest: set_zip_rightD)
  have wait: "length [7, 7, 7 :: u8] \<le> 2 ^ 18 \<or> patient 0 reply" by simp
  have "\<exists>ce1. send_and_pump (epoll loopback_os) (request_line (ascii ''a'')) (loopback_end 1 2) = Some (Ok (), ce1) \<and>
     (if bits_pass q then \<exists>se1 se2 ce2 k.
        await_request toy_platform (epoll loopback_os) (\<lambda>i. i) 0 (in_world (snd (ep_backend ce1)) (loopback_end 2 1)) =
          Some (Ok (Some (request_text (request_line (ascii ''a'')))), se1) \<and>
        answer_request (epoll loopback_os) ?h (ascii ''/www'') 0 (request_text (request_line (ascii ''a''))) (se1, ()) =
          Some (Ok (), se2, ()) \<and>
        download toy_platform (epoll loopback_os) (\<lambda>i. i) 0 0 [] (in_world (snd (ep_backend se2)) ce1) =
          Some (Ok (passed (take k reply)), ce2) \<and>
        k \<le> length reply \<and> (patient 0 reply \<longrightarrow> k = length reply) \<and>
        (k < length reply \<longrightarrow> (\<exists>j. j + 31 \<le> k \<and> passed (drop j (take k reply)) = [])) \<and>
        (list_all (bits_pass \<circ> snd) reply \<longrightarrow> passed (take k reply) = [7, 7, 7])
      else \<exists>se1 ce2.
        await_request toy_platform (epoll loopback_os) (\<lambda>i. i) 0 (in_world (snd (ep_backend ce1)) (loopback_end 2 1)) =
          Some (Ok None, se1) \<and>
        download toy_platform (epoll loopback_os) (\<lambda>i. i) 0 0 [] (in_world (snd (ep_backend se1)) ce1) =
            Some (Ok [], ce2))"
    by (rule file_transferred [where clock = "\<lambda>i. i" and clock' = "\<lambda>i. i",
          OF loopback.lossless_axioms loopback_end_fields(2) loopback_connected _ _ p h(1) h(2) h(1) _ _ _ _ q(1)
              reply_def wait])
      (use toy_speaks in \<open>simp_all add: peeks_def c\<close>)
  then show ?thesis using q(2) all by auto
qed

end
