(* ===== verification/Examples.thy ===== *)
theory Examples
  imports Interop
begin

text \<open>
  \<open>examples/client.rs\<close> and \<open>examples/server.rs\<close>: a client that sends five pings and waits for the
  answer to each, and a server that answers ping with pong.
\<close>

section \<open>The console\<close>

text \<open>What is printed, to either stream, is collected in order behind the endpoint.\<close>

datatype console_line =
    Usage bytes | Connecting socket_addr | Listening socket_addr | Bound | Waiting | RecvFailed io_error
  | CreateFailed connection_error | RunningHandshake | HandshakeDoneLine | HandshakeFailed connection_error
  | Sends bytes | Receives bytes | DoneLine

definition print_line :: "console_line \<Rightarrow> ('e \<times> console_line list, unit) prog" where
  "print_line l s = Some (Ok (), fst s, snd s @ [l])"

text \<open>\<open>unwrap\<close> of a result: every error is a panic.\<close>

definition unwrapped :: "(('a, 'e) result \<times> 's) option \<Rightarrow> (('a, interop_error) result \<times> 's) option" where
  "unwrapped m = map_option (\<lambda>(r, s). (case r of Inl e \<Rightarrow> Panics | Inr x \<Rightarrow> Ok x, s)) m"

text \<open>A program on an endpoint, next to the console.\<close>

definition on_endpoint ::
  "('e \<Rightarrow> (('a, interop_error) result \<times> 'e) option) \<Rightarrow> ('e \<times> console_line list, 'a) prog" where
  "on_endpoint m s = map_option (\<lambda>(r, ep). (r, ep, snd s)) (m (fst s))"

text \<open>The handshake that both programs run, or exit.\<close>

definition example_handshake ::
  "('t, 'c) platform \<Rightarrow> 'b backend \<Rightarrow> (nat \<Rightarrow> nat) \<Rightarrow> (('t, 'b) endpoint \<times> console_line list, unit) prog" where
  "example_handshake pf B clock s =
     seqP (print_line RunningHandshake) (\<lambda>_ (ep, out).
     case handshake pf B clock ep of
       None \<Rightarrow> None
     | Some (Inl Panic, ep) \<Rightarrow> Some (Panics, ep, out)
     | Some (Inl (Err e), ep) \<Rightarrow> Some (Error (ExitCode 1), ep, out @ [HandshakeFailed e])
     | Some (Inr _, ep) \<Rightarrow> print_line HandshakeDoneLine (ep, out)) s"

text \<open>\<open>process::exit\<close> runs no destructors; otherwise the endpoint goes out of scope.\<close>

definition leave ::
  "'o os \<Rightarrow> (unit, interop_error) result \<times> ('t, epoll_backend \<times> 'o) endpoint \<times> 'w \<Rightarrow> (unit, interop_error) result \<times>
    'o \<times> 'w" where
  "leave os x = (case x of
       (Inl (Err (ExitCode n)), ep, out) \<Rightarrow> (Error (ExitCode n), snd (ep_backend ep), out)
     | _ \<Rightarrow> close_endpoint os x)"

section \<open>The client\<close>

definition ping :: "nat \<Rightarrow> bytes" where
  "ping i = ascii ''ping '' @ ascii (decimal i)"

definition shown :: "bytes \<Rightarrow> bytes" where
  "shown bs = (if utf8_valid bs then bs else ascii ''?'')"

partial_function (option) wait_response ::
  "('t, 'c) platform \<Rightarrow> 'b backend \<Rightarrow> (nat \<Rightarrow> nat) \<Rightarrow> nat \<Rightarrow> ('t, 'b) endpoint \<Rightarrow>
     ((bytes, interop_error) result \<times> ('t, 'b) endpoint) option" where
  "wait_response pf B clock i ep =
     Option.bind (unwrapped (recv_app_data pf B (clock i) 2048 ep)) (\<lambda>(r, ep).
       case r of Inl e \<Rightarrow> Some (Inl e, ep)
       | Inr bs \<Rightarrow> if bs \<noteq> [] then Some (Ok bs, ep) else wait_response pf B clock (i + 1) ep)"

definition ping_pong ::
  "('t, 'c) platform \<Rightarrow> 'b backend \<Rightarrow> (nat \<Rightarrow> nat) \<Rightarrow> nat \<Rightarrow> (('t, 'b) endpoint \<times> console_line list, unit) prog" where
  "ping_pong pf B clock i s =
     seqP (print_line (Sends (ping i))) (\<lambda>_.
     seqP (on_endpoint (\<lambda>ep. unwrapped (send_app_data B (ping i) ep))) (\<lambda>_.
     seqP (on_endpoint (wait_response pf B clock 0)) (\<lambda>bs.
     print_line (Receives (shown bs))))) s"

fun ping_pongs ::
  "('t, 'c) platform \<Rightarrow> 'b backend \<Rightarrow> (nat \<Rightarrow> nat \<Rightarrow> nat) \<Rightarrow> nat list \<Rightarrow> (('t, 'b) endpoint \<times> console_line list, unit)
    prog" where
  "ping_pongs pf B clock [] s = Some (Ok (), s)"
| "ping_pongs pf B clock (i # is) s = seqP (ping_pong pf B (clock i) i) (\<lambda>_. ping_pongs pf B clock is) s"

definition client_example ::
  "('t, 'c) platform \<Rightarrow> 'o os \<Rightarrow> (nat \<Rightarrow> nat \<Rightarrow> nat) \<Rightarrow> bytes list \<Rightarrow> ('o \<times> console_line list, unit) prog" where
  "client_example pf os clock args s = (case s of (net, out) \<Rightarrow>
     if length args < 2 then
       (case args of [] \<Rightarrow> Some (Panics, s) | a # _ \<Rightarrow> Some (Error (ExitCode 1), net, out @ [Usage a]))
     else case parse_socket_addr (args ! 1) of
       None \<Rightarrow> Some (Panics, s)
     | Some server_addr \<Rightarrow>
         let out = out @ [Connecting server_addr] in
         (case ep_client pf os server_addr ''localhost'' net of
            (Inl Panic, net) \<Rightarrow> Some (Panics, net, out)
          | (Inl (Err e), net) \<Rightarrow> Some (Error (ExitCode 1), net, out @ [CreateFailed e])
          | (Inr client, net) \<Rightarrow>
              map_option (leave os)
                (seqP (example_handshake pf (epoll os) (clock 0)) (\<lambda>_.
                 seqP (ping_pongs pf (epoll os) clock [1, 2, 3, 4, 5]) (\<lambda>_.
                 print_line DoneLine)) (client, out))))"

section \<open>The server\<close>

text \<open>\<open>str::replace\<close>: the occurrences of \<open>p\<close> from the left, none inside another.\<close>

function replace_all :: "bytes \<Rightarrow> bytes \<Rightarrow> bytes \<Rightarrow> bytes" where
  "replace_all p q s =
     (if p \<noteq> [] \<and> starts_with p s then q @ replace_all p q (drop (length p) s)
      else case s of [] \<Rightarrow> [] | b # bs \<Rightarrow> b # replace_all p q bs)"
  by pat_completeness auto
termination
  by (relation "measure (\<lambda>(p, q, s). length s)") (auto simp: starts_with_def, metis diff_less length_greater_0_conv
      length_take min.cobounded1 min_less_iff_conj)

declare replace_all.simps [simp del]

definition echo_reply :: "bytes \<Rightarrow> bytes" where
  "echo_reply msg = replace_all (ascii ''ping'') (ascii ''pong'') msg"

text \<open>One turn of the loop, and the loop, which only a panic ends.\<close>

definition echo_turn ::
  "('t, 'c) platform \<Rightarrow> 'b backend \<Rightarrow> nat \<Rightarrow> (('t, 'b) endpoint \<times> console_line list, unit) prog" where
  "echo_turn pf B now s =
     seqP (on_endpoint (\<lambda>ep. unwrapped (recv_app_data pf B now 2048 ep))) (\<lambda>bs.
     if bs \<noteq> [] then
       seqP (print_line (Receives (shown bs))) (\<lambda>_.
       seqP (print_line (Sends (echo_reply (shown bs)))) (\<lambda>_.
       on_endpoint (\<lambda>ep. unwrapped (send_app_data B (echo_reply (shown bs)) ep))))
     else (\<lambda>s. Some (Ok (), s))) s"

partial_function (option) echo_loop ::
  "('t, 'c) platform \<Rightarrow> 'b backend \<Rightarrow> (nat \<Rightarrow> nat) \<Rightarrow> nat \<Rightarrow> ('t, 'b) endpoint \<times> console_line list \<Rightarrow>
     ((unit, interop_error) result \<times> ('t, 'b) endpoint \<times> console_line list) option" where
  "echo_loop pf B clock i s =
     Option.bind (echo_turn pf B (clock i) s) (\<lambda>(r, s).
       case r of Inl e \<Rightarrow> Some (Inl e, s) | Inr _ \<Rightarrow> echo_loop pf B clock (i + 1) s)"

text \<open>
  Waiting for the client: as in the interop server, but an error of \<open>recv\<close> is printed and exits.
\<close>

partial_function (option) await_client ::
  "'b backend \<Rightarrow> bytes \<Rightarrow> 'b \<Rightarrow> ((bytes, io_error) result \<times> 'b) option" where
  "await_client B buf b =
     (case be_poll B 1000 b of
        (Inl e, b) \<Rightarrow> Some (Panics, b)
      | (Inr worked, b) \<Rightarrow> (case be_recv B buf b of
          (Inr (n, addr), buf, b) \<Rightarrow> if n = 0 then await_client B buf b else Some (slice buf 0 n, b)
        | (Inl e, buf, b) \<Rightarrow> if e = WouldBlock then await_client B buf b else Some (Error e, b)))"

text \<open>\<open>config\<close> is what \<open>test_server_config\<close> gets from rcgen and rustls.\<close>

definition server_example ::
  "('t, 'c) platform \<Rightarrow> 'o os \<Rightarrow> 'c \<Rightarrow> nat \<Rightarrow> (nat \<Rightarrow> nat \<Rightarrow> nat) \<Rightarrow> bytes list \<Rightarrow> ('o \<times> console_line list, unit) prog" where
  "server_example pf os config now clock args s = (case s of (net, out) \<Rightarrow>
     if length args < 2 then
       (case args of [] \<Rightarrow> Some (Panics, s) | a # _ \<Rightarrow> Some (Error (ExitCode 1), net, out @ [Usage a]))
     else case parse_socket_addr (args ! 1) of
       None \<Rightarrow> Some (Panics, s)
     | Some bind_addr \<Rightarrow>
         let out = out @ [Listening bind_addr] in
         (case epoll_bind os bind_addr net of
            (Inl e, net) \<Rightarrow> Some (Panics, net, out)
          | (Inr backend, net) \<Rightarrow>
              let out = out @ [Bound, Waiting] in
              (case await_client (epoll os) (replicate 2048 0) (backend, net) of
                 None \<Rightarrow> None
               | Some (Inl Panic, b) \<Rightarrow> Some (Panics, epoll_drop os b, out)
               | Some (Inl (Err e), b) \<Rightarrow> Some (Error (ExitCode 1), snd b, out @ [RecvFailed e])
               | Some (Inr packet, b) \<Rightarrow> (case ep_server pf os now packet b config of
                   None \<Rightarrow> None
                 | Some (Inl Panic, net) \<Rightarrow> Some (Panics, net, out)
                 | Some (Inl (Err e), net) \<Rightarrow> Some (Error (ExitCode 1), net, out @ [CreateFailed e])
                 | Some (Inr server, net) \<Rightarrow>
                     map_option (leave os)
                       (seqP (example_handshake pf (epoll os) (clock 0)) (\<lambda>_.
                        echo_loop pf (epoll os) (clock 1) 0) (server, out))))))"

end
