(* ===== verification/Examples_Props.thy ===== *)
theory Examples_Props
  imports Examples Interop_Props
begin

text \<open>
  The properties of the examples, and their lemmas.
\<close>

section \<open>Replies\<close>

lemma replace_none:
  assumes "hd p \<notin> set s"
  shows "replace_all p q s = s"
  using assms
proof (induction s)
  case Nil
  then show ?case by (subst replace_all.simps) (auto simp: starts_with_def)
next
  case (Cons b s)
  have "\<not> (p \<noteq> [] \<and> starts_with p (b # s))"
  proof
    assume "p \<noteq> [] \<and> starts_with p (b # s)"
    then have "hd p = b" by (cases p) (auto simp: starts_with_def)
    with Cons.prems show False by simp
  qed
  moreover have "replace_all p q s = s" using Cons by simp
  ultimately show ?case by (subst replace_all.simps) (simp only: if_False list.case)
qed

lemma echo_ping: "echo_reply (ping i) = ascii ''pong '' @ ascii (decimal i)"
proof -
  have p: "ascii ''ping'' = [112, 105, 110, 103]" "ascii ''pong'' = [112, 111, 110, 103]"
    "ascii ''ping '' = [112, 105, 110, 103, 32]" "ascii ''pong '' = [112, 111, 110, 103, 32]" by code_simp+
  have "112 \<notin> set (ascii (decimal i))" using decimal_digits [of i] by (auto simp: list_all_iff is_digit_def)
  then have "replace_all [112, 105, 110, 103] [112, 111, 110, 103] (32 # ascii (decimal i)) = 32 # ascii (decimal i)"
    by (intro replace_none) simp
  then show ?thesis
    unfolding echo_reply_def ping_def p by (subst replace_all.simps) (simp add: starts_with_def)
qed

lemma ping_valid: "utf8_valid (ping i)"
proof (rule utf8_ascii)
  have "ascii ''ping '' = [112, 105, 110, 103, 32]" by code_simp
  moreover have "list_all (\<lambda>b. b < 0x80) (ascii (decimal i))"
    using decimal_digits [of i] by (auto simp: list_all_iff is_digit_def word_less_nat_alt word_le_nat_alt)
  ultimately show "list_all (\<lambda>b. b < 0x80) (ping i)" by (simp add: ping_def)
qed

section \<open>Sending\<close>

lemma flush_data:
  assumes c: "serving ka (ep_conn ep)" and k: "keys_match ka kb" and d: "d \<noteq> []" "length d \<le> 1024"
    and size: "unat (peeks (ep_conn ep) ApplicationData) < 2 ^ 32" "unat (stream_send_offset (ep_conn ep)) < 2 ^ 62"
      "length (dst_cid (ep_conn ep)) + packet_bound ka 1042 \<le> 2048"
    and b: "length (ep_send_buf ep) = 2048" "\<And>p. \<exists>n. fst (be_send B p (ep_backend ep)) = Inr n"
  shows "\<exists>pkt ep'. send_app_data B d ep = Some (Ok (), ep') \<and> ep_backend ep' = snd (be_send B pkt (ep_backend ep)) \<and>
     carries kb (length (dst_cid (ep_conn ep))) (peeks (ep_conn ep) ApplicationData)
         (stream_send_offset (ep_conn ep)) d pkt \<and>
     serving ka (ep_conn ep')"
proof (rule data_packet [OF assms(1-7)])
  fix pkt
  let ?a = "send_data d (ep_conn ep)"
  define c' where "c' = sent ApplicationData Established ?a"
  assume a: "conn_ok ?a" "state ?a = Established" "next_to_send ?a = Some ApplicationData"
    and p: "sent_packet ApplicationData ?a = Ok pkt" "length pkt \<le> 2048" "pkt \<noteq> []"
    and carried: "carries kb (length (dst_cid (ep_conn ep))) (peeks (ep_conn ep) ApplicationData)
        (stream_send_offset (ep_conn ep)) d pkt"
    and sv: "serving ka (sent ApplicationData Established ?a)"
  have e: "egest (length (ep_send_buf ep)) ?a = (Ok pkt, c')" using p a b(1) by (simp add: egest_eq c'_def)
  obtain n s where s: "be_send B pkt (ep_backend ep) = (Inr n, s)" using b(2) [of pkt]
      by (cases "be_send B pkt (ep_backend ep)") auto
  let ?ep = "ep\<lparr>ep_conn := ?a\<rparr>"
  define ep' where "ep' = ?ep\<lparr>ep_conn := c', ep_send_buf := pkt @ drop (length pkt) (ep_send_buf ?ep), ep_backend := s\<rparr>"
  have "flush_egress B ?ep = flush_egress B ep'" unfolding ep'_def by (rule flush_one [OF _ p(3)]) (simp_all add: e s)
  also have "flush_egress B ep' = Some (Ok (), ep')"
    by (subst flush_stop) (use sv in \<open>auto simp: serving_def ep'_def c'_def\<close>)
  finally have "send_app_data B d ep = Some (Ok (), ep')" by (simp add: send_app_data_def)
  then show ?thesis using carried sv s by (intro exI [of _ pkt] exI [of _ ep']) (simp add: ep'_def c'_def)
qed

section \<open>A closed connection\<close>

context datagram_backend
begin

lemma recv_app_closed:
  assumes "state (ep_conn ep) = Closed" and "received_app_data (ep_conn ep) = []"
  obtains ep' where "recv_app_data pf B now cap ep = Some (Ok [], ep')" and "ep_conn ep' = ep_conn ep"
proof -
  obtain r ep' where s: "step pf B now 0 ep = Some (r, ep')" "r \<noteq> Inl Panic" "ep_conn ep' = ep_conn ep"
    using step_closed [OF assms(1)] by blast
  have "recv_data cap (ep_conn ep') = ([], ep_conn ep')" using assms(2) s(3) by (simp add: recv_data_def)
  then have "recv_app_data pf B now cap ep = Some (Ok [], ep'\<lparr>ep_conn := ep_conn ep'\<rparr>)"
    using s(1,2) by (cases r rule: sum.exhaust) (auto simp: recv_app_data_def split: fail.splits)
  with that s(3) show thesis by simp
qed

end

lemma closed_no_response:
  assumes "wait_response pf B clock i ep = Some y"
  shows "datagram_backend B \<Longrightarrow> \<not> (state (ep_conn ep) = Closed \<and> received_app_data (ep_conn ep) = [])"
  using assms
proof (induction pf B clock i ep y rule: wait_response.raw_induct [rotated, consumes 1])
  case (1 wait pf B clock i ep y)
  show ?case
  proof
    assume c: "state (ep_conn ep) = Closed \<and> received_app_data (ep_conn ep) = []"
    obtain ep' where r: "recv_app_data pf B (clock i) 2048 ep = Some (Ok [], ep')" "ep_conn ep' = ep_conn ep"
      using datagram_backend.recv_app_closed [OF 1(3)] c by blast
    with 1(2) have "wait pf B clock (i + 1) ep' = Some y" by (simp add: unwrapped_def)
    from 1(1) [OF this 1(3)] r(2) c show False by simp
  qed
qed

lemma closed_echo_loop:
  assumes "echo_loop pf B clock i s = Some y"
  shows "datagram_backend B \<Longrightarrow> \<not> (state (ep_conn (fst s)) = Closed \<and> received_app_data (ep_conn (fst s)) = [])"
  using assms
proof (induction pf B clock i s y rule: echo_loop.raw_induct [rotated, consumes 1])
  case (1 wait pf B clock i s y)
  show ?case
  proof
    assume c: "state (ep_conn (fst s)) = Closed \<and> received_app_data (ep_conn (fst s)) = []"
    obtain ep' where r: "recv_app_data pf B (clock i) 2048 (fst s) = Some (Ok [], ep')" "ep_conn ep' = ep_conn (fst s)"
      using datagram_backend.recv_app_closed [OF 1(3)] c by blast
    then have "echo_turn pf B (clock i) s = Some (Ok (), ep', snd s)"
      by (simp add: echo_turn_def seqP_def on_endpoint_def unwrapped_def)
    with 1(2) have "wait pf B clock (i + 1) (ep', snd s) = Some y" by simp
    from 1(1) [OF this 1(3)] r(2) c show False by simp
  qed
qed

section \<open>Properties\<close>

text \<open>
  C34: a ping is answered with a pong. When an established server that has nothing else to send finds
  the bytes of a client's message \<open>ping i\<close> on its stream, and no datagram waits, its turn sends one
  packet, which opens under the client's keys to the bytes \<open>pong i\<close> at the next offset of the stream.
\<close>

theorem ping_answered:
  assumes "conn_ok (ep_conn ep)" and "state (ep_conn ep) = Established" and "next_to_send (ep_conn ep) = None"
    and "pending_app_data (ep_conn ep) = []" and "local_keys (appdata_space (ep_conn ep)) = Some ka"
        and "keys_match ka kb"
    and "received_app_data (ep_conn ep) = ping i" and "i < 10"
    and "be_poll B 0 (ep_backend ep) = (Inr False, b)" and "\<And>p. \<exists>n. fst (be_send B p b) = Inr n"
    and "unat (peeks (ep_conn ep) ApplicationData) < 2 ^ 32" and "unat (stream_send_offset (ep_conn ep)) < 2 ^ 62"
    and "length (dst_cid (ep_conn ep)) + packet_bound ka 1042 \<le> 2048" and "length (ep_send_buf ep) = 2048"
  shows "\<exists>pkt ep' out'. echo_turn pf B now (ep, out) = Some (Ok (), ep', out') \<and> ep_backend ep' =
      snd (be_send B pkt b) \<and>
     carries kb (length (dst_cid (ep_conn ep))) (peeks (ep_conn ep) ApplicationData) (stream_send_offset (ep_conn ep))
       (ascii ''pong '' @ ascii (decimal i)) pkt \<and>
     out' = out @ [Receives (ping i), Sends (ascii ''pong '' @ ascii (decimal i))]"
proof -
  define c where "c = ep_conn ep"
  define c1 where "c1 = c\<lparr>received_app_data := []\<rparr>"
  define ep1 where "ep1 = ep\<lparr>ep_backend := b, ep_conn := c1\<rparr>"
  let ?reply = "ascii ''pong '' @ ascii (decimal i)"
  have len: "length (ascii (decimal i)) = 1" "length (ascii ''ping '') = 5" "length (ascii ''pong '') = 5"
    using assms(8) by (simp_all add: ascii_def decimal.simps)
  have "flush_egress B (ep\<lparr>ep_backend := b\<rparr>) = Some (Ok (), ep\<lparr>ep_backend := b\<rparr>)"
    using assms(1-3) by (subst flush_stop) simp_all
  then have "step pf B now 0 ep = Some (Ok False, ep\<lparr>ep_backend := b\<rparr>)"
    using assms(9) by (simp add: step_def Let_def andthen_def)
  moreover have "recv_data 2048 c = (ping i, c1)"
    using assms(7) len by (simp add: recv_data_def c_def c1_def ping_def Let_def)
  ultimately have recv: "recv_app_data pf B now 2048 ep = Some (Ok (ping i), ep1)"
    by (simp add: recv_app_data_def ep1_def c_def)
  have "space_frames j st c1 = space_frames j st c" "get_space j c1 = get_space j c" for j st
    by (cases j; simp add: c1_def space_frames_def crypto_part_def ack_part_def done_part_def stream_part_def
        get_space_def)+
  then have "next_to_send c1 = next_to_send c" and peek: "peeks c1 ApplicationData = peeks c ApplicationData"
    by (simp_all add: next_to_send_def peeks_def c1_def)
  from this(1) have nxt: "next_to_send c1 = None" using assms(3) by (simp add: c_def)
  have "conn_ok c1" using conn_ok_call [OF assms(1), of undefined "RecvData 2048"] \<open>recv_data 2048 c = (ping i, c1)\<close>
    by (simp add: c_def)
  then have sv: "serving ka (ep_conn ep1)" and pn: "peeks (ep_conn ep1) ApplicationData = peeks c ApplicationData"
    using assms(2-5) nxt peek by (simp_all add: serving_def ep1_def c1_def c_def)
  have "\<exists>pkt ep'. send_app_data B ?reply ep1 = Some (Ok (), ep') \<and> ep_backend ep' =
      snd (be_send B pkt (ep_backend ep1)) \<and>
     carries kb (length (dst_cid (ep_conn ep1))) (peeks (ep_conn ep1) ApplicationData)
         (stream_send_offset (ep_conn ep1)) ?reply pkt \<and>
     serving ka (ep_conn ep')"
    using assms(10-14) len by (intro flush_data [OF sv assms(6)]) (auto simp: ep1_def c1_def peek
        [unfolded c1_def c_def] c_def)
  then obtain pkt ep' where s: "send_app_data B ?reply ep1 = Some (Ok (), ep')" "ep_backend ep' = snd (be_send B pkt b)"
      "carries kb (length (dst_cid c)) (peeks c ApplicationData) (stream_send_offset c) ?reply pkt"
    unfolding pn by (auto simp: ep1_def c1_def)
  have "ping i \<noteq> []" using len by (auto simp: ping_def)
  moreover have "shown (ping i) = ping i" by (simp add: shown_def ping_valid)
  ultimately have "echo_turn pf B now (ep, out) = Some (Ok (), ep', out @ [Receives (ping i), Sends ?reply])"
    using recv s(1) by (simp add: echo_turn_def seqP_def on_endpoint_def unwrapped_def print_line_def echo_ping)
  with s show ?thesis unfolding c_def by blast
qed

theorem ping_answered_witness:
  "\<exists>pkt ep'. echo_turn toy_platform toy_backend 0 (toy_endpoint (toy_conn []\<lparr>received_app_data := ping 3\<rparr>) [], []) =
       Some (Ok (), ep', [Receives (ping 3), Sends (ascii ''pong '' @ ascii (decimal 3))]) \<and>
     ep_backend ep' = ([], [pkt])"
proof -
  let ?c = "toy_conn []\<lparr>received_app_data := ping 3\<rparr>"
  let ?ep = "toy_endpoint ?c []"
  have sp: "get_space j ?c = toy_space j" for j by (cases j) (simp_all add: get_space_def toy_conn_def)
  have f: "space_frames j st ?c = []" if "st = Established" for j st
    using that by (cases j) (simp_all add: space_frames_def crypto_part_def ack_part_def done_part_def
        stream_part_def sp Let_def)
  have n: "next_to_send ?c = None" using f by (simp add: next_to_send_def)
  have ok: "conn_ok ?c" using toy_conn_ok [of "[]"] by (simp add: conn_ok_def sp)
  have k: "local_keys (appdata_space (ep_conn ?ep)) = Some toy_dir_keys" by simp
  have p: "be_poll toy_backend 0 (ep_backend ?ep) = (Inr False, ([], []))" by (simp add: toy_backend_def)
  have s: "\<exists>n. fst (be_send toy_backend p ([], [])) = Inr n" for p by (simp add: toy_backend_def)
  have b: "snd (be_send toy_backend p ([], [])) = ([], [p])" for p by (simp add: toy_backend_def)
  have "\<exists>pkt ep' out'. echo_turn toy_platform toy_backend 0 (?ep, []) = Some (Ok (), ep', out') \<and>
      ep_backend ep' = snd (be_send toy_backend pkt ([], [])) \<and>
      carries toy_dir_keys (length (dst_cid (ep_conn ?ep))) (peeks (ep_conn ?ep) ApplicationData)
          (stream_send_offset (ep_conn ?ep))
       (ascii ''pong '' @ ascii (decimal 3)) pkt \<and>
      out' = [] @ [Receives (ping 3), Sends (ascii ''pong '' @ ascii (decimal 3))]"
    by (rule ping_answered [OF _ _ _ _ k toy_match _ _ p s])
      (use n ok in \<open>simp_all add: peeks_def sp packet_bound_def\<close>)
  then show ?thesis unfolding b by auto
qed

text \<open>
  The examples never leave a closed connection. Once the connection is closed with nothing received
  on it, the client waits for its response forever and the server's loop goes on forever, as
  \<open>recv_app_data\<close> drops the error of \<open>step\<close> and reports no data.
\<close>

theorem closed_examples_hang:
  assumes "datagram_backend B" and "state (ep_conn ep) = Closed" and "received_app_data (ep_conn ep) = []"
  shows "wait_response pf B clock i ep = None \<and> echo_loop pf B clock i (ep, out) = None"
  using closed_no_response [OF _ assms(1)] closed_echo_loop [OF _ assms(1), where s = "(ep, out)"] assms(2,3)
  by (metis fst_conv not_None_eq)

theorem closed_examples_hang_witness:
  "wait_response toy_platform toy_backend (\<lambda>i. i) 0 (toy_endpoint (toy_conn []\<lparr>state := Closed\<rparr>) []) = None"
  by (rule conjunct1 [OF closed_examples_hang [OF toy.datagram_backend_axioms, where out = "[]"]]) simp_all

end
