(* ===== verification/Verifier.thy ===== *)
theory Verifier
  imports Platform
begin

text \<open>
  The certificate verifier \<open>SkipVerify\<close> of \<open>src/connection.rs\<close>: what TLS is told when it asks for
  the server's certificate and signature, whatever they are.
\<close>

text \<open>The schemes that the verifier names to TLS.\<close>

datatype signature_scheme = RSA_PKCS1_SHA256 | ECDSA_NISTP256_SHA256 | RSA_PSS_SHA256 | ED25519

definition verify_server_cert ::
  "bytes \<Rightarrow> bytes list \<Rightarrow> string \<Rightarrow> bytes \<Rightarrow> nat \<Rightarrow> (tls_error, unit) sum" where
  "verify_server_cert end_entity intermediates server_name ocsp_response now = Inr ()"

definition verify_tls12_signature :: "bytes \<Rightarrow> bytes \<Rightarrow> bytes \<Rightarrow> (tls_error, unit) sum" where
  "verify_tls12_signature message cert dss = Inr ()"

definition verify_tls13_signature :: "bytes \<Rightarrow> bytes \<Rightarrow> bytes \<Rightarrow> (tls_error, unit) sum" where
  "verify_tls13_signature message cert dss = Inr ()"

definition supported_verify_schemes :: "signature_scheme list" where
  "supported_verify_schemes = [RSA_PKCS1_SHA256, ECDSA_NISTP256_SHA256, RSA_PSS_SHA256, ED25519]"

end
