(* ===== verification/Tests.thy ===== *)
theory Tests
  imports Text Connection_Handshake
begin

text \<open>
  The unit tests of \<open>varint.rs\<close>, \<open>frame.rs\<close> and \<open>packet.rs\<close>, and those of \<open>connection.rs\<close> about
  \<open>connect\<close>, run on the model: each passes.
\<close>

section \<open>Integers\<close>

text \<open>Each test is whether it passes: an \<open>unwrap\<close> of an error fails, as does a false assertion.\<close>

definition round_trip_boundaries :: bool where
  "round_trip_boundaries \<longleftrightarrow> list_all (\<lambda>v. case encode v (replicate 8 0) of
       (Inr n, buf) \<Rightarrow> (case decode buf of Inr (decoded, consumed) \<Rightarrow> consumed = n \<and> decoded = v | Inl e \<Rightarrow> False)
     | (Inl e, buf) \<Rightarrow> False)
     [0, 1, 63, 64, 255, 16383, 16384, 65535, 1073741823, 1073741824, VARINT_MAX]"

definition encoded_lengths :: bool where
  "encoded_lengths \<longleftrightarrow> encoded_len 0 = 1 \<and> encoded_len 63 = 1 \<and> encoded_len 64 = 2 \<and> encoded_len 16383 = 2 \<and>
     encoded_len 16384 = 4 \<and> encoded_len 1073741823 = 4 \<and> encoded_len 1073741824 = 8"

definition rfc_a1_examples :: bool where
  "rfc_a1_examples \<longleftrightarrow> list_all (\<lambda>(bytes, expected). decode bytes = Ok (expected, length bytes))
     [([0xc2, 0x19, 0x7c, 0x5e, 0xff, 0x14, 0xe8, 0x8c], 151288809941952652),
      ([0x9d, 0x7f, 0x3e, 0x7d], 494878333),
      ([0x7b, 0xbd], 15293),
      ([0x25], 37),
      ([0x40, 0x25], 37)]"

definition value_too_large :: bool where
  "value_too_large \<longleftrightarrow>
     (case fst (encode (VARINT_MAX + 1) (replicate 16 0)) of Inl (Err (ValueTooLarge v)) \<Rightarrow> True | _ \<Rightarrow> False)"

definition buffer_too_short :: bool where
  "buffer_too_short \<longleftrightarrow>
     (case fst (encode 0x4000 (replicate 2 0)) of Inl (Err (BufferTooShort n h)) \<Rightarrow> True | _ \<Rightarrow> False)"

definition decode_truncated :: bool where
  "decode_truncated \<longleftrightarrow> (case decode [0x40] of Inl (Err (BufferTooShort n h)) \<Rightarrow> True | _ \<Rightarrow> False)"

definition decode_empty :: bool where
  "decode_empty \<longleftrightarrow> (case decode [] of Inl (Err (BufferTooShort n h)) \<Rightarrow> True | _ \<Rightarrow> False)"

section \<open>Frames\<close>

definition round_trip :: "frame \<Rightarrow> bool" where
  "round_trip f = (case write_frame f [] of
       (Inl e, buf) \<Rightarrow> False
     | (Inr _, buf) \<Rightarrow> (case parse_frame buf of Inl e \<Rightarrow> False | Inr (decoded, n) \<Rightarrow> n = length buf \<and> decoded = f))"

text \<open>\<open>ConnectionId::new(..).unwrap()\<close> on at most 20 bytes.\<close>

definition new_id :: "bytes \<Rightarrow> connection_id" where
  "new_id b = projr (connection_id_new b)"

definition round_trip_padding :: bool where
  "round_trip_padding \<longleftrightarrow> round_trip Padding"

definition round_trip_ping :: bool where
  "round_trip_ping \<longleftrightarrow> round_trip Ping"

definition round_trip_ack :: bool where
  "round_trip_ack \<longleftrightarrow> round_trip (Ack 1000 42 [\<lparr>ar_gap = 0, ar_range = 5\<rparr>] None)"

definition round_trip_ack_with_ecn :: bool where
  "round_trip_ack_with_ecn \<longleftrightarrow> round_trip (Ack 200 10 [\<lparr>ar_gap = 0, ar_range = 3\<rparr>, \<lparr>ar_gap = 2, ar_range = 4\<rparr>]
    (Some \<lparr>ect0 = 1, ect1 = 2, ecn_ce = 0\<rparr>))"

definition round_trip_reset_stream :: bool where
  "round_trip_reset_stream \<longleftrightarrow> round_trip (ResetStream 4 123 4096)"

definition round_trip_stop_sending :: bool where
  "round_trip_stop_sending \<longleftrightarrow> round_trip (StopSending 2 99)"

definition round_trip_crypto :: bool where
  "round_trip_crypto \<longleftrightarrow> round_trip (Crypto 0 (ascii ''hello''))"

definition round_trip_new_token :: bool where
  "round_trip_new_token \<longleftrightarrow> round_trip (NewToken (ascii ''abc123''))"

definition round_trip_stream :: bool where
  "round_trip_stream \<longleftrightarrow> round_trip (Stream 0 0 (ascii ''payload'') False)"

definition round_trip_stream_with_offset_and_fin :: bool where
  "round_trip_stream_with_offset_and_fin \<longleftrightarrow> round_trip (Stream 10 2048 (ascii ''end'') True)"

definition round_trip_max_data :: bool where
  "round_trip_max_data \<longleftrightarrow> round_trip (MaxData 1000000)"

definition round_trip_max_stream_data :: bool where
  "round_trip_max_stream_data \<longleftrightarrow> round_trip (MaxStreamData 4 65536)"

definition round_trip_max_streams :: bool where
  "round_trip_max_streams \<longleftrightarrow> round_trip (MaxStreams True 100) \<and> round_trip (MaxStreams False 50)"

definition round_trip_data_blocked :: bool where
  "round_trip_data_blocked \<longleftrightarrow> round_trip (DataBlocked 2000)"

definition round_trip_stream_data_blocked :: bool where
  "round_trip_stream_data_blocked \<longleftrightarrow> round_trip (StreamDataBlocked 2 4096)"

definition round_trip_streams_blocked :: bool where
  "round_trip_streams_blocked \<longleftrightarrow> round_trip (StreamsBlocked True 100) \<and> round_trip (StreamsBlocked False 50)"

definition round_trip_new_connection_id :: bool where
  "round_trip_new_connection_id \<longleftrightarrow> round_trip (NewConnectionId 1 0 (new_id [1, 2, 3, 4, 5, 6, 7, 8])
    (replicate 16 0xab))"

definition round_trip_retire_connection_id :: bool where
  "round_trip_retire_connection_id \<longleftrightarrow> round_trip (RetireConnectionId 2)"

definition round_trip_path_challenge :: bool where
  "round_trip_path_challenge \<longleftrightarrow> round_trip (PathChallenge (ascii ''abcdefgh''))"

definition round_trip_path_response :: bool where
  "round_trip_path_response \<longleftrightarrow> round_trip (PathResponse (ascii ''12345678''))"

definition round_trip_connection_close_quic :: bool where
  "round_trip_connection_close_quic \<longleftrightarrow> round_trip (ConnectionClose 0x0a (Some 0x06) (ascii ''bad crypto frame''))"

definition round_trip_connection_close_app :: bool where
  "round_trip_connection_close_app \<longleftrightarrow> round_trip (ConnectionClose 0 None [])"

definition round_trip_handshake_done :: bool where
  "round_trip_handshake_done \<longleftrightarrow> round_trip HandshakeDone"

definition all_frames_round_trip :: bool where
  "all_frames_round_trip \<longleftrightarrow> list_all round_trip
     [Padding, Ping, Ack 10 1 [\<lparr>ar_gap = 0, ar_range = 10\<rparr>] None, ResetStream 0 1 2, StopSending 0 1,
      Crypto 0 (ascii ''a''), NewToken (ascii ''t''), Stream 0 0 (ascii ''x'') False, MaxData 1, MaxStreamData 0 1,
      MaxStreams True 1, DataBlocked 1, StreamDataBlocked 0 1, StreamsBlocked True 1,
      NewConnectionId 0 0 (new_id [1, 2, 3, 4]) (replicate 16 0), RetireConnectionId 0,
      PathChallenge (replicate 8 0), PathResponse (replicate 8 0), ConnectionClose 0 None [], HandshakeDone]"

definition unknown_frame_type :: bool where
  "unknown_frame_type \<longleftrightarrow> (case parse_frame [0x3f] of Inl (Err (UnknownType t)) \<Rightarrow> t = 0x3f | _ \<Rightarrow> False)"

definition rfc_ping_example :: bool where
  "rfc_ping_example \<longleftrightarrow> parse_frame [0x01] = Ok (Ping, 1)"

definition rfc_padding_example :: bool where
  "rfc_padding_example \<longleftrightarrow> parse_frame [0, 0, 0] = Ok (Padding, 1) \<and> parse_frame (drop 1 [0, 0, 0]) = Ok (Padding, 1)"

section \<open>Headers and packet numbers\<close>

definition packet_number_decode_no_wrap :: bool where
  "packet_number_decode_no_wrap \<longleftrightarrow> decode_packet_number 0 5 1 = 5"

definition packet_number_decode_wrap :: bool where
  "packet_number_decode_wrap \<longleftrightarrow> decode_packet_number 0xa82f30ea 0x9b32 2 = 0xa82f9b32"

definition packet_number_decode_rfc_example :: bool where
  "packet_number_decode_rfc_example \<longleftrightarrow> decode_packet_number 0xa82f30ea 0x9b32 2 = 0xa82f9b32"

definition decode_from_zero :: bool where
  "decode_from_zero \<longleftrightarrow> decode_packet_number 0 0 1 = 0 \<and> decode_packet_number 0 255 1 = 255"

definition parse_initial_header :: bool where
  "parse_initial_header \<longleftrightarrow>
     (let buf = [0xC0] @ to_be32 VERSION_1 @ [0] @ [0] @ [0] @ [0] @ [0] in
      case parse_long_header buf of
        Inl e \<Rightarrow> False
      | Inr (hdr, n) \<Rightarrow> n = length buf \<and> lh_ty hdr = Initial \<and> lh_version hdr = VERSION_1 \<and> lh_token hdr = Some [] \<and>
          lh_length hdr = Some 0 \<and> lh_truncated_pn hdr = Some 0 \<and> lh_pn_len hdr = Some 1)"

definition parse_short_header_basic :: bool where
  "parse_short_header_basic \<longleftrightarrow> (case parse_short_header [0x41, 0x00] 0 of
       Inl e \<Rightarrow> False
     | Inr (hdr, n) \<Rightarrow> n = 2 \<and> \<not> sh_spin hdr \<and> \<not> sh_key_phase hdr \<and> sh_pn_len hdr = 1 \<and> sh_truncated_pn hdr = 0)"

definition parse_short_header_spin_keyphase :: bool where
  "parse_short_header_spin_keyphase \<longleftrightarrow> (case parse_short_header [0x65, 0x42] 0 of
       Inl e \<Rightarrow> False
     | Inr (hdr, n) \<Rightarrow> sh_spin hdr \<and> sh_key_phase hdr \<and> sh_pn_len hdr = 1 \<and> sh_truncated_pn hdr = 0x42)"

definition fixed_bit_must_be_set :: bool where
  "fixed_bit_must_be_set \<longleftrightarrow> (case parse_short_header [0x01] 0 of Inl (Err FixedBitNotSet) \<Rightarrow> True | _ \<Rightarrow> False)"

definition reserved_bits_must_be_zero :: bool where
  "reserved_bits_must_be_zero \<longleftrightarrow> (case parse_short_header [0x58] 0 of Inl (Err ReservedBitsSet) \<Rightarrow> True | _ \<Rightarrow> False)"

definition version_negotiation_packet :: bool where
  "version_negotiation_packet \<longleftrightarrow>
     (case parse_long_header ([0xC0] @ [0, 0, 0, 0] @ [4] @ [1, 2, 3, 4] @ [4] @ [5, 6, 7, 8] @ to_be32 VERSION_1) of
        Inl e \<Rightarrow> False
      | Inr (hdr, n) \<Rightarrow> lh_ty hdr = VersionNegotiation \<and> lh_version hdr = VERSION_NEGOTIATION \<and>
          cid_bytes (lh_dst_cid hdr) = [1, 2, 3, 4] \<and> cid_bytes (lh_src_cid hdr) = [5, 6, 7, 8])"

section \<open>They pass\<close>

lemma round_trip_ok: "frame_ok f \<Longrightarrow> self_delimiting f \<Longrightarrow> round_trip f"
  using parse_frame_wire [of f "[]"] by (simp add: round_trip_def write_frame_ok)

lemma test_frames_ok:
  "ranges_ok [\<lparr>ar_gap = 0, ar_range = 3\<rparr>, \<lparr>ar_gap = 2, ar_range = 4\<rparr>]"
  "ranges_ok [\<lparr>ar_gap = 0, ar_range = 5\<rparr>]" "ranges_ok [\<lparr>ar_gap = 0, ar_range = 10\<rparr>]"
  by (simp_all add: ranges_ok_def range_ok_def isize_max_def VARINT_MAX_eq)

lemmas frame_test_simps = round_trip_ok VARINT_MAX_eq length_ok_def test_frames_ok ecn_ok_def new_id_def
  connection_id_new_def ascii_def

lemma varint_tests:
  "round_trip_boundaries" "encoded_lengths" "rfc_a1_examples" "value_too_large" "buffer_too_short"
    "decode_truncated" "decode_empty"
  by code_simp+

lemma packet_tests:
  "packet_number_decode_no_wrap" "packet_number_decode_wrap" "packet_number_decode_rfc_example" "decode_from_zero"
    "parse_initial_header"
  "parse_short_header_basic" "parse_short_header_spin_keyphase" "fixed_bit_must_be_set"
    "reserved_bits_must_be_zero" "version_negotiation_packet"
  by code_simp+

lemma frame_tests:
  "round_trip_padding" "round_trip_ping" "round_trip_ack" "round_trip_ack_with_ecn" "round_trip_reset_stream"
    "round_trip_stop_sending"
  "round_trip_crypto" "round_trip_new_token" "round_trip_stream" "round_trip_stream_with_offset_and_fin"
    "round_trip_max_data" "round_trip_max_stream_data"
  "round_trip_max_streams" "round_trip_data_blocked" "round_trip_stream_data_blocked" "round_trip_streams_blocked"
    "round_trip_new_connection_id" "round_trip_retire_connection_id"
  "round_trip_path_challenge" "round_trip_path_response" "round_trip_connection_close_quic"
    "round_trip_connection_close_app" "round_trip_handshake_done"
  "all_frames_round_trip"
  by (simp_all add: frame_test_simps round_trip_padding_def round_trip_ping_def round_trip_ack_def
      round_trip_ack_with_ecn_def round_trip_reset_stream_def round_trip_stop_sending_def round_trip_crypto_def
          round_trip_new_token_def round_trip_stream_def round_trip_stream_with_offset_and_fin_def
              round_trip_max_data_def round_trip_max_stream_data_def round_trip_max_streams_def
                  round_trip_data_blocked_def round_trip_stream_data_blocked_def round_trip_streams_blocked_def
                      round_trip_new_connection_id_def round_trip_retire_connection_id_def
                          round_trip_path_challenge_def round_trip_path_response_def
                              round_trip_connection_close_quic_def round_trip_connection_close_app_def
                                  round_trip_handshake_done_def all_frames_round_trip_def)

lemma frame_error_tests: "unknown_frame_type" "rfc_ping_example" "rfc_padding_example"
  by code_simp+

section \<open>Connecting\<close>

text \<open>The tests of \<open>Connection::connect\<close>, on a platform.\<close>

definition connect_produces_valid_initial :: "('t, 'c) platform \<Rightarrow> bool" where
  "connect_produces_valid_initial pf \<longleftrightarrow> (case connect pf ''localhost'' of
       Inl e \<Rightarrow> False
     | Inr (_, packet) \<Rightarrow> 1200 \<le> length packet \<and> packet ! 0 AND 0x80 = 0x80)"

definition connect_and_reingest :: "('t, 'c) platform \<Rightarrow> bool" where
  "connect_and_reingest pf \<longleftrightarrow> (case connect pf ''localhost'' of
       Inl e \<Rightarrow> False
     | Inr (_, packet) \<Rightarrow> (case parse_long_header packet of
         Inl e \<Rightarrow> False
       | Inr (hdr, hdr_len) \<Rightarrow> (case server_initial_keys (pf_provider pf) (cid_bytes (lh_dst_cid hdr)) of
           Inl e \<Rightarrow> False
         | Inr server_keys \<Rightarrow> (case decrypt_initial packet hdr server_keys of
             Inl e \<Rightarrow> False
           | Inr (frames, pn) \<Rightarrow> pn = 0 \<and> frames \<noteq> [] \<and>
               list_all (\<lambda>f. case f of Crypto offset data \<Rightarrow> offset = 0 \<and> starts_with [0x01] data | _ \<Rightarrow> True) frames))))"

lemma top_bit: "(x :: u8) AND 0x80 \<noteq> 0 \<Longrightarrow> x AND 0x80 = 0x80"
proof -
  assume "x AND 0x80 \<noteq> 0"
  moreover have "(0x80 :: u8) = 2 ^ 7" by simp
  ultimately have "bit x 7" by (metis and_exp_eq_0_iff_not_bit)
  moreover have "n \<in> {0, 1, 2, 3, 4, 5, 6, 7}" if "n < 8" for n :: nat using that by auto
  ultimately show ?thesis by (intro bit_word_eqI) (fastforce simp: bit_and_iff)
qed

lemma connect_tests:
  assumes "connect pf ''localhost'' = Ok (c, packet)" and "client_new pf SkipVerify ''localhost'' = Inr t0"
    and "tls_write_hs pf t0 = (ch, kc, t1)" and "starts_with [0x01] ch"
    and "client_initial_keys (pf_provider pf) (dst_cid c) = Ok ck"
    and "server_initial_keys (pf_provider pf) (dst_cid c) = Ok sk" and "keys_match (keys_local ck) (keys_remote sk)"
    and "length ch + sample_len (keys_local ck) + tag_len (keys_local ck) + 2000 < 2 ^ 62"
    and "4 + sample_len (keys_local ck) \<le> 1100"
  shows "connect_produces_valid_initial pf \<and> connect_and_reingest pf"
proof -
  from assms(1) obtain dcid scid where b: "build_initial_packet ck dcid scid ch = Ok packet"
      and r: "random_bytes pf 0 8 = (Ok dcid :: (bytes, connection_error) result)"
        "random_bytes pf 1 8 = (Ok scid :: (bytes, connection_error) result)" and cid: "dst_cid c = dcid"
    by (rule connect_okD) (use assms(2,3,5) in auto)
  have l: "length dcid \<le> 20" "length scid \<le> 20"
    using length_random_bytes [OF r(1)] length_random_bytes [OF r(2)] by simp_all
  obtain hdr i m where p: "1200 \<le> length packet" "parse_long_header packet = Ok (hdr, i)"
      "lh_dst_cid hdr = ConnectionId dcid" "decrypt_initial packet hdr sk = Ok (Crypto 0 ch # replicate m Padding, 0)"
    using initial_packet [OF assms(7) l assms(8,9)] b by auto
  have "packet ! 0 AND 0x80 = 0x80" using parse_long_bit [OF p(2)] top_bit by blast
  then show ?thesis
    using p assms(1,4,6) cid
    by (auto simp: connect_produces_valid_initial_def connect_and_reingest_def list_all_iff)
qed

end
