(* ===== verification/Key_Tests.thy ===== *)
theory Key_Tests
  imports Tests Handshake
begin

text \<open>
  The unit tests that look at packet protection: the test of \<open>handshake.rs\<close> and the tests of
  \<open>connection.rs\<close> about the keys of a handshake, as programs on the keys, with the lemmas that they pass
  under what TLS documents; and the first packet of \<open>client_initial\<close>. The certificate of
  \<open>test_server_config\<close> is the parameter \<open>server_config\<close>.
\<close>

section \<open>Tests\<close>

text \<open>A test ends with \<open>Ok ()\<close> or with a panic; \<open>unwrap\<close> and \<open>expect\<close> turn an error into one.\<close>

type_synonym test = "(unit, unit) result"

definition unwrap :: "('a, 'e) result \<Rightarrow> ('a, unit) result" where
  "unwrap r = (case r of Inl e \<Rightarrow> Panics | Inr x \<Rightarrow> Ok x)"

definition assert_that :: "bool \<Rightarrow> test" where
  "assert_that b = (if b then Ok () else Panics)"

text \<open>\<open>encrypt_in_place\<close> with the tag appended, and \<open>decrypt_in_place\<close>, unwrapped.\<close>

definition seal_with :: "dir_keys \<Rightarrow> u64 \<Rightarrow> bytes \<Rightarrow> bytes \<Rightarrow> (bytes, unit) result" where
  "seal_with k pn aad pt = (case aead_encrypt k pn aad pt of None \<Rightarrow> Panics | Some (enc, tag) \<Rightarrow> Ok (enc @ tag))"

definition open_with :: "dir_keys \<Rightarrow> u64 \<Rightarrow> bytes \<Rightarrow> bytes \<Rightarrow> (bytes, unit) result" where
  "open_with k pn aad enc = (case aead_decrypt k pn aad enc of None \<Rightarrow> Panics | Some pt \<Rightarrow> Ok pt)"

section \<open>The first packet of \<open>client_initial\<close>\<close>

text \<open>The part of the test behind the header: the payload is decrypted and its first frame is looked at.\<close>

definition first_frame_is_hello :: "bytes \<Rightarrow> test" where
  "first_frame_is_hello plaintext =
     andthen (assert_that (plaintext \<noteq> [])) (\<lambda>_.
     andthen (unwrap (parse_frame plaintext)) (\<lambda>(frame, n).
     andthen (assert_that (0 < n)) (\<lambda>_.
     case frame of
       Crypto offset data \<Rightarrow>
         andthen (assert_that (offset = 0)) (\<lambda>_. assert_that (starts_with [0x01] data))
     | _ \<Rightarrow> Panics)))"

definition unprotect_first :: "quic_keys \<Rightarrow> bytes \<Rightarrow> nat \<Rightarrow> test" where
  "unprotect_first server_keys packet pn_offset =
     (let sl = sample_len (keys_local server_keys); sample_offset = pn_offset + 4 in
      andthen (assert_that (sample_offset + sl < length packet)) (\<lambda>_.
      andthen (slice packet sample_offset (sample_offset + sl)) (\<lambda>sample.
      andthen (index_at packet 0) (\<lambda>first_byte.
      andthen (index_at packet pn_offset) (\<lambda>pn_byte.
      case hp_decrypt (keys_remote server_keys) sample first_byte [pn_byte] of
        None \<Rightarrow> Panics
      | Some (first_byte, pn_encrypted) \<Rightarrow>
          let pn_len = unat (first_byte AND 0x03) + 1 in
          andthen (assert_that (pn_len = 1)) (\<lambda>_.
          andthen (index_at pn_encrypted 0) (\<lambda>pn_byte.
          let pn_full = ucast pn_byte :: u64; header_total = pn_offset + pn_len in
          andthen (slice packet 0 header_total) (\<lambda>aad.
          andthen (store_at aad 0 first_byte) (\<lambda>aad.
          andthen (store_at aad pn_offset pn_byte) (\<lambda>aad.
          andthen (slice_from packet header_total) (\<lambda>encrypted_payload.
          andthen (open_with (keys_remote server_keys) pn_full aad encrypted_payload) first_frame_is_hello)))))))))))"

definition client_initial_encrypt_decrypt_roundtrip :: "('t, 'c) platform \<Rightarrow> test" where
  "client_initial_encrypt_decrypt_roundtrip pf =
     andthen (unwrap (client_initial pf ''localhost'')) (\<lambda>packet.
     andthen (assert_that (MIN_INITIAL_SIZE \<le> length packet)) (\<lambda>_.
     andthen (index_at packet 0) (\<lambda>first_byte.
     andthen (assert_that (first_byte AND 0x80 = 0x80)) (\<lambda>_.
     andthen (index_at packet 1) (\<lambda>v1. andthen (index_at packet 2) (\<lambda>v2.
     andthen (index_at packet 3) (\<lambda>v3. andthen (index_at packet 4) (\<lambda>v4.
     andthen (assert_that (be32 v1 v2 v3 v4 = VERSION_1)) (\<lambda>_.
     andthen (index_at packet 5) (\<lambda>l.
     let dcid_len = unat l in
     andthen (assert_that (0 < dcid_len \<and> dcid_len \<le> 20)) (\<lambda>_.
     andthen (slice packet 6 (6 + dcid_len)) (\<lambda>dcid.
     let scid_pos = 6 + dcid_len in
     andthen (index_at packet scid_pos) (\<lambda>l.
     let scid_len = unat l in
     andthen (slice packet (scid_pos + 1) (scid_pos + 1 + scid_len)) (\<lambda>scid.
     andthen (unwrap (server_initial_keys (pf_provider pf) dcid)) (\<lambda>server_keys.
     let hdr_prefix = 1 + 4 + 1 + dcid_len + 1 + scid_len;
         token_len_size = 1;
         length_field_size = 2 in
     unprotect_first server_keys packet (hdr_prefix + token_len_size + length_field_size))))))))))))))))"

section \<open>The keys of a handshake\<close>

text \<open>
  \<open>loop { let n = server.egest(&mut buf).unwrap(); if n == 0 { break } .. }\<close>: the packets, in order.
\<close>

partial_function (option) egest_packets ::
  "nat \<Rightarrow> bytes list \<Rightarrow> 't conn \<Rightarrow> ((bytes list, unit) result \<times> 't conn) option" where
  "egest_packets cap pkts server = (case egest cap server of
       (Inl e, server) \<Rightarrow> Some (Panics, server)
     | (Inr p, server) \<Rightarrow> if p = [] then Some (Ok pkts, server) else egest_packets cap (pkts @ [p]) server)"

text \<open>What the server seals, the client opens, before the second packet; \<open>b"hdr"\<close> is the header.\<close>

definition keys_before_second :: "'t conn \<Rightarrow> 'u conn \<Rightarrow> test" where
  "keys_before_second client server =
     (if has_keys (handshake_space client) \<and> has_keys (handshake_space server) then
        andthen (unwrap (ok_or () (local_keys (handshake_space server)))) (\<lambda>srv_local.
        andthen (unwrap (ok_or () (remote_keys (handshake_space client)))) (\<lambda>cli_remote.
        andthen (seal_with srv_local 0 (ascii ''hdr'') (ascii ''hs key test before pkt1'')) (\<lambda>enc.
        andthen (open_with cli_remote 0 (ascii ''hdr'') enc) (\<lambda>_. Ok ()))))
      else Ok ())"

text \<open>The two keys are the same: they encrypt alike, and one opens what the other sealed.\<close>

definition keys_after_second :: "'t conn \<Rightarrow> 'u conn \<Rightarrow> test" where
  "keys_after_second client server =
     (let plaintext = ascii ''test data for key comparison''; hdr = ascii ''hdr'' in
      andthen (assert_that (has_keys (handshake_space server))) (\<lambda>_.
      andthen (assert_that (has_keys (handshake_space client))) (\<lambda>_.
      andthen (unwrap (ok_or () (local_keys (handshake_space server)))) (\<lambda>srv_local.
      andthen (unwrap (ok_or () (remote_keys (handshake_space client)))) (\<lambda>cli_remote.
      andthen (seal_with srv_local 0 hdr plaintext) (\<lambda>enc1.
      andthen (seal_with cli_remote 0 hdr plaintext) (\<lambda>enc2.
      andthen (slice enc1 0 (length plaintext)) (\<lambda>ct1.
      andthen (slice enc2 0 (length plaintext)) (\<lambda>ct2.
      andthen (assert_that (ct1 = ct2)) (\<lambda>_.
      andthen (open_with cli_remote 0 hdr enc1) (\<lambda>dec. assert_that (dec = plaintext))))))))))))"

definition hs_keys_match ::
  "('t, 'c) platform \<Rightarrow> ('u, 'd) platform \<Rightarrow> nat \<Rightarrow> 'd \<Rightarrow> test option" where
  "hs_keys_match pf pf' now server_config =
     (case connect pf ''localhost'' of
        Inl e \<Rightarrow> Some Panics
      | Inr (client, initial) \<Rightarrow> (case accept pf' now initial server_config of
          Inl e \<Rightarrow> Some Panics
        | Inr server \<Rightarrow> Option.bind (egest_packets 4096 [] server) (\<lambda>(r, server).
            Some (andthen r (\<lambda>server_pkts.
            andthen (index_at server_pkts 0) (\<lambda>pkt.
            case ingest pf now pkt client of (r, client) \<Rightarrow>
            andthen (unwrap r) (\<lambda>_.
            andthen (keys_before_second client server) (\<lambda>_.
            case (if 1 < length server_pkts then ingest pf now (server_pkts ! 1) client else (Ok 0, client)) of (r,
                client) \<Rightarrow>
            andthen (unwrap r) (\<lambda>_. keys_after_second client server)))))))))"

text \<open>The keys that \<open>write_hs\<close> reports for the handshake, if any.\<close>

definition handshake_keys_of :: "key_change option \<Rightarrow> quic_keys option" where
  "handshake_keys_of kc = (case kc of Some (HandshakeKeys k) \<Rightarrow> Some k | _ \<Rightarrow> None)"

text \<open>Both directions: what one side's local keys seal, the other's remote keys open.\<close>

definition keys_cross :: "quic_keys option \<Rightarrow> quic_keys option \<Rightarrow> test" where
  "keys_cross server_hs_keys client_hs_keys = (case (server_hs_keys, client_hs_keys) of
       (Some srv_keys, Some cli_keys) \<Rightarrow>
         let pt = ascii ''test handshake data'' in
         andthen (seal_with (keys_local srv_keys) 0 (ascii ''hdr'') pt) (\<lambda>enc.
         andthen (open_with (keys_remote cli_keys) 0 (ascii ''hdr'') enc) (\<lambda>dec.
         andthen (assert_that (dec = pt)) (\<lambda>_.
         andthen (seal_with (keys_local cli_keys) 1 (ascii ''hdr2'') pt) (\<lambda>enc2.
         andthen (open_with (keys_remote srv_keys) 1 (ascii ''hdr2'') enc2) (\<lambda>dec2. assert_that (dec2 = pt))))))
     | _ \<Rightarrow> Panics)"

definition rustls_handshake_keys_match ::
  "('t, 'c) platform \<Rightarrow> ('u, 'd) platform \<Rightarrow> 'd \<Rightarrow> test" where
  "rustls_handshake_keys_match pf pf' server_config =
     andthen (assert_that (server_name_ok pf ''localhost'')) (\<lambda>_.
     andthen (unwrap (tls_result id (client_new pf SkipVerify ''localhost''))) (\<lambda>client.
     andthen (unwrap (tls_result id (server_new pf' server_config))) (\<lambda>server.
     case tls_write_hs pf client of (ch, _, client) \<Rightarrow>
     andthen (assert_that (ch \<noteq> [])) (\<lambda>_.
     case read_hs pf' ch server of (r, server) \<Rightarrow>
     andthen (unwrap r) (\<lambda>_.
     case tls_write_hs pf' server of (sh, server_kc1, server) \<Rightarrow>
     case tls_write_hs pf' server of (hs_data, server_kc2, server) \<Rightarrow>
     case (if sh \<noteq> [] then read_hs pf sh client else (Ok (), client)) of (r, client) \<Rightarrow>
     andthen (unwrap r) (\<lambda>_.
     case tls_write_hs pf client of (client_resp, client_kc1, client) \<Rightarrow>
     keys_cross (handshake_keys_of server_kc1) (handshake_keys_of client_kc1)))))))"

text \<open>The last test is empty.\<close>

definition full_handshake :: test where
  "full_handshake = assert_that True"

section \<open>They pass\<close>

lemma test_simps [simp]: "assert_that True = Ok ()" "unwrap (Inr x) = Ok x"
  by (simp_all add: assert_that_def unwrap_def)

text \<open>Removing header protection from exactly the bytes that were protected gives them back.\<close>

definition hp_inverse :: "dir_keys \<Rightarrow> dir_keys \<Rightarrow> bool" where
  "hp_inverse a b \<longleftrightarrow> (\<forall>s f pn f' pn'. length s = sample_len a \<and> hp_encrypt a s f pn = Some (f', pn') \<longrightarrow>
     hp_decrypt b s f' pn' = Some (f, pn))"

lemma hs_seal_bytes:
  assumes "aead_encrypt k pn (x # t @ [0]) pl = Some (c, tag)" and "3 + sample_len k \<le> length c + length tag"
    and "hp_encrypt k (take (sample_len k) (drop 3 (c @ tag))) x [0] = Some (f, [y])"
  shows "hs_seal k (x # t @ [0]) (Suc (length t)) pl pn 1 = Ok (f # t @ [y] @ c @ tag)"
  using assms by (simp add: hs_seal_def Let_def slice_def index_at_def store_at_def nth_append list_update_append)

text \<open>The packet of \<open>build_and_protect_initial\<close>, byte by byte.\<close>

lemma initial_bytes:
  assumes k: "keys_match ka kb" "ka = keys_local ck" and d: "length dst \<le> 20" "length src \<le> 20"
    and size: "length ch + tag_len ka \<le> 14000" and min: "4 + sample_len ka \<le> 1100"
  obtains f y v c tag m where
    "build_and_protect_initial ck dst src ch =
       Ok (f # to_be32 VERSION_1 @ [of_nat (length dst)] @ dst @ [of_nat (length src)] @ src @ [0] @ v @ [y] @ c @ tag)"
    and "length v = 2" and "length tag = tag_len ka" and "1200 \<le> 11 + length dst + length src + length c + length tag"
    and "aead_encrypt ka 0 (0xc0 # to_be32 VERSION_1 @ [of_nat (length dst)] @ dst @ [of_nat (length src)] @ src @
        [0] @ v @ [0])
       (frame_wire (Crypto 0 ch) @ replicate m 0) = Some (c, tag)"
    and "hp_encrypt ka (take (sample_len ka) (drop 3 (c @ tag))) 0xc0 [0] = Some (f, [y])"
        and "form_bits f = form_bits 0xc0"
proof -
  let ?w = "frame_wire (Crypto 0 ch)"
  have ch: "length_ok ch" using size by (simp add: length_ok_def)
  have w: "length ?w \<le> length ch + 10"
    using encoded_len_le_8 [of "of_nat (length ch)"] by (simp add: sized_bytes_def varint_bytes_0)
  define n where "n = max (length ?w) (1200 - (7 + length dst + length src + 4 + tag_len ka))"
  define len where "len = (of_nat (1 + n + tag_len ka) :: u64)"
  define m where "m = n - length ?w"
  have l62: "1 + n + tag_len ka < 2 ^ 62" using w size by (simp add: n_def)
  have un: "unat len = 1 + n + tag_len ka" unfolding len_def using l62 by (rule unat_of_nat_u64)
  have small: "len < 16384" using w size by (simp add: word_less_nat_alt un n_def)
  have v: "length (varint_bytes len) = 2"
    using small un d by (auto simp: length_varint_bytes encoded_len_def word_less_nat_alt word_le_nat_alt n_def)
  let ?p = "?w @ replicate m 0" and ?h = "long_head InitialSpace VERSION_1 dst src 1 len"
  have p: "length ?p = n" by (simp add: n_def m_def)
  have lb: "long_byte InitialSpace (Suc 0) = 0xc0" by (simp add: long_byte_def space_type_bits_def)
  have h: "?h = 0xc0 # to_be32 VERSION_1 @ [of_nat (length dst)] @ dst @ [of_nat (length src)] @ src @ [0] @
      varint_bytes len"
    by (simp add: long_head_def long_prefix_def sized_cid_def space_token_def token_wire_def varint_bytes_0 lb)
  have b: "build_and_protect_initial ck dst src ch = hs_seal ka (?h @ [0]) (length ?h) ?p 0 1"
    using build_and_protect_eq [OF d ch, of ck] small l62 k(2) by (simp add: n_def len_def m_def)
  obtain c tag where a: "aead_encrypt ka 0 (?h @ [0]) ?p = Some (c, tag)" "length c = n" "length tag = tag_len ka"
    using k(1) unfolding p [symmetric] keys_match_def aead_match_def by blast
  have big: "1200 \<le> 11 + length dst + length src + length c + length tag" using a by (simp add: n_def)
  let ?s = "take (sample_len ka) (drop 3 (c @ tag))"
  have hp: "\<exists>f' pn'. hp_encrypt ka s f pn = Some (f', pn') \<and> length pn' = length pn \<and> form_bits f' = form_bits f"
    if "length s = sample_len ka" "pn \<noteq> []" "length pn \<le> 4" for s f pn
    using k(1) that unfolding keys_match_def hp_match_def by blast
  have s: "length ?s = sample_len ka" using big min d by simp
  obtain f pn where e: "hp_encrypt ka ?s 0xc0 [0] = Some (f, pn)" "length pn = 1" "form_bits f = form_bits 0xc0"
    using hp [of ?s "[0]" "0xc0"] s by auto
  obtain y where y: "pn = [y]" using e(2) by (cases pn) auto
  let ?t = "to_be32 VERSION_1 @ [of_nat (length dst)] @ dst @ [of_nat (length src)] @ src @ [0] @ varint_bytes len"
  have a': "aead_encrypt ka 0 (0xc0 # ?t @ [0]) ?p = Some (c, tag)" using a(1) unfolding h by simp
  have "hs_seal ka (0xc0 # ?t @ [0]) (Suc (length ?t)) ?p 0 1 = Ok (f # ?t @ [y] @ c @ tag)"
    using big min d e(1) y by (intro hs_seal_bytes [OF a']) simp_all
  then have "build_and_protect_initial ck dst src ch = Ok (f # ?t @ [y] @ c @ tag)"
    unfolding b h by simp
  then show thesis using that [of f "varint_bytes len" y c tag m] v a' a(3) big e y by simp
qed

lemma aead_open:
  assumes "aead_match a b" and "aead_encrypt a n aad p = Some (c, tag)"
  shows "aead_decrypt b n aad (c @ tag) = Some p"
proof -
  obtain c' tag' where "aead_encrypt a n aad p = Some (c', tag')" "aead_decrypt b n aad (c' @ tag') = Some p"
    using assms(1) unfolding aead_match_def by blast
  with assms(2) show ?thesis by simp
qed

lemma unprotect_first_passes:
  assumes k: "keys_match ka (keys_remote sk)" "hp_inverse ka (keys_remote sk)"
      "sample_len (keys_local sk) = sample_len ka"
    and a: "aead_encrypt ka 0 (0xc0 # t @ [0]) pl = Some (c, tag)"
    and e: "hp_encrypt ka (take (sample_len ka) (drop 3 (c @ tag))) 0xc0 [0] = Some (f, [y])"
    and l: "3 + sample_len ka < length c + length tag" and pl: "first_frame_is_hello pl = Ok ()"
  shows "unprotect_first sk (f # t @ [y] @ c @ tag) (Suc (length t)) = Ok ()"
proof -
  let ?p = "f # t @ [y] @ c @ tag" and ?o = "Suc (length t)" and ?s = "take (sample_len ka) (drop 3 (c @ tag))"
  have "aead_decrypt (keys_remote sk) 0 (0xc0 # t @ [0]) (c @ tag) = Some pl"
    using k(1) a unfolding keys_match_def by (blast intro: aead_open)
  then have o: "open_with (keys_remote sk) 0 (0xc0 # t @ [0]) (c @ tag) = Ok pl" by (simp add: open_with_def)
  have d: "hp_decrypt (keys_remote sk) ?s f [y] = Some (0xc0, [0])"
    using k(2) e l by (simp add: hp_inverse_def)
  have i: "index_at ?p 0 = (Ok f :: (u8, unit) result)" "index_at ?p ?o = (Ok y :: (u8, unit) result)"
    by (simp_all add: index_at_def nth_append)
  have s: "slice ?p (?o + 4) (?o + 4 + sample_len ka) = (Ok ?s :: (bytes, unit) result)"
    using l by (simp add: slice_def numeral_eq_Suc)
  have h: "slice ?p 0 (?o + 1) = (Ok (f # t @ [y]) :: (bytes, unit) result)"
    "store_at (f # t @ [y]) 0 0xc0 = (Ok (0xc0 # t @ [y]) :: (bytes, unit) result)"
    "store_at (0xc0 # t @ [y]) ?o 0 = (Ok (0xc0 # t @ [0]) :: (bytes, unit) result)"
    "slice_from ?p (?o + 1) = (Ok (c @ tag) :: (bytes, unit) result)"
    by (simp_all add: slice_def store_at_def slice_from_def list_update_append)
  have n: "unat ((0xc0 :: u8) AND 0x03) + 1 = 1" by simp
  have x: "index_at [0 :: u8] 0 = (Ok 0 :: (u8, unit) result)" by (simp add: index_at_def)
  have "?o + 4 + sample_len ka < length ?p" using l by simp
  then show ?thesis
    unfolding unprotect_first_def Let_def k(3) s i andthen_Inr d option.case prod.case n x h
    using o pl by (simp add: h [simplified])
qed

lemma hello_first: "length_ok ch \<Longrightarrow> starts_with [1] ch \<Longrightarrow> first_frame_is_hello (frame_wire (Crypto 0 ch) @ r) = Ok ()"
  using parse_frame_wire [of "Crypto 0 ch" r] by (simp add: first_frame_is_hello_def length_ok_def)

text \<open>
  What a client needs of its environment: a name, entropy, TLS with a ClientHello of bounded length, and
  Initial keys that match the server's.
\<close>

lemma client_initial_eq:
  assumes "server_name_ok pf name" and "client_new pf EmptyRoots name = Inr t" and "tls_write_hs pf t = (ch, kc, t')"
    and "ch \<noteq> []" and "entropy pf 0 = Some e0" and "entropy pf 1 = Some e1"
    and "client_initial_keys (pf_provider pf) (resize 8 0 e0) = Ok ck"
  shows "client_initial pf name = build_and_protect_initial ck (resize 8 0 e0) (resize 8 0 e1) ch"
  using assms by (simp add: client_initial_def tls_result_def random_bytes_def)

lemma client_initial_test:
  assumes "server_name_ok pf ''localhost''" and "client_new pf EmptyRoots ''localhost'' = Inr t"
    and "tls_write_hs pf t = (ch, kc, t')" and "starts_with [0x01] ch"
    and "entropy pf 0 = Some e0" and "entropy pf 1 = Some e1"
    and ck: "client_initial_keys (pf_provider pf) (resize 8 0 e0) = Ok ck"
    and sk: "server_initial_keys (pf_provider pf) (resize 8 0 e0) = Ok sk"
    and k: "keys_match (keys_local ck) (keys_remote sk)" "hp_inverse (keys_local ck) (keys_remote sk)"
      "sample_len (keys_local sk) = sample_len (keys_local ck)"
    and size: "length ch + tag_len (keys_local ck) \<le> 14000" "4 + sample_len (keys_local ck) \<le> 1100"
  shows "client_initial_encrypt_decrypt_roundtrip pf = Ok ()"
proof -
  define dst where "dst = resize 8 0 e0"
  define src where "src = resize 8 0 e1"
  have d: "length dst = 8" "length src = 8" by (simp_all add: dst_def src_def resize_def)
  have "ch \<noteq> []" using assms(4) by (auto simp: starts_with_def)
  with assms have c: "client_initial pf ''localhost'' = build_and_protect_initial ck dst src ch"
    unfolding dst_def src_def by (intro client_initial_eq) simp_all
  obtain f y v c tag m where
    p: "build_and_protect_initial ck dst src ch =
       Ok (f # to_be32 VERSION_1 @ [of_nat (length dst)] @ dst @ [of_nat (length src)] @ src @ [0] @ v @ [y] @ c @ tag)"
    and v: "length v = 2" and b: "1200 \<le> 11 + length dst + length src + length c + length tag"
    and a: "aead_encrypt (keys_local ck) 0 (0xc0 # to_be32 VERSION_1 @ [of_nat (length dst)] @ dst @
        [of_nat (length src)] @ src @ [0] @ v @ [0])
       (frame_wire (Crypto 0 ch) @ replicate m 0) = Some (c, tag)"
    and e: "hp_encrypt (keys_local ck) (take (sample_len (keys_local ck)) (drop 3 (c @ tag))) 0xc0 [0] = Some (f, [y])"
    and f: "form_bits f = form_bits 0xc0"
    by (rule initial_bytes [OF k(1) refl _ _ size, of dst src]) (use d in auto)
  define t where "t = to_be32 VERSION_1 @ [8] @ dst @ [8] @ src @ [0] @ v"
  define packet where "packet = f # t @ [y] @ c @ tag"
  have lt: "length t = 25" using d v by (simp add: t_def to_be32_def)
  have pk: "client_initial pf ''localhost'' = Ok packet" unfolding c p packet_def t_def using d by simp
  have "first_frame_is_hello (frame_wire (Crypto 0 ch) @ replicate m 0) = Ok ()"
    using size assms(4) by (intro hello_first) (simp_all add: length_ok_def)
  then have "unprotect_first sk packet (Suc (length t)) = Ok ()"
    unfolding packet_def using a e b d size by (intro unprotect_first_passes [OF k]) (simp_all add: t_def)
  then have u: "unprotect_first sk packet 26 = Ok ()" by (simp add: lt)
  have i: "index_at packet n = (Ok (packet ! n) :: (u8, unit) result)" if "n < 26" for n
    using that lt by (simp add: index_at_def packet_def)
  have n: "packet ! 0 AND 0x80 = 0x80" "packet ! 5 = 8" "packet ! 14 = 8"
    "be32 (packet ! 1) (packet ! 2) (packet ! 3) (packet ! 4) = VERSION_1"
    using form_bits_long [OF f] top_bit d
    by (simp_all add: packet_def t_def to_be32_def be32_parts nth_append nth_Cons')
  have s: "slice packet 6 14 = (Ok dst :: (bytes, unit) result)" "slice packet 15 23 = (Ok src :: (bytes, unit) result)"
    using d by (simp_all add: slice_def packet_def t_def to_be32_def)
  have "1200 \<le> length packet" using b lt d by (simp add: packet_def)
  then show ?thesis
    using u sk n s by (simp add: client_initial_encrypt_decrypt_roundtrip_def pk MIN_INITIAL_SIZE_def i dst_def)
qed

lemma egest_packets_next:
  assumes "egest cap s = (Ok p, s')" and "p \<noteq> []"
  shows "egest_packets cap pkts s = egest_packets cap (pkts @ [p]) s'"
  using assms by (subst egest_packets.simps) simp

lemma seal_open_with:
  assumes "keys_match a b"
  shows "\<exists>enc. seal_with a n aad pt = Ok enc \<and> open_with b n aad enc = Ok pt"
proof -
  obtain c tag where "aead_encrypt a n aad pt = Some (c, tag)" "aead_decrypt b n aad (c @ tag) = Some pt"
    using assms unfolding keys_match_def aead_match_def by blast
  then show ?thesis by (simp add: seal_with_def open_with_def)
qed

text \<open>The two parts of \<open>hs_keys_match\<close> that look at the keys.\<close>

lemma keys_agree:
  assumes c: "sp_keys (handshake_space c) = Some hkc" and s: "sp_keys (handshake_space s) = Some hks"
    and k: "keys_match (keys_local hks) (keys_remote hkc)"
    and same: "aead_encrypt (keys_remote hkc) = aead_encrypt (keys_local hks)"
  shows "keys_before_second c s = Ok ()" and "keys_after_second c s = Ok ()"
proof -
  have l: "has_keys (handshake_space c)" "has_keys (handshake_space s)"
    "remote_keys (handshake_space c) = Some (keys_remote hkc)" "local_keys (handshake_space s) = Some (keys_local hks)"
    using c s by (simp_all add: has_keys_def remote_keys_def local_keys_def)
  show "keys_before_second c s = Ok ()"
    using seal_open_with [OF k, of 0 "ascii ''hdr''" "ascii ''hs key test before pkt1''"] l
    by (auto simp: keys_before_second_def ok_or_def)
  let ?pt = "ascii ''test data for key comparison''" and ?hdr = "ascii ''hdr''"
  obtain ct tag where e: "aead_encrypt (keys_local hks) 0 ?hdr ?pt = Some (ct, tag)" "length ct = length ?pt"
      "aead_decrypt (keys_remote hkc) 0 ?hdr (ct @ tag) = Some ?pt"
    using k unfolding keys_match_def aead_match_def by blast
  then have "seal_with (keys_local hks) 0 ?hdr ?pt = Ok (ct @ tag)" "seal_with (keys_remote hkc) 0 ?hdr ?pt =
      Ok (ct @ tag)"
    "open_with (keys_remote hkc) 0 ?hdr (ct @ tag) = Ok ?pt"
      "slice (ct @ tag) 0 (length ?pt) = (Ok ct :: (bytes, unit) result)"
    by (simp_all add: seal_with_def same open_with_def slice_def)
  then show "keys_after_second c s = Ok ()"
    using l by (simp add: keys_after_second_def Let_def ok_or_def)
qed

lemma hs_keys_match_test:
  fixes pf :: "('t, 'p) platform" and pf' :: "('u, 'q) platform"
  assumes c: "connect pf ''localhost'' = Ok (c, packet)"
    and t: "client_new pf SkipVerify ''localhost'' = Inr t0" "tls_write_hs pf t0 = (ch, kc, t1)"
    and k: "client_initial_keys (pf_provider pf) (dst_cid c) = Ok ck"
      "server_initial_keys (pf_provider pf') (dst_cid c) = Ok sk"
      "keys_match (keys_local ck) (keys_remote sk)"
    and size: "length ch + sample_len (keys_local ck) + tag_len (keys_local ck) + 2000 < 2 ^ 62"
      "4 + sample_len (keys_local ck) \<le> 1100"
    and s: "server_new pf' cfg = Inr u0" "tls_read_hs pf' u0 ch = (None, u1)"
    and script: "client_script pf t1 sh ee fin hkc okc" "server_script pf' u1 sh ee hks oks"
    and flights: "flight_ok 4096 (keys_local sk) (keys_remote ck) sh"
      "flight_ok 4096 (keys_local hks) (keys_remote hkc) ee" "flight_ok 4096 (keys_local oks) (keys_remote okc) []"
    and same: "aead_encrypt (keys_remote hkc) = aead_encrypt (keys_local hks)"
  shows "hs_keys_match pf pf' now cfg = Some (Ok ())"
proof -
  obtain s0 p1 p2 p3 s1 s2 s3 c1 c2 c3 where a: "accept pf' now packet cfg = Ok s0"
    and e: "egest 4096 s0 = (Ok p1, s1)" "egest 4096 s1 = (Ok p2, s2)" "egest 4096 s2 = (Ok p3, s3)"
    and i: "ingest pf now p1 c = (Ok (length p1), c1)" "ingest pf now p2 c1 = (Ok (length p2), c2)"
    and p: "p1 \<noteq> []" "p2 \<noteq> []" "p3 \<noteq> []"
    and h: "sp_keys (handshake_space c1) = Some hkc" "sp_keys (handshake_space c2) = Some hkc"
    and d: "server_done sk hks oks s0 s3" "next_to_send s3 = None"
    using handshake_from_connect [OF assms(1-15), of now] by (auto simp: get_space_eqs)
  have s3: "conn_ok s3" "state s3 = Established" "sp_keys (handshake_space s3) = Some hks"
    using d(1) by (simp_all add: server_done_def get_space_eqs)
  have "egest 4096 s3 = (Ok [], s3)" using s3 d(2) by (simp add: egest_eq)
  then have "egest_packets 4096 [p1, p2, p3] s3 = Some (Ok [p1, p2, p3], s3)" by (subst egest_packets.simps) simp
  then have "egest_packets 4096 [] s0 = Some (Ok [p1, p2, p3], s3)"
    using egest_packets_next [OF e(1) p(1)] egest_packets_next [OF e(2) p(2)] egest_packets_next [OF e(3) p(3)] by simp
  moreover have "keys_before_second c1 s3 = Ok ()" "keys_after_second c2 s3 = Ok ()"
    using keys_agree [OF h(1) s3(3) flight_okD(1) [OF flights(2)] same]
      keys_agree [OF h(2) s3(3) flight_okD(1) [OF flights(2)] same] by simp_all
  ultimately show ?thesis using c a i by (simp add: hs_keys_match_def index_at_def)
qed

lemma rustls_handshake_keys_match_test:
  assumes "server_name_ok pf ''localhost''" and "client_new pf SkipVerify ''localhost'' = Inr t0"
    and "server_new pf' cfg = Inr u0" and "tls_write_hs pf t0 = (ch, kc, t1)" and "ch \<noteq> []"
    and "tls_read_hs pf' u0 ch = (None, u1)"
    and "client_script pf t1 sh ee fin hkc okc" and "server_script pf' u1 sh ee hks oks"
    and k: "keys_match (keys_local hks) (keys_remote hkc)" "keys_match (keys_local hkc) (keys_remote hks)"
  shows "rustls_handshake_keys_match pf pf' cfg = Ok ()"
proof -
  obtain t2 t3 u2 u3 where "tls_read_hs pf t1 sh = (None, t2)" "tls_write_hs pf t2 = ([], Some (HandshakeKeys hkc), t3)"
      "tls_write_hs pf' u1 = (sh, Some (HandshakeKeys hks), u2)" "tls_write_hs pf' u2 = (ee, Some (OneRttKeys oks), u3)"
      "sh \<noteq> []"
    using assms(7,8) unfolding client_script_def server_script_def by blast
  moreover obtain e1 e2 where "seal_with (keys_local hks) 0 (ascii ''hdr'') (ascii ''test handshake data'') = Ok e1"
      "open_with (keys_remote hkc) 0 (ascii ''hdr'') e1 = Ok (ascii ''test handshake data'')"
      "seal_with (keys_local hkc) 1 (ascii ''hdr2'') (ascii ''test handshake data'') = Ok e2"
      "open_with (keys_remote hks) 1 (ascii ''hdr2'') e2 = Ok (ascii ''test handshake data'')"
    using seal_open_with [OF k(1)] seal_open_with [OF k(2)] by blast
  ultimately show ?thesis
    using assms(1-6) by (simp add: rustls_handshake_keys_match_def tls_result_def read_hs_def handshake_keys_of_def
        keys_cross_def)
qed

section \<open>On the concrete platform\<close>

lemma toy_inverse: "hp_inverse toy_dir_keys toy_dir_keys"
  unfolding hp_inverse_def
proof (intro allI impI)
  fix s f pn f' pn' assume a: "length s = sample_len toy_dir_keys \<and> hp_encrypt toy_dir_keys s f pn = Some (f', pn')"
  define b where "b = (if f AND 0x80 \<noteq> 0 then 0x0f else 0x1f :: u8)"
  define n where "n = unat (f AND 3) + 1"
  let ?m = "take n (drop 1 s)"
  let ?A = "map2 (XOR) (take n pn) ?m"
  have e: "length s = 16" "length pn \<le> 4" "f' = f XOR (s ! 0 AND b)" "pn' = ?A @ drop n pn"
    using a by (auto simp: toy_dir_keys_def hp_mask_def Let_def b_def n_def split: if_splits)
  have n: "n \<le> 4" using low_bits_2 [of f] by (auto simp: n_def)
  have top: "f' AND 0x80 = f AND 0x80" by (simp add: e b_def xor_mask_top)
  have l: "length pn' \<le> 4" and p: "take n pn' = ?A" "drop n pn' = drop n pn" using e n by (auto simp: min_def)
  have x: "f' XOR (s ! 0 AND b) = f" by (simp add: e(3) xor.assoc)
  have "hp_decrypt toy_dir_keys s f' pn' = Some (f, map2 (XOR) (take n pn') ?m @ drop n pn')"
    using e(1) l x top by (simp add: toy_dir_keys_def hp_mask_def Let_def b_def n_def)
  moreover have "map2 (XOR) ?A ?m = take n pn" using e(1) n by (intro map2_xor_twice) simp
  ultimately show "hp_decrypt toy_dir_keys s f' pn' = Some (f, pn)" by (simp add: p)
qed

lemma toy_connects_localhost: "\<exists>packet. connect toy_platform ''localhost'' = Ok (toy_client, packet)"
proof -
  have "connect toy_platform ''localhost'' = connect toy_platform ''a''" by (simp add: connect_def toy_platform_def)
  then show ?thesis using toy_connects by simp
qed

lemma toy_key_tests:
  "client_initial_encrypt_decrypt_roundtrip toy_platform = Ok ()"
  "rustls_handshake_keys_match toy_platform toy_platform 0 = Ok ()"
  "hs_keys_match toy_platform toy_platform 0 0 = Some (Ok ())"
proof -
  have t: "server_name_ok toy_platform ''localhost''" "client_new toy_platform v ''localhost'' = Inr 0"
    "entropy toy_platform i = Some (replicate 8 (of_nat i))" for v i
    by (simp_all add: toy_platform_def)
  have k: "keys_local toy_keys = toy_dir_keys" "keys_remote toy_keys = toy_dir_keys" by (simp_all add: toy_keys_def)
  show "client_initial_encrypt_decrypt_roundtrip toy_platform = Ok ()"
    using client_initial_test [OF t(1,2) toy_tls(2) _ t(3) t(3) toy_initial_keys toy_flights(1)] toy_inverse
    by (simp add: k starts_with_def toy_dir_keys_def)
  show "rustls_handshake_keys_match toy_platform toy_platform 0 = Ok ()"
    by (rule rustls_handshake_keys_match_test [OF t(1,2) toy_tls(3,2) _ toy_tls(4-6) toy_flights(1,1)]) simp
  obtain packet where c: "connect toy_platform ''localhost'' = Ok (toy_client, packet)"
      using toy_connects_localhost by blast
  have f: "flight_ok 4096 a b d" if "flight_ok 2048 a b d" for a b d using that by (simp add: flight_ok_def)
  have "aead_encrypt (keys_remote toy_keys) = aead_encrypt (keys_local toy_keys)" by (simp add: k)
  then show "hs_keys_match toy_platform toy_platform 0 0 = Some (Ok ())"
    by (rule hs_keys_match_test [OF c t(2) toy_tls(2) toy_initial_keys toy_flights(1,5,6) toy_tls(3-6)
      toy_flights(2-4) [THEN f]])
qed

text \<open>
  C24: the first packet of \<open>client_initial\<close>. When TLS has a ClientHello of up to 14000 bytes less the tag
  and the system has entropy, there is a packet of at least 1200 bytes; its header parses as an Initial
  packet of version 1 with two connection IDs of 8 random bytes, and a server with matching Initial keys
  decrypts it to packet number 0 and the CRYPTO frame at offset 0 with the ClientHello, followed by
  PADDING only. Nothing is missing and nothing panics.
\<close>

theorem client_initial_opens:
  assumes "server_name_ok pf name" and "client_new pf EmptyRoots name = Inr t" and "tls_write_hs pf t = (ch, kc, t')"
    and "ch \<noteq> []" and "entropy pf 0 = Some e0" and "entropy pf 1 = Some e1"
    and "client_initial_keys (pf_provider pf) (resize 8 0 e0) = Ok ck"
    and "keys_match (keys_local ck) (keys_remote sk)" and "keys_typed (keys_local ck)"
    and "length ch + tag_len (keys_local ck) \<le> 14000" and "4 + sample_len (keys_local ck) \<le> 1100"
  shows "\<exists>pkt hdr i m. client_initial pf name = Ok pkt \<and> 1200 \<le> length pkt \<and>
     parse_long_header pkt = Ok (hdr, i) \<and> lh_ty hdr = Initial \<and> lh_version hdr = VERSION_1 \<and>
     lh_dst_cid hdr = ConnectionId (resize 8 0 e0) \<and> lh_src_cid hdr = ConnectionId (resize 8 0 e1) \<and>
     decrypt_initial pkt hdr sk = Ok (Crypto 0 ch # replicate m Padding, 0)"
proof -
  have "length (resize 8 0 e0) \<le> 20" "length (resize 8 0 e1) \<le> 20" by (simp_all add: resize_def)
  from handshake_initial [OF assms(8,9) this assms(10,11)] show ?thesis
    using client_initial_eq [OF assms(1-7)] by simp
qed

theorem client_initial_opens_witness:
  "\<exists>pkt hdr i m. client_initial toy_platform ''a'' = Ok pkt \<and> parse_long_header pkt = Ok (hdr, i) \<and>
     lh_dst_cid hdr = ConnectionId (replicate 8 0) \<and>
     decrypt_initial pkt hdr toy_keys = Ok (Crypto 0 [1, 2, 3] # replicate m Padding, 0)"
proof -
  have t: "server_name_ok toy_platform ''a''" "client_new toy_platform EmptyRoots ''a'' = Inr 0"
    "entropy toy_platform i = Some (replicate 8 (of_nat i))" for i
    by (simp_all add: toy_platform_def)
  have k: "keys_typed (keys_local toy_keys)" "length [1, 2, 3 :: u8] + tag_len (keys_local toy_keys) \<le> 14000"
    using toy_typed by (simp_all add: toy_keys_def)
  show ?thesis
    using client_initial_opens [OF t(1,2) toy_tls(2) _ t(3) t(3) toy_initial_keys(1) toy_flights(1) k toy_flights(6)]
    by (auto simp: resize_def)
qed

end
