(* ===== verification/Spec2Isabelle.thy ===== *)
theory Spec2Isabelle
  imports VarInt Frame_Parse Packet_Proofs Errors Space Protection_Proofs Handshake Connection_Props Runtime_Props
    Network_Props File_Transfer_Props Examples_Props Verifier Tests Key_Tests
begin

text \<open>
  A model of deerquic, a QUIC (RFC 9000) transport in Rust, and what is proved about it. The
  definitions are translated from the files under \<open>src/src/\<close>, function by function, with the names of
  the source.

  \<^bold>\<open>The program.\<close> Bytes of a UDP datagram pass through these layers on their way in, and through the
  same layers backwards on their way out:

  \<^item> \<open>runtime.rs\<close>: an \<open>Endpoint\<close> pairs a connection with a \<open>Backend\<close> (a socket) and loops: poll, receive
    and \<open>ingest\<close>, \<open>egest\<close> and send.
  \<^item> \<open>connection.rs\<close>, methods of \<open>Connection\<close>: \<open>ingest\<close> parses the header, has the payload decrypted
    with the keys of its packet number space and processes the frames; CRYPTO data goes to TLS, whose
    output and keys come back into the connection; \<open>egest\<close> collects the frames of the first space that
    has something to say and has them encrypted.
  \<^item> \<open>connection.rs\<close>, free functions: packet protection, \<open>encrypt_packet\<close> and the decryption functions.
  \<^item> \<open>packet.rs\<close> (headers and packet numbers), \<open>frame.rs\<close> (frames), \<open>varint.rs\<close> (integers of variable
    length): the wire formats. \<open>space.rs\<close>: packet numbers, keys and acknowledgements of one space.
    \<open>error.rs\<close>, \<open>crypto.rs\<close>: error codes, Initial keys. \<open>handshake.rs\<close>: a second builder of the
    client's first packet.
  \<^item> \<open>bin/deerquic-interop.rs\<close>: the program that the QUIC interop runner starts, a file server and its
    client over an endpoint. \<open>examples/\<close>: a client that sends pings and a server that answers them.

  \<^bold>\<open>The theories.\<close>

  \<^item> \<open>Prelude\<close>: words, byte buffers, results with errors and panics, sequencing (\<open>andthen\<close> for \<open>?\<close>,
    \<open>seqA\<close> for statements on a mutable state), slices that panic, big-endian integers, and the rules
    \<open>wp\<close> by which the outcome of a sequence is proved statement by statement.
  \<^item> \<open>VarInt\<close>: \<open>varint.rs\<close> and its theorems.
  \<^item> \<open>Codec\<close>: locales for readers and writers of a format: a value written is read back, whatever
    follows it, and a loop over a buffer reads back a list of values. Interpreted on integers, frames
    and payloads.
  \<^item> \<open>Frame\<close> (\<open>frame.rs\<close>), \<open>Frame_Wire\<close> (what is written), \<open>Frame_Parse\<close> (what is read; theorems).
  \<^item> \<open>Packet\<close> (\<open>packet.rs\<close>), \<open>Packet_Proofs\<close>; \<open>Errors\<close> (\<open>error.rs\<close>); \<open>Crypto\<close> (\<open>crypto.rs\<close>, keys as
    records of functions, a concrete cipher).
  \<^item> \<open>Contracts\<close>: locales for a source of packet numbers and for a buffer that loses nothing; \<open>Space\<close>
    (\<open>space.rs\<close>) interprets both, \<open>Connection_Runs\<close> the second on received application data.
  \<^item> \<open>Platform\<close>: TLS, entropy and the crypto provider as parameters.
  \<^item> \<open>Protection\<close>, \<open>Protection_Proofs\<close>: packet protection. \<open>Handshake\<close>: \<open>handshake.rs\<close>.
  \<^item> \<open>Connection\<close>: \<open>Connection\<close> with \<open>connect\<close>, \<open>accept\<close>, \<open>ingest\<close>, \<open>egest\<close>. \<open>Connection_Proofs\<close>: relations
    kept by whole calls, reachability (\<open>reachable\<close>), the invariant \<open>conn_ok\<close>. \<open>Connection_Runs\<close>: \<open>egest\<close>
    as a whole, packet numbers of a run, delivery of short packets. \<open>Connection_Traces\<close>: typed keys,
    the stream of a run, delivery of long packets. \<open>Connection_Handshake\<close>: the handshake.
    \<open>Connection_Props\<close>: the theorems.
  \<^item> \<open>Runtime\<close>, \<open>Runtime_Proofs\<close>, \<open>Runtime_Props\<close>: \<open>runtime.rs\<close>; the locale \<open>datagram_backend\<close> is the
    contract of a backend, interpreted on the epoll backend and on the queue of the witnesses.
  \<^item> \<open>Established\<close>: flushing an established connection, packets with a short header, and the client's
    answer to the server's flight. \<open>Network\<close>: the laws of a system with a network that loses nothing
    (the locale \<open>lossless\<close>), and the test \<open>handshake_via_endpoints\<close> of \<open>runtime.rs\<close> step by step. \<open>Network_Props\<close>:
    its theorem, and a loopback network that interprets the locale, for the witness.
  \<^item> \<open>Text\<close>: what the programs use of Rust's strings (UTF-8, trimming, splitting, parsing of numbers and
    addresses). \<open>Interop\<close>, \<open>Interop_Proofs\<close>, \<open>Interop_Props\<close>: \<open>bin/deerquic-interop.rs\<close>; environment
    variables, files and the PEM reader are the record \<open>host\<close>. \<open>File_Transfer\<close>, \<open>File_Transfer_Props\<close>: the
    programs of a download on both sides of a lossless network, datagram by datagram. \<open>Examples\<close>, \<open>Examples_Props\<close>: the two
    programs of \<open>examples/\<close>, with the console as a list of lines.
  \<^item> \<open>Verifier\<close>: the verifier of certificates that accepts everything. \<open>Tests\<close>: the unit tests of the
    repository, run on the model; \<open>Key_Tests\<close>: those that look into packets and into the keys of rustls, proved
    for every TLS that meets the hypotheses below.

  \<^bold>\<open>How code is modelled.\<close> A struct is a record, an enum a datatype, \<open>u8\<close> to \<open>u64\<close> are words, \<open>usize\<close>
  lengths are natural numbers (64-bit target), byte containers are lists. \<open>Result\<close> is a sum; a Rust
  panic is a value of its own (\<open>Panic\<close>), so that theorems can state that code does not panic, or when
  it does. A function with a \<open>&mut\<close> argument returns the new state, also when it fails. A packet that
  is dropped, an early return and an ignored error are branches of the model. Loops over a buffer are
  recursive functions with a proof that they end (each frame takes at least a byte); the loops of the
  runtime that depend on a peer are partial functions into \<open>option\<close>, where \<open>None\<close> is not returning;
  their bounded counterparts (\<open>handshake\<close>, \<open>drive_handshake\<close>, 1001 iterations) end by their counter.
  No fuel is used.

  \<^bold>\<open>What is shown.\<close>

  \<^item> Formats: what is written is read back (integers, every frame, long and short headers, whole
    protected packets, a client's first packet); what is read from arbitrary bytes is well-formed, which
    errors can come and why, and that nothing panics but for the two cases that do.
  \<^item> Packet numbers: decoding equals the RFC's pseudo-code; no number is used twice under one key, over
    any run of a connection.
  \<^item> Connections: the invariant and the moves of the state machine; \<open>egest\<close> refines a short rule; only
    authenticated packets change a connection; application data stays in order on both ends, and
    a packet of it is delivered or, by its masked bits, rejected without a change; a handshake between \<open>connect\<close> and \<open>accept\<close> completes, given what TLS does.
  \<^item> Runtime: flushing ends after at most four packets, a step is a fold of \<open>ingest\<close> over what arrived
    followed by a flush, the handshake loops end. Two endpoints over a lossless network establish a
    connection: the test of \<open>runtime.rs\<close> passes.
  \<^item> Interop program: the file that is opened is the one the URL names, and a file is sent whole, in
    packets with consecutive numbers and offsets. Over a lossless network the programs of a download end, with
    the pieces of the file whose packets get past the header check on masked bits: the whole file when all do,
    an empty one when the request does not. Examples: a ping is answered with a pong.
  \<^item> Limits: theorems that state what the code does where it falls short of the protocol: packets
    rejected by masked bits, panics on short datagrams and on an announced number of ranges, lost data,
    wrong acknowledgements, frames accepted in the wrong packet, a stray datagram that ends a handshake, paths that leave the document
    root, a wait without end, a host that is never resolved.

  \<^bold>\<open>Hypotheses.\<close> AEAD and header protection of rustls are the record \<open>dir_keys\<close>. \<open>keys_typed\<close> says what
  its Rust types say (lengths are kept); \<open>keys_match\<close> says that one side opens what the other seals (RFC
  9001, section 5). \<open>client_script\<close>, \<open>server_script\<close> and \<open>server_flights\<close> say what TLS 1.3 hands out
  during a handshake. \<open>lossless\<close> is the contract of UDP sockets and epoll on a network without loss.
  \<open>datagram_backend\<close> and \<open>drains\<close> are what a backend promises: no more bytes than fit, and that it runs
  out of datagrams. Each theorem with hypotheses has a witness on the concrete cipher (\<open>toy_keys\<close>),
  platform (\<open>toy_platform\<close>), backend (\<open>toy_backend\<close>), network (\<open>loopback_os\<close>) and host (\<open>toy_host\<close>).

  \<^bold>\<open>Not modelled.\<close> The insides of rustls, of its crypto provider and of the operating system, which are
  parameters; how TLS uses the certificate verifier; accessors without behaviour; \<open>Display\<close> texts beyond
  the names of transport errors; sleeping. Of the standard
  library only what the programs use of strings and addresses is written out.
\<close>

end
